(* ===== verification/Prelude.thy ===== *)
theory Prelude
  imports Main "HOL-Library.Word" "HOL-Library.While_Combinator"
begin

text \<open>
  Shared vocabulary of the development: the machine integer types, the command monad in
  which every stateful C function is written (state passing, with the non-local exits of
  the firmware as values), loops that may not return, and linked lists threaded through a
  store of \<open>next\<close> pointers.
\<close>

unbundle bit_operations_syntax

section \<open>Types\<close>

type_synonym u8 = "8 word"
type_synonym u16 = "16 word"
type_synonym u32 = "32 word"
type_synonym u64 = "64 word"

text \<open>
  A C function of the firmware either returns, or leaves through the \<open>longjmp\<close> of
  \<open>shutdown(msg)\<close>, or performs an undefined operation (a null pointer is followed, an array
  is left), or loops for ever.  The last two are values too, so that their absence is a
  theorem.  In every case the state reached is kept: a \<open>longjmp\<close> undoes nothing.
\<close>

datatype abort = Shutdown string | Fault string | Diverge

type_synonym ('s, 'a) cmd = "'s \<Rightarrow> (abort + 'a) \<times> 's"

section \<open>Rule collections\<close>

named_theorems cmd_simps \<open>equations that run commands of the monad\<close>
named_theorems preserves_intros \<open>introduction rules for invariants of commands\<close>
named_theorems ends_intros \<open>introduction rules for commands that end\<close>
named_theorems frame_simps \<open>fields an operation leaves alone\<close>

section \<open>The command monad\<close>

definition ret :: "'a \<Rightarrow> ('s, 'a) cmd" where
  "ret x s = (Inr x, s)"

definition fail :: "abort \<Rightarrow> ('s, 'a) cmd" where
  "fail e s = (Inl e, s)"

definition mbind :: "('s, 'a) cmd \<Rightarrow> ('a \<Rightarrow> ('s, 'b) cmd) \<Rightarrow> ('s, 'b) cmd" where
  "mbind m f s = (case m s of (r, s') \<Rightarrow> (case r of Inl e \<Rightarrow> (Inl e, s') | Inr x \<Rightarrow> f x s'))"

definition mseq :: "('s, 'a) cmd \<Rightarrow> ('s, 'b) cmd \<Rightarrow> ('s, 'b) cmd" where
  "mseq m n = mbind m (\<lambda>_. n)"

definition gets :: "('s \<Rightarrow> 'a) \<Rightarrow> ('s, 'a) cmd" where
  "gets f s = (Inr (f s), s)"

definition modify :: "('s \<Rightarrow> 's) \<Rightarrow> ('s, unit) cmd" where
  "modify f s = (Inr (), f s)"

definition mwhen :: "bool \<Rightarrow> ('s, unit) cmd \<Rightarrow> ('s, unit) cmd" where
  "mwhen b m = (if b then m else ret ())"

lemma ret_run [simp]: "ret x s = (Inr x, s)"
  by (simp add: ret_def)

lemma fail_run [simp]: "fail e s = (Inl e, s)"
  by (simp add: fail_def)

lemma gets_run [simp]: "gets f s = (Inr (f s), s)"
  by (simp add: gets_def)

lemma modify_run [simp]: "modify f s = (Inr (), f s)"
  by (simp add: modify_def)

lemma mwhen_run [simp]: "mwhen b m s = (if b then m s else (Inr (), s))"
  by (simp add: mwhen_def)

lemmas run_simps = mbind_def mseq_def

declare run_simps [cmd_simps]

lemma mbind_Inr: "m s = (Inr x, s') \<Longrightarrow> mbind m f s = f x s'"
  by (simp add: mbind_def)

lemma mbind_Inl: "m s = (Inl e, s') \<Longrightarrow> mbind m f s = (Inl e, s')"
  by (simp add: mbind_def)

lemma mseq_Inr: "m s = (Inr x, s') \<Longrightarrow> mseq m n s = n s'"
  by (simp add: mseq_def mbind_def)

lemma mseq_Inl: "m s = (Inl e, s') \<Longrightarrow> mseq m n s = (Inl e, s')"
  by (simp add: mseq_def mbind_def)

lemma mbind_cases:
  assumes "mbind m f s = (r, t)"
  obtains e where "m s = (Inl e, t)" "r = Inl e"
  | x s' where "m s = (Inr x, s')" "f x s' = (r, t)"
  using assms by (auto simp: mbind_def split: prod.splits sum.splits)

lemma mseq_cases:
  assumes "mseq m n s = (r, t)"
  obtains e where "m s = (Inl e, t)" "r = Inl e"
  | x s' where "m s = (Inr x, s')" "n s' = (r, t)"
  using assms by (auto simp: mseq_def elim: mbind_cases)

section \<open>Invariants of commands\<close>

text \<open>A command keeps a property of the state on every exit, the aborting ones included.\<close>

definition preserves :: "('s \<Rightarrow> bool) \<Rightarrow> ('s, 'a) cmd \<Rightarrow> bool" where
  "preserves P m \<longleftrightarrow> (\<forall>s. P s \<longrightarrow> P (snd (m s)))"

lemma preservesI: "(\<And>s. P s \<Longrightarrow> P (snd (m s))) \<Longrightarrow> preserves P m"
  by (simp add: preserves_def)

lemma preservesD: "preserves P m \<Longrightarrow> P s \<Longrightarrow> P (snd (m s))"
  by (simp add: preserves_def)

lemma preserves_run: "preserves P m \<Longrightarrow> m s = (r, t) \<Longrightarrow> P s \<Longrightarrow> P t"
  using preservesD [of P m s] by simp

lemma preserves_ret [preserves_intros]: "preserves P (ret x)"
  by (simp add: preserves_def)

lemma preserves_fail [preserves_intros]: "preserves P (fail e)"
  by (simp add: preserves_def)

lemma preserves_gets [preserves_intros]: "preserves P (gets f)"
  by (simp add: preserves_def)

lemma preserves_modify [preserves_intros]:
  "(\<And>s. P s \<Longrightarrow> P (f s)) \<Longrightarrow> preserves P (modify f)"
  by (simp add: preserves_def)

lemma preserves_mbind [preserves_intros]:
  "preserves P m \<Longrightarrow> (\<And>x. preserves P (f x)) \<Longrightarrow> preserves P (mbind m f)"
  by (force simp: preserves_def mbind_def split: prod.splits sum.splits)

lemma preserves_mseq [preserves_intros]:
  "preserves P m \<Longrightarrow> preserves P n \<Longrightarrow> preserves P (mseq m n)"
  by (simp add: mseq_def preserves_intros)

lemma preserves_mwhen [preserves_intros]:
  "(b \<Longrightarrow> preserves P m) \<Longrightarrow> preserves P (mwhen b m)"
  by (simp add: mwhen_def preserves_intros)

lemma preserves_if [preserves_intros]:
  "(b \<Longrightarrow> preserves P m) \<Longrightarrow> (\<not> b \<Longrightarrow> preserves P n) \<Longrightarrow> preserves P (if b then m else n)"
  by simp

lemma preserves_option [preserves_intros]:
  "(x = None \<Longrightarrow> preserves P m) \<Longrightarrow> (\<And>y. x = Some y \<Longrightarrow> preserves P (n y)) \<Longrightarrow>
   preserves P (case x of None \<Rightarrow> m | Some y \<Rightarrow> n y)"
  by (cases x) auto

lemma preserves_prod [preserves_intros]:
  "(\<And>a b. x = (a, b) \<Longrightarrow> preserves P (n a b)) \<Longrightarrow> preserves P (case x of (a, b) \<Rightarrow> n a b)"
  by (cases x) auto

lemma preserves_Let [preserves_intros]: "preserves P (f x) \<Longrightarrow> preserves P (let y = x in f y)"
  by simp

text \<open>
  A command is sound under an invariant if from every state that has the invariant it returns
  or shuts down, with no undefined operation and no endless loop, and keeps the invariant.
\<close>

definition ok_exit :: "abort + 'a \<Rightarrow> bool" where
  "ok_exit r \<longleftrightarrow> (\<forall>m. r \<noteq> Inl (Fault m)) \<and> r \<noteq> Inl Diverge"

definition sound :: "('s \<Rightarrow> bool) \<Rightarrow> ('s, 'a) cmd \<Rightarrow> bool" where
  "sound P m \<longleftrightarrow> (\<forall>s. P s \<longrightarrow> ok_exit (fst (m s)) \<and> P (snd (m s)))"

lemma ok_exit_simps [simp]: "ok_exit (Inr x)" "ok_exit (Inl (Shutdown m))"
  "\<not> ok_exit (Inl (Fault m))" "\<not> ok_exit (Inl Diverge)"
  by (simp_all add: ok_exit_def)

lemma soundI: "(\<And>s. P s \<Longrightarrow> ok_exit (fst (m s)) \<and> P (snd (m s))) \<Longrightarrow> sound P m"
  by (simp add: sound_def)

lemma soundD: "sound P m \<Longrightarrow> P s \<Longrightarrow> ok_exit (fst (m s)) \<and> P (snd (m s))"
  by (simp add: sound_def)

lemma sound_run: "sound P m \<Longrightarrow> P s \<Longrightarrow> m s = (r, t) \<Longrightarrow> ok_exit r \<and> P t"
  using soundD [of P m s] by simp

lemma sound_preserves: "sound P m \<Longrightarrow> preserves P m"
  by (simp add: sound_def preserves_def)

lemma sound_mbind:
  assumes "sound P m" "\<And>x s t. P s \<Longrightarrow> m s = (Inr x, t) \<Longrightarrow> P t \<Longrightarrow> ok_exit (fst (f x t)) \<and> P (snd (f x t))"
  shows "sound P (mbind m f)"
proof (rule soundI)
  fix s assume P: "P s"
  obtain r t where m: "m s = (r, t)" by (cases "m s")
  have "ok_exit r" "P t" using sound_run [OF assms(1) P m] by auto
  then show "ok_exit (fst (mbind m f s)) \<and> P (snd (mbind m f s))"
    using m assms(2) [OF P] by (cases r) (auto simp: mbind_def ok_exit_def)
qed

lemma sound_seq:
  "sound P m \<Longrightarrow> (\<And>x. sound P (f x)) \<Longrightarrow> sound P (mbind m f)"
  "sound P m \<Longrightarrow> sound P n \<Longrightarrow> sound P (mseq m n)"
  by (auto simp: mseq_def intro!: sound_mbind dest: soundD)

lemma sound_basic:
  "sound P (ret x)" "sound P (fail (Shutdown msg))" "sound P (gets g)"
  "(\<And>s. P s \<Longrightarrow> P (u s)) \<Longrightarrow> sound P (modify u)"
  "(b \<Longrightarrow> sound P w) \<Longrightarrow> sound P (mwhen b w)"
  "(b \<Longrightarrow> sound P m) \<Longrightarrow> (\<not> b \<Longrightarrow> sound P m') \<Longrightarrow> sound P (if b then m else m')"
  by (auto simp: sound_def)

lemmas sound_intros = sound_seq sound_basic

section \<open>Commands that end\<close>

text \<open>
  From a state with the invariant \<open>P\<close> the command returns or aborts, and it has the invariant when it
  returns.  It may abort, also with a fault.
\<close>

definition ends :: "('s \<Rightarrow> bool) \<Rightarrow> ('s, 'a) cmd \<Rightarrow> bool" where
  "ends P m \<longleftrightarrow> (\<forall>s. P s \<longrightarrow> fst (m s) \<noteq> Inl Diverge \<and> (\<forall>r t. m s = (Inr r, t) \<longrightarrow> P t))"

lemma endsI: "(\<And>s. P s \<Longrightarrow> fst (m s) \<noteq> Inl Diverge \<and> (\<forall>r t. m s = (Inr r, t) \<longrightarrow> P t)) \<Longrightarrow> ends P m"
  by (simp add: ends_def)

lemma endsD: "ends P m \<Longrightarrow> P s \<Longrightarrow> fst (m s) \<noteq> Inl Diverge" "ends P m \<Longrightarrow> P s \<Longrightarrow> m s = (Inr r, t) \<Longrightarrow> P t"
  by (auto simp: ends_def)

lemma ends_ret [ends_intros]: "ends P (ret x)"
  by (simp add: ends_def)

lemma ends_fail [ends_intros]: "e \<noteq> Diverge \<Longrightarrow> ends P (fail e)"
  by (simp add: ends_def)

lemma ends_gets [ends_intros]: "ends P (gets f)"
  by (simp add: ends_def)

lemma ends_modify [ends_intros]: "(\<And>s. P s \<Longrightarrow> P (f s)) \<Longrightarrow> ends P (modify f)"
  by (simp add: ends_def)

lemma ends_mbind [ends_intros]: "ends P m \<Longrightarrow> (\<And>x. ends P (f x)) \<Longrightarrow> ends P (mbind m f)"
  by (rule endsI) (auto simp: mbind_def split: prod.splits sum.splits dest: endsD)

lemma ends_mseq [ends_intros]: "ends P m \<Longrightarrow> ends P n \<Longrightarrow> ends P (mseq m n)"
  unfolding mseq_def by (rule ends_mbind)

lemma ends_mwhen [ends_intros]: "(b \<Longrightarrow> ends P m) \<Longrightarrow> ends P (mwhen b m)"
  by (simp add: ends_def)

lemma ends_if [ends_intros]: "(b \<Longrightarrow> ends P m) \<Longrightarrow> (\<not> b \<Longrightarrow> ends P n) \<Longrightarrow> ends P (if b then m else n)"
  by simp

lemma ends_case_option [ends_intros]:
  "ends P m \<Longrightarrow> (\<And>x. ends P (f x)) \<Longrightarrow> ends P (case v of None \<Rightarrow> m | Some x \<Rightarrow> f x)"
  by (cases v) simp_all

lemma ends_case_prod [ends_intros]: "(\<And>x y. ends P (f x y)) \<Longrightarrow> ends P (case v of (x, y) \<Rightarrow> f x y)"
  by (cases v) simp

lemma ends_conj: "ends P m \<Longrightarrow> ends Q m \<Longrightarrow> ends (\<lambda>s. P s \<and> Q s) m"
  by (auto simp: ends_def)

section \<open>Loops that may not return\<close>

text \<open>
  \<open>while (b) body;\<close> over the state.  A \<open>shutdown\<close> in the body leaves the loop; a loop that
  never ends is the abort \<^const>\<open>Diverge\<close>.
\<close>

definition cwhile :: "('s \<Rightarrow> bool) \<Rightarrow> ('s, unit) cmd \<Rightarrow> ('s, unit) cmd" where
  "cwhile b body s =
     (case while_option (\<lambda>(r, s). r = Inr () \<and> b s) (\<lambda>(r, s). body s) (Inr (), s) of
        None \<Rightarrow> (Inl Diverge, s)
      | Some rs \<Rightarrow> rs)"

lemma cwhile_done: "\<not> b s \<Longrightarrow> cwhile b body s = (Inr (), s)"
  by (simp add: cwhile_def while_option_unfold)

lemma cwhile_abort: "b s \<Longrightarrow> body s = (Inl e, t) \<Longrightarrow> cwhile b body s = (Inl e, t)"
  by (simp add: cwhile_def while_option_unfold)

lemma cwhile_step:
  assumes "b s" "body s = (Inr (), t)" "fst (cwhile b body t) \<noteq> Inl Diverge"
  shows "cwhile b body s = cwhile b body t"
proof -
  let ?W = "while_option (\<lambda>(r, s). r = Inr () \<and> b s) (\<lambda>(r, s). body s)"
  have "?W (Inr (), s) = ?W (Inr (), t)"
    using assms(1,2) by (subst while_option_unfold) simp
  with assms(3) show ?thesis
    by (auto simp: cwhile_def split: option.splits)
qed

lemma cwhile_preserves [preserves_intros]:
  assumes "preserves P body"
  shows "preserves P (cwhile b body)"
proof (rule preservesI)
  fix s assume P: "P s"
  show "P (snd (cwhile b body s))"
  proof (cases "while_option (\<lambda>(r, s). r = Inr () \<and> b s) (\<lambda>(r, s). body s) (Inr (), s)")
    case None
    then show ?thesis using P by (simp add: cwhile_def)
  next
    case (Some rs)
    have "P (snd rs)"
    proof (rule while_option_rule [where P = "\<lambda>rs. P (snd rs)", OF _ Some])
      fix q assume "P (snd q)" "case q of (r, s) \<Rightarrow> r = Inr () \<and> b s"
      then show "P (snd (case q of (r, s) \<Rightarrow> body s))"
        using preservesD [OF assms] by (cases q) simp
    qed (simp add: P)
    then show ?thesis using Some by (simp add: cwhile_def)
  qed
qed

text \<open>
  \<open>for (;;)\<close> with local variables \<open>x\<close>: the body either goes round again with new values
  (\<open>Inl x'\<close>) or returns from the loop (\<open>Inr r\<close>).
\<close>

definition cloop :: "('x \<Rightarrow> ('s, 'x + 'r) cmd) \<Rightarrow> 'x \<Rightarrow> ('s, 'r) cmd" where
  "cloop body x s =
     (case while_option (\<lambda>(q, s). case q of Inr (Inl x) \<Rightarrow> True | _ \<Rightarrow> False)
             (\<lambda>(q, s). case q of Inr (Inl x) \<Rightarrow> body x s | _ \<Rightarrow> (q, s)) (Inr (Inl x), s) of
        None \<Rightarrow> (Inl Diverge, s)
      | Some (q, t) \<Rightarrow> (case q of Inl e \<Rightarrow> (Inl e, t) | Inr (Inr r) \<Rightarrow> (Inr r, t)
                         | Inr (Inl x) \<Rightarrow> (Inl Diverge, t)))"

lemma cloop_return: "body x s = (Inr (Inr r), t) \<Longrightarrow> cloop body x s = (Inr r, t)"
  by (simp add: cloop_def while_option_unfold)

lemma cloop_abort: "body x s = (Inl e, t) \<Longrightarrow> cloop body x s = (Inl e, t)"
  by (simp add: cloop_def while_option_unfold)

lemma cloop_step:
  assumes "body x s = (Inr (Inl y), t)" "fst (cloop body y t) \<noteq> Inl Diverge"
  shows "cloop body x s = cloop body y t"
proof -
  let ?W = "while_option (\<lambda>(q, s). case q of Inr (Inl x) \<Rightarrow> True | _ \<Rightarrow> False)
             (\<lambda>(q, s). case q of Inr (Inl x) \<Rightarrow> body x s | _ \<Rightarrow> (q, s))"
  have "?W (Inr (Inl x), s) = ?W (Inr (Inl y), t)"
    using assms(1) by (subst while_option_unfold) simp
  with assms(2) show ?thesis
    by (auto simp: cloop_def split: option.splits)
qed

text \<open>A loop whose rounds are sound and bring a measure down is sound.\<close>

lemma sound_cloop:
  assumes body: "\<And>x s. P s \<Longrightarrow> I x \<Longrightarrow> ok_exit (fst (body x s)) \<and> P (snd (body x s))
      \<and> (\<forall>y. fst (body x s) = Inr (Inl y) \<longrightarrow> I y \<and> (mu y :: nat) < mu x)"
    and "I x"
  shows "sound P (cloop body x)"
proof (rule soundI)
  fix s assume "P s"
  then show "ok_exit (fst (cloop body x s)) \<and> P (snd (cloop body x s))" using \<open>I x\<close>
  proof (induction "mu x" arbitrary: x s rule: less_induct)
    case less
    obtain r t where b: "body x s = (r, t)" by (cases "body x s")
    have B: "ok_exit r" "P t" "\<And>y. r = Inr (Inl y) \<Longrightarrow> I y \<and> mu y < mu x"
      using body [OF less.prems] b by auto
    show ?case
    proof (cases r)
      case (Inl e)
      then show ?thesis using B b by (auto simp: ok_exit_def cloop_abort)
    next
      case (Inr q)
      show ?thesis
      proof (cases q)
        case (Inl y)
        then have I: "I y" "mu y < mu x" using B(3) Inr by auto
        have "ok_exit (fst (cloop body y t)) \<and> P (snd (cloop body y t))"
          by (rule less.hyps [OF I(2) B(2) I(1)])
        moreover from this have "cloop body x s = cloop body y t"
          using b Inr Inl by (intro cloop_step) (auto simp: ok_exit_def)
        ultimately show ?thesis by simp
      next
        case (Inr r')
        then show ?thesis using \<open>r = Inr q\<close> B b by (simp add: cloop_return)
      qed
    qed
  qed
qed

section \<open>Words\<close>

lemma unat_bounds:
  "unat (x :: u8) < 256" "unat (y :: u16) < 65536" "unat (z :: u32) < 4294967296"
  using unsigned_less [where 'a = nat and w = x] unsigned_less [where 'a = nat and w = y]
    unsigned_less [where 'a = nat and w = z] by simp_all

text \<open>A property of all bytes can be evaluated byte by byte.\<close>

lemma byte_all:
  assumes "\<forall>k\<in>set [0..255]. P (word_of_int k :: u8)"
  shows "P c"
proof -
  have "uint c < 2 ^ LENGTH(8)" by (rule uint_lt2p)
  then have "uint c \<in> set [0..255]" by simp
  with assms have "P (word_of_int (uint c))" by blast
  then show ?thesis by simp
qed

lemma mask7: "(0x7f :: 'a::len word) = mask 7"
  by (simp add: mask_eq_exp_minus_1)

lemma bit_0x80:
  "bit (0x80 :: u8) n \<longleftrightarrow> n = 7" "bit (0x80 :: u32) n \<longleftrightarrow> n = 7" "bit (0x80 :: int) n \<longleftrightarrow> n = 7"
proof -
  have e: "(0x80 :: u8) = 2 ^ 7" "(0x80 :: u32) = 2 ^ 7" "(0x80 :: int) = 2 ^ 7" by simp_all
  show "bit (0x80 :: u8) n \<longleftrightarrow> n = 7" "bit (0x80 :: u32) n \<longleftrightarrow> n = 7" "bit (0x80 :: int) n \<longleftrightarrow> n = 7"
    unfolding e by (auto simp only: bit_exp_iff) simp_all
qed

lemma flag_cleared:
  fixes x k m :: "'a::len word"
  assumes "k AND m = 0"
  shows "((x AND NOT m) OR k) AND m = 0"
proof (rule bit_word_eqI)
  fix n assume "n < LENGTH('a)"
  have "\<not> bit (k AND m) n" using assms by simp
  then show "bit (((x AND NOT m) OR k) AND m) n = bit 0 n" by (auto simp: bit_simps)
qed

lemma or_flag: "(x OR m) AND m = (m :: 'a::len word)"
  by (rule bit_word_eqI) (auto simp: bit_simps)

lemma sign_bit: "x AND 0x80000000 \<noteq> 0 \<longleftrightarrow> 2 ^ 31 \<le> unat (x :: u32)"
proof -
  have "x AND 2 ^ 31 = 0 \<longleftrightarrow> \<not> bit x 31" by (rule and_exp_eq_0_iff_not_bit)
  moreover have "bit x 31 \<longleftrightarrow> bit (unat x) 31" by (simp add: bit_unsigned_iff)
  moreover have "bit (unat x) 31 \<longleftrightarrow> 2 ^ 31 \<le> unat x"
  proof -
    have "unat x div 2 ^ 31 \<le> 1" using unat_bounds(3) [of x] by (simp add: div_le_mono less_mult_imp_div_less)
    then have "odd (unat x div 2 ^ 31) \<longleftrightarrow> 0 < unat x div 2 ^ 31" by (auto simp: le_Suc_eq)
    then show ?thesis by (simp add: bit_iff_odd div_greater_zero_iff)
  qed
  ultimately show ?thesis by simp
qed

lemma small_word_bits:
  assumes "unat (m :: 'a::len word) < 2 ^ k" "k \<le> n"
  shows "\<not> bit m n"
proof -
  have "unat m < 2 ^ n" using assms by (meson less_le_trans one_le_numeral power_increasing)
  then have "\<not> bit (unat m) n" by (simp add: bit_nat_def)
  then show ?thesis by (simp add: bit_unsigned_iff)
qed

lemma word_xor_cancel:
  fixes a b c :: "'a::len word"
  shows "a XOR c = b XOR c \<longleftrightarrow> a = b" "c XOR a = c XOR b \<longleftrightarrow> a = b"
  by (auto simp: bit_eq_iff bit_simps)

text \<open>A property of bytes that is linear over bit-wise addition holds if it holds of the bits.\<close>

lemma byte_xor_induct [case_names zero add bits]:
  fixes x :: u8
  assumes zero: "P 0" and add: "\<And>x y. P x \<Longrightarrow> P y \<Longrightarrow> P (x XOR y)"
    and bits: "\<forall>k\<in>set [0..7]. P (push_bit (nat k) 1)"
  shows "P x"
proof -
  have "P (take_bit n x)" if "n \<le> 8" for n using that
  proof (induction n)
    case (Suc n)
    have t: "take_bit (Suc n) x = (if bit x n then push_bit n 1 XOR take_bit n x else take_bit n x)"
      by (rule bit_word_eqI) (auto simp: bit_simps less_Suc_eq)
    have "int n \<in> set [0..7]" using Suc.prems by simp
    with bits have "P (push_bit (nat (int n)) 1)" by blast
    then have "P (push_bit n 1)" by simp
    with Suc add show ?case by (simp add: t)
  qed (simp add: zero)
  moreover have "take_bit 8 x = x"
    by (rule bit_word_eqI) (simp add: bit_simps)
  ultimately show ?thesis by (metis order_refl)
qed

section \<open>Linked lists through a store\<close>

text \<open>
  \<open>lseg nx p xs q\<close>: following \<open>next\<close> pointers (the function \<open>nx\<close>) from \<open>p\<close> visits exactly
  the nodes \<open>xs\<close> and arrives at \<open>q\<close>; \<open>None\<close> is the null pointer.
\<close>

primrec lseg :: "('p \<Rightarrow> 'p option) \<Rightarrow> 'p option \<Rightarrow> 'p list \<Rightarrow> 'p option \<Rightarrow> bool" where
  "lseg nx p [] q \<longleftrightarrow> p = q"
| "lseg nx p (x # xs) q \<longleftrightarrow> p = Some x \<and> lseg nx (nx x) xs q"

lemma lseg_append [simp]:
  "lseg nx p (xs @ ys) q \<longleftrightarrow> (\<exists>r. lseg nx p xs r \<and> lseg nx r ys q)"
  by (induction xs arbitrary: p) auto

lemma lseg_frame [simp]: "x \<notin> set xs \<Longrightarrow> lseg (nx(x := v)) p xs q = lseg nx p xs q"
  by (induction xs arbitrary: p) auto

lemma lseg_cong: "(\<And>x. x \<in> set xs \<Longrightarrow> nx x = ny x) \<Longrightarrow> lseg nx p xs q = lseg ny p xs q"
  by (induction xs arbitrary: p) auto

lemma lseg_null [simp]: "lseg nx None xs None \<longleftrightarrow> xs = []"
  by (cases xs) auto

lemma lseg_some: "lseg nx (Some x) xs None \<longleftrightarrow> (\<exists>ys. xs = x # ys \<and> lseg nx (nx x) ys None)"
  by (cases xs) auto

lemma lseg_unique: "lseg nx p xs None \<Longrightarrow> lseg nx p ys None \<Longrightarrow> xs = ys"
  by (induction xs arbitrary: p ys) (auto simp: lseg_some)

lemma lseg_distinct: "lseg nx p xs None \<Longrightarrow> distinct xs"
proof (induction xs arbitrary: p)
  case (Cons x xs)
  have "x \<notin> set xs"
  proof
    assume "x \<in> set xs"
    then obtain as bs where xs: "xs = as @ x # bs" by (auto simp: in_set_conv_decomp)
    with Cons.prems have "lseg nx (nx x) bs None" "lseg nx (nx x) (as @ x # bs) None"
      by auto
    then have "bs = as @ x # bs" by (rule lseg_unique)
    then show False by (metis append_Cons append_self_conv2 list.distinct(1))
  qed
  with Cons show ?case by auto
qed simp

lemma lseg_last: "lseg nx p xs q \<Longrightarrow> xs \<noteq> [] \<Longrightarrow> nx (last xs) = q"
  by (induction xs arbitrary: p) (auto split: if_splits)

lemma lseg_push_front:
  "lseg nx p xs None \<Longrightarrow> x \<notin> set xs \<Longrightarrow> lseg (nx(x := p)) (Some x) (x # xs) None"
  by simp

text \<open>Hanging a new node \<open>x\<close> behind the last node of a list.\<close>

lemma lseg_snoc:
  assumes "lseg nx p xs None" "x \<notin> set xs" "xs \<noteq> []"
  shows "lseg (nx(x := None, last xs := Some x)) p (xs @ [x]) None"
proof -
  obtain ys l where xs: "xs = ys @ [l]" using \<open>xs \<noteq> []\<close> by (metis rev_exhaust)
  have "distinct xs" using assms(1) by (rule lseg_distinct)
  with assms xs show ?thesis by auto
qed

text \<open>Unlinking node \<open>x\<close> behind its predecessor \<open>y\<close>, and linking it there.\<close>

lemma lseg_unlink:
  assumes "lseg nx p (xs @ y # x # zs) None"
  shows "lseg (nx(y := nx x)) p (xs @ y # zs) None"
proof -
  have "distinct (xs @ y # x # zs)" using assms by (rule lseg_distinct)
  with assms show ?thesis by auto
qed

lemma lseg_link:
  assumes "lseg nx p (xs @ y # zs) None" "x \<notin> set (xs @ y # zs)"
  shows "lseg (nx(x := nx y, y := Some x)) p (xs @ y # x # zs) None"
proof -
  have "distinct (xs @ y # zs)" using assms(1) by (rule lseg_distinct)
  with assms show ?thesis by auto
qed

end
