(* ===== verification/Vlq.thy ===== *)
theory Vlq
  imports Prelude
begin

text \<open>
  The variable length quantities of the wire protocol: \<open>encode_int\<close>, \<open>parse_int\<close>,
  \<open>encode_msgid\<close> and \<open>command_parse_msgid\<close> of \<open>src/src/command.c\<close>.  A function that writes
  through a pointer returns the bytes it writes.  A function that reads through a pointer
  takes the buffer and a position in it; \<open>None\<close> is a read past the end of the buffer.
\<close>

section \<open>Encoding and parsing\<close>

definition encode_int :: "u32 \<Rightarrow> u8 list" where
  "encode_int v =
     (let sv = sint v;
          f4 = [ucast (v AND 0x7f)];
          f3 = ucast ((drop_bit 7 v AND 0x7f) OR 0x80) # f4;
          f2 = ucast ((drop_bit 14 v AND 0x7f) OR 0x80) # f3;
          f1 = ucast ((drop_bit 21 v AND 0x7f) OR 0x80) # f2
      in if sv < 3 * 2 ^ 5 \<and> sv \<ge> - (2 ^ 5) then f4
         else if sv < 3 * 2 ^ 12 \<and> sv \<ge> - (2 ^ 12) then f3
         else if sv < 3 * 2 ^ 19 \<and> sv \<ge> - (2 ^ 19) then f2
         else if sv < 3 * 2 ^ 26 \<and> sv \<ge> - (2 ^ 26) then f1
         else ucast (drop_bit 28 v OR 0x80) # f1)"

text \<open>The loop \<open>while (c & 0x80)\<close> of \<open>parse_int\<close>.\<close>

function parse_int_loop :: "u8 list \<Rightarrow> u8 \<Rightarrow> u32 \<Rightarrow> nat \<Rightarrow> (u32 \<times> nat) option" where
  "parse_int_loop buf c v p =
     (if c AND 0x80 \<noteq> 0
      then if p < length buf
           then parse_int_loop buf (buf ! p) (push_bit 7 v OR (ucast (buf ! p) AND 0x7f)) (Suc p)
           else None
      else Some (v, p))"
  by pat_completeness auto
termination
  by (relation "measure (\<lambda>(buf, c, v, p). length buf - p)") auto

declare parse_int_loop.simps [simp del]

definition parse_int :: "u8 list \<Rightarrow> nat \<Rightarrow> (u32 \<times> nat) option" where
  "parse_int buf p =
     (if p < length buf
      then let c = buf ! p;
               v = ucast c AND 0x7f;
               v' = (if c AND 0x60 = 0x60 then v OR (- 0x20) else v)
           in parse_int_loop buf c v' (Suc p)
      else None)"

definition encode_msgid :: "u32 \<Rightarrow> u8 list" where
  "encode_msgid encoded_msgid =
     (if encoded_msgid \<ge> 0x80 then [ucast (drop_bit 7 encoded_msgid OR 0x80)] else [])
     @ [ucast (encoded_msgid AND 0x7f)]"

definition command_parse_msgid :: "u8 list \<Rightarrow> nat \<Rightarrow> (u32 \<times> nat) option" where
  "command_parse_msgid buf p =
     (if p < length buf
      then let e = ucast (buf ! p) :: u32
           in if e AND 0x80 \<noteq> 0
              then if Suc p < length buf
                   then Some (push_bit 7 (e AND 0x7f) OR ucast (buf ! Suc p), Suc (Suc p))
                   else None
              else Some (e, Suc p)
      else None)"

section \<open>Digits of a machine integer\<close>

lemma digit:
  assumes "v = (word_of_int k :: u32)" "n + 7 \<le> 32"
  shows "drop_bit n v AND 0x7f = word_of_int (k div 2 ^ n mod 128)"
proof -
  have "k div 2 ^ n mod 128 = take_bit 7 (drop_bit n k)"
    by (simp add: take_bit_eq_mod drop_bit_eq_div)
  then show ?thesis using assms
    by (auto simp: mask7 bit_eq_iff bit_simps)
qed

text \<open>One round of the parser's loop appends a base-128 digit.\<close>

lemma shift_in:
  assumes "0 \<le> d" "d < 128"
  shows "push_bit 7 (word_of_int a :: u32) OR word_of_int d = word_of_int (a * 128 + d)"
proof -
  have d: "d = take_bit 7 d" using assms by (simp add: take_bit_eq_mod)
  have "\<not> bit d n" if "7 \<le> n" for n using that by (subst d) (simp add: bit_simps)
  then have "push_bit 7 (word_of_int a :: u32) AND word_of_int d = 0"
    by (auto simp: bit_eq_iff bit_simps)
  then have "push_bit 7 (word_of_int a :: u32) OR word_of_int d
      = push_bit 7 (word_of_int a) + word_of_int d"
    by (simp add: disjunctive_add_eq_or)
  also have "\<dots> = word_of_int (a * 128 + d)"
    by (simp add: push_bit_eq_mult)
  finally show ?thesis .
qed

lemma digit_byte [simp]:
  "(ucast (ucast ((x AND 0x7f) OR 0x80 :: u32) :: u8) :: u32) AND 0x7f = x AND 0x7f"
  "(ucast ((x AND 0x7f) OR 0x80 :: u32) :: u8) AND 0x80 \<noteq> 0"
  "(ucast (ucast (x AND 0x7f :: u32) :: u8) :: u32) AND 0x7f = x AND 0x7f"
  "(ucast (x AND 0x7f :: u32) :: u8) AND 0x80 = 0"
proof -
  show "(ucast (ucast ((x AND 0x7f) OR 0x80 :: u32) :: u8) :: u32) AND 0x7f = x AND 0x7f"
    unfolding mask7 by (rule bit_word_eqI) (auto simp: bit_simps bit_0x80)
  have "bit ((ucast ((x AND 0x7f) OR 0x80 :: u32) :: u8) AND 0x80) 7"
    unfolding mask7 by (auto simp: bit_simps bit_0x80)
  then show "(ucast ((x AND 0x7f) OR 0x80 :: u32) :: u8) AND 0x80 \<noteq> 0"
    by auto
  show "(ucast (ucast (x AND 0x7f :: u32) :: u8) :: u32) AND 0x7f = x AND 0x7f"
    unfolding mask7 by (rule bit_word_eqI) (auto simp: bit_simps)
  show "(ucast (x AND 0x7f :: u32) :: u8) AND 0x80 = 0"
    unfolding mask7 by (rule bit_word_eqI) (auto simp: bit_simps bit_0x80)
qed

text \<open>The sign test of the parser reads the first digit as a number from \<open>-32\<close> to \<open>95\<close>.\<close>

lemma sign_test: "((c :: u8) AND 0x60 = 0x60) = (96 \<le> uint (c AND 0x7f))"
  by (rule byte_all [where P = "\<lambda>c. (c AND 0x60 = 0x60) = (96 \<le> uint (c AND 0x7f))"]) code_simp

lemma uint_ucast_and7: "uint ((ucast (c :: u8) :: u32) AND 0x7f) = uint (c AND 0x7f)"
proof -
  have "(ucast c :: u32) AND 0x7f = ucast (c AND 0x7f)"
    unfolding mask7 by (auto simp: bit_eq_iff bit_simps)
  then show ?thesis by (simp add: uint_up_ucast is_up)
qed

lemma first_digit:
  fixes c :: u8
  assumes "- 32 \<le> x" "x < 96" "(ucast c AND 0x7f :: u32) = word_of_int (x mod 128)"
  shows "(if c AND 0x60 = 0x60 then (ucast c AND 0x7f :: u32) OR (- 0x20) else ucast c AND 0x7f)
    = word_of_int x"
proof -
  have "uint (ucast c AND 0x7f :: u32) = x mod 128"
    by (simp add: assms(3) uint_word_of_int)
  then have u: "uint (c AND 0x7f) = x mod 128"
    by (simp only: uint_ucast_and7)
  show ?thesis
  proof (cases "x < 0")
    case True
    with assms(1) have m: "x mod 128 = x + 128" by presburger
    have "\<forall>k\<in>set [- 32..- 1]. word_of_int (k + 128) OR (- 0x20 :: u32) = word_of_int k"
      by code_simp
    with True assms(1) have "word_of_int (x + 128) OR (- 0x20 :: u32) = word_of_int x" by simp
    with m u assms show ?thesis by (simp add: sign_test)
  next
    case False
    with assms(2) have "x mod 128 = x" by simp
    with u assms show ?thesis by (simp add: sign_test)
  qed
qed

lemma parse_int_loop_more [simp]:
  "c AND 0x80 \<noteq> 0 \<Longrightarrow> p < length buf \<Longrightarrow> parse_int_loop buf c v p =
     parse_int_loop buf (buf ! p) (push_bit 7 v OR (ucast (buf ! p) AND 0x7f)) (Suc p)"
  by (subst parse_int_loop.simps) simp

lemma parse_int_loop_end [simp]:
  "c AND 0x80 = 0 \<Longrightarrow> parse_int_loop buf c v p = Some (v, p)"
  by (subst parse_int_loop.simps) simp

lemma append_digit:
  "word_of_int (k div 2 ^ (n + 7) * 128 + k div 2 ^ n mod 128) = (word_of_int (k div 2 ^ n) :: u32)"
proof -
  have "k div 2 ^ (n + 7) = k div 2 ^ n div 128"
    by (simp add: power_add zdiv_zmult2_eq)
  then show ?thesis by simp
qed

section \<open>Round trips\<close>

text \<open>The conditions under which \<open>encode_int\<close> stops at a given number of bytes.\<close>

lemma div_window:
  fixes x k :: int
  assumes "0 < k"
  shows "- (32 * k) \<le> x \<Longrightarrow> - 32 \<le> x div k" and "x < 96 * k \<Longrightarrow> x div k < 96"
proof -
  assume "- (32 * k) \<le> x"
  then have "(- 32) * k div k \<le> x div k" using assms by (intro zdiv_mono1) simp_all
  moreover have "(- 32) * k div k = - 32" using assms by (intro nonzero_mult_div_cancel_right) simp
  ultimately show "- 32 \<le> x div k" by simp
next
  assume x: "x < 96 * k"
  show "x div k < 96"
  proof (rule ccontr)
    assume "\<not> x div k < 96"
    then have "96 * k \<le> x div k * k" using assms by (intro mult_right_mono) auto
    also have "\<dots> \<le> x" using assms by (simp add: minus_mod_eq_div_mult [symmetric])
    finally show False using x by simp
  qed
qed

lemma encode_int_cases:
  obtains
    (one) "encode_int v = [ucast (v AND 0x7f)]" "- 32 \<le> sint v" "sint v < 96"
  | (two) "encode_int v = [ucast ((drop_bit 7 v AND 0x7f) OR 0x80), ucast (v AND 0x7f)]"
      "- 32 \<le> sint v div 2 ^ 7" "sint v div 2 ^ 7 < 96"
  | (three) "encode_int v = [ucast ((drop_bit 14 v AND 0x7f) OR 0x80),
        ucast ((drop_bit 7 v AND 0x7f) OR 0x80), ucast (v AND 0x7f)]"
      "- 32 \<le> sint v div 2 ^ 14" "sint v div 2 ^ 14 < 96"
  | (four) "encode_int v = [ucast ((drop_bit 21 v AND 0x7f) OR 0x80),
        ucast ((drop_bit 14 v AND 0x7f) OR 0x80),
        ucast ((drop_bit 7 v AND 0x7f) OR 0x80), ucast (v AND 0x7f)]"
      "- 32 \<le> sint v div 2 ^ 21" "sint v div 2 ^ 21 < 96"
  | (five) "encode_int v = [ucast (drop_bit 28 v OR 0x80),
        ucast ((drop_bit 21 v AND 0x7f) OR 0x80), ucast ((drop_bit 14 v AND 0x7f) OR 0x80),
        ucast ((drop_bit 7 v AND 0x7f) OR 0x80), ucast (v AND 0x7f)]"
proof -
  let ?f = "\<lambda>k. sint v < 3 * 2 ^ k \<and> sint v \<ge> - (2 ^ k)"
  note e = encode_int_def Let_def
  consider "?f 5" | "\<not> ?f 5" "?f 12" | "\<not> ?f 5" "\<not> ?f 12" "?f 19"
    | "\<not> ?f 5" "\<not> ?f 12" "\<not> ?f 19" "?f 26"
    | "\<not> ?f 5" "\<not> ?f 12" "\<not> ?f 19" "\<not> ?f 26" by blast
  then show thesis
  proof cases
    case 1 then show ?thesis by (intro one) (simp_all add: e)
  next
    case 2
    then have "encode_int v = [ucast ((drop_bit 7 v AND 0x7f) OR 0x80), ucast (v AND 0x7f)]"
      by (simp add: e)
    with 2(2) show ?thesis by (intro two) (simp_all add: div_window)
  next
    case 3
    then have "encode_int v = [ucast ((drop_bit 14 v AND 0x7f) OR 0x80),
        ucast ((drop_bit 7 v AND 0x7f) OR 0x80), ucast (v AND 0x7f)]"
      by (simp add: e)
    with 3(3) show ?thesis by (intro three) (simp_all add: div_window)
  next
    case 4
    then have "encode_int v = [ucast ((drop_bit 21 v AND 0x7f) OR 0x80),
        ucast ((drop_bit 14 v AND 0x7f) OR 0x80),
        ucast ((drop_bit 7 v AND 0x7f) OR 0x80), ucast (v AND 0x7f)]"
      by (simp add: e)
    with 4(4) show ?thesis by (intro four) (simp_all add: div_window)
  next
    case 5 then show ?thesis by (intro five) (simp add: e)
  qed
qed

lemma encode_int_length: "1 \<le> length (encode_int v) \<and> length (encode_int v) \<le> 5"
  by (cases v rule: encode_int_cases) simp_all

text \<open>The digits of \<open>v\<close>, seen from any integer that represents it.\<close>

lemma low_digit: "v = (word_of_int k :: u32) \<Longrightarrow> v AND 0x7f = word_of_int (k mod 128)"
  using digit [of v k 0] by simp

lemma top_byte:
  "(ucast (ucast (drop_bit 28 (v :: u32) OR 0x80) :: u8) AND 0x7f :: u32) = drop_bit 28 v"
  "(ucast (drop_bit 28 (v :: u32) OR 0x80) :: u8) AND 0x80 \<noteq> 0"
  "(ucast (drop_bit 28 (v :: u32) OR 0x80) :: u8) AND 0x60 \<noteq> 0x60"
proof -
  have b: "\<not> bit v (28 + n)" if "4 \<le> n" for n
    using that bit_imp_le_length [of v "28 + n"] by auto
  show "(ucast (ucast (drop_bit 28 (v :: u32) OR 0x80) :: u8) AND 0x7f :: u32) = drop_bit 28 v"
    unfolding mask7
    by (rule bit_word_eqI) (use b in \<open>force simp: bit_simps bit_0x80 not_le [symmetric]\<close>)
  have "bit ((ucast (drop_bit 28 v OR 0x80) :: u8) AND 0x80) 7"
    by (auto simp: bit_simps bit_0x80)
  then show "(ucast (drop_bit 28 v OR 0x80) :: u8) AND 0x80 \<noteq> 0" by auto
  have "\<not> bit ((ucast (drop_bit 28 v OR 0x80) :: u8) AND 0x60) 5"
    using b [of 5] by (auto simp: bit_simps bit_0x80)
  moreover have "bit (0x60 :: u8) 5" by simp
  ultimately show "(ucast (drop_bit 28 v OR 0x80) :: u8) AND 0x60 \<noteq> 0x60" by metis
qed

lemma parse_int_encode:
  "parse_int (xs @ encode_int v @ ys) (length xs) = Some (v, length xs + length (encode_int v))"
proof -
  define k where "k = sint v"
  have v: "word_of_int k = v" by (simp add: k_def)
  have step: "push_bit 7 (word_of_int (k div 2 ^ (n + 7)) :: u32) OR word_of_int (k div 2 ^ n mod 128)
      = word_of_int (k div 2 ^ n)" for n
    by (simp add: shift_in append_digit del: of_int_add of_int_mult)
  note d = low_digit [OF v [symmetric]] digit [OF v [symmetric], of 7, simplified]
    digit [OF v [symmetric], of 14, simplified] digit [OF v [symmetric], of 21, simplified]
  have steps: "push_bit 7 (word_of_int (k div 128)) OR (v AND 0x7f) = v"
    "push_bit 7 (word_of_int (k div 16384)) OR (drop_bit 7 v AND 0x7f) = word_of_int (k div 128)"
    "push_bit 7 (word_of_int (k div 2097152)) OR (drop_bit 14 v AND 0x7f) = word_of_int (k div 16384)"
    using step [of 0] step [of 7] step [of 14] by (simp_all add: d v)
  note run = parse_int_def Let_def nth_append nth_Cons'
  show ?thesis
  proof (cases v rule: encode_int_cases)
    case one
    have "(if (ucast (v AND 0x7f) :: u8) AND 0x60 = 0x60
           then (ucast (ucast (v AND 0x7f) :: u8) AND 0x7f :: u32) OR (- 0x20)
           else ucast (ucast (v AND 0x7f) :: u8) AND 0x7f) = word_of_int k"
      by (rule first_digit [OF _ _ trans [OF digit_byte(3) d(1)]])
        (use one in \<open>simp_all add: k_def\<close>)
    with one show ?thesis by (simp add: run v)
  next
    case two
    let ?c = "ucast ((drop_bit 7 v AND 0x7f) OR 0x80) :: u8"
    have "(if ?c AND 0x60 = 0x60 then (ucast ?c AND 0x7f :: u32) OR (- 0x20)
           else ucast ?c AND 0x7f) = word_of_int (k div 128)"
      by (rule first_digit [OF _ _ trans [OF digit_byte(1) d(2)]])
        (use two in \<open>simp_all add: k_def\<close>)
    with two show ?thesis by (simp add: run steps)
  next
    case three
    let ?c = "ucast ((drop_bit 14 v AND 0x7f) OR 0x80) :: u8"
    have "(if ?c AND 0x60 = 0x60 then (ucast ?c AND 0x7f :: u32) OR (- 0x20)
           else ucast ?c AND 0x7f) = word_of_int (k div 16384)"
      by (rule first_digit [OF _ _ trans [OF digit_byte(1) d(3)]])
        (use three in \<open>simp_all add: k_def\<close>)
    with three show ?thesis by (simp add: run steps)
  next
    case four
    let ?c = "ucast ((drop_bit 21 v AND 0x7f) OR 0x80) :: u8"
    have "(if ?c AND 0x60 = 0x60 then (ucast ?c AND 0x7f :: u32) OR (- 0x20)
           else ucast ?c AND 0x7f) = word_of_int (k div 2097152)"
      by (rule first_digit [OF _ _ trans [OF digit_byte(1) d(4)]])
        (use four in \<open>simp_all add: k_def\<close>)
    with four show ?thesis by (simp add: run steps)
  next
    case five
    have "push_bit 7 (drop_bit 28 v) OR (drop_bit 21 v AND 0x7f) = drop_bit 21 v"
      "push_bit 7 (drop_bit 21 v) OR (drop_bit 14 v AND 0x7f) = drop_bit 14 v"
      "push_bit 7 (drop_bit 14 v) OR (drop_bit 7 v AND 0x7f) = drop_bit 7 v"
      "push_bit 7 (drop_bit 7 v) OR (v AND 0x7f) = v"
      unfolding mask7 by (auto intro!: bit_word_eqI simp: bit_simps)
    with five show ?thesis by (simp add: run top_byte)
  qed
qed

lemma msgid_bytes:
  assumes "m < (0x4000 :: u32)"
  shows "push_bit 7 ((ucast (ucast (drop_bit 7 m OR 0x80) :: u8) :: u32) AND 0x7f)
      OR ucast (ucast (m AND 0x7f) :: u8) = m"
    and "(ucast (ucast (drop_bit 7 m OR 0x80) :: u8) :: u32) AND 0x80 \<noteq> 0"
proof -
  have b: "\<not> bit m n" if "14 \<le> n" for n
    using small_word_bits [of m 14 n] that assms by (simp add: word_less_nat_alt)
  show "push_bit 7 ((ucast (ucast (drop_bit 7 m OR 0x80) :: u8) :: u32) AND 0x7f)
      OR ucast (ucast (m AND 0x7f) :: u8) = m"
    unfolding mask7
    by (rule bit_word_eqI) (use b in \<open>force simp: bit_simps bit_0x80 not_le [symmetric]\<close>)
  have "bit ((ucast (ucast (drop_bit 7 m OR 0x80) :: u8) :: u32) AND 0x80) 7"
    by (auto simp: bit_simps bit_0x80)
  then show "(ucast (ucast (drop_bit 7 m OR 0x80) :: u8) :: u32) AND 0x80 \<noteq> 0" by auto
qed

lemma parse_msgid_encode:
  assumes "m < 0x4000"
  shows "command_parse_msgid (xs @ encode_msgid m @ ys) (length xs)
    = Some (m, length xs + length (encode_msgid m))"
proof (cases "m \<ge> 0x80")
  case True
  then show ?thesis
    by (simp add: command_parse_msgid_def encode_msgid_def Let_def nth_append
        msgid_bytes [OF assms, simplified])
next
  case False
  then have b: "\<not> bit m n" if "7 \<le> n" for n
    using small_word_bits [of m 7 n] that by (simp add: word_le_nat_alt)
  have "(ucast (ucast (m AND 0x7f) :: u8) :: u32) = m" "m AND 0x80 = 0"
    unfolding mask7
    by (rule bit_word_eqI, use b in \<open>force simp: bit_simps bit_0x80 not_le [symmetric]\<close>)+
  with False show ?thesis
    by (simp add: command_parse_msgid_def encode_msgid_def Let_def nth_append)
qed

section \<open>Memory safety of the parsers\<close>

lemma parse_int_loop_bounds:
  "parse_int_loop buf c v p = Some (w, q) \<Longrightarrow> p \<le> q \<and> (p \<le> length buf \<longrightarrow> q \<le> length buf)"
proof (induction buf c v p rule: parse_int_loop.induct)
  case (1 buf c v p)
  show ?case
  proof (cases "c AND 0x80 \<noteq> 0 \<and> p < length buf")
    case True
    with 1 show ?thesis by (auto simp: parse_int_loop.simps [of buf c v p])
  next
    case False
    with "1.prems" show ?thesis by (auto simp: parse_int_loop.simps [of buf c v p] split: if_splits)
  qed
qed

lemma parse_int_bounds: "parse_int buf p = Some (v, q) \<Longrightarrow> p < q \<and> q \<le> length buf"
  by (auto simp: parse_int_def Let_def split: if_splits dest: parse_int_loop_bounds)

text \<open>
  A byte without the continuation bit stops the parser: it reads no further than the first
  such byte at or behind its start.
\<close>

lemma parse_int_loop_stops:
  "p \<le> e \<Longrightarrow> e < length buf \<Longrightarrow> buf ! e AND 0x80 = 0 \<Longrightarrow>
   \<exists>w q. parse_int_loop buf c v p = Some (w, q) \<and> q \<le> Suc e"
proof (induction buf c v p rule: parse_int_loop.induct)
  case (1 buf c v p)
  show ?case
  proof (cases "c AND 0x80 = 0")
    case True
    with "1.prems" show ?thesis by auto
  next
    case False
    show ?thesis
    proof (cases "p = e")
      case True
      with False "1.prems" show ?thesis by simp
    next
      case ne: False
      with "1.prems" have "Suc p \<le> e" "p < length buf" by auto
      with False "1.IH" "1.prems" show ?thesis by simp
    qed
  qed
qed

lemma parse_int_stops:
  assumes "p \<le> e" "e < length buf" "buf ! e AND 0x80 = 0"
  obtains v q where "parse_int buf p = Some (v, q)" "p < q" "q \<le> Suc e"
proof -
  have pl: "p < length buf" using assms by simp
  have "\<exists>v q. parse_int buf p = Some (v, q) \<and> q \<le> Suc e"
  proof (cases "p = e")
    case True
    with assms pl show ?thesis by (simp add: parse_int_def Let_def)
  next
    case False
    with assms have "Suc p \<le> e" by simp
    from parse_int_loop_stops [OF this assms(2,3)] pl show ?thesis
      by (simp add: parse_int_def Let_def)
  qed
  with that show thesis using parse_int_bounds by blast
qed

lemma parse_msgid_stops:
  assumes "p + 2 \<le> length buf"
  obtains v q where "command_parse_msgid buf p = Some (v, q)" "p < q" "q \<le> p + 2"
proof -
  have "\<exists>v q. command_parse_msgid buf p = Some (v, q) \<and> p < q \<and> q \<le> p + 2"
    using assms by (simp add: command_parse_msgid_def Let_def)
  with that show thesis by blast
qed

end
