(* ===== verification/Crc.thy ===== *)
theory Crc
  imports Prelude
begin

text \<open>
  The checksum of a message block: \<open>crc16_ccitt\<close> of \<open>src/src/generic/crc16_ccitt.c\<close>, its
  equality with the bit-serial CRC for the reflected polynomial 0x8408, and the errors it
  detects.
\<close>

section \<open>The table-free algorithm\<close>

text \<open>One round of the loop over the buffer.\<close>

definition crc16_round :: "u16 \<Rightarrow> u8 \<Rightarrow> u16" where
  "crc16_round crc byte =
     (let data = byte XOR ucast (crc AND 0xff);
          data = data XOR push_bit 4 data
      in (push_bit 8 (ucast data) OR drop_bit 8 crc) XOR ucast (drop_bit 4 data)
         XOR push_bit 3 (ucast data))"

definition crc16_ccitt :: "u8 list \<Rightarrow> nat \<Rightarrow> u16" where
  "crc16_ccitt buf len = foldl crc16_round 0xffff (take len buf)"

section \<open>The bit-serial reference\<close>

definition crc_bit :: "u16 \<Rightarrow> u16" where
  "crc_bit c = (if bit c 0 then drop_bit 1 c XOR 0x8408 else drop_bit 1 c)"

definition crc_byte :: "u16 \<Rightarrow> u8 \<Rightarrow> u16" where
  "crc_byte c d = (crc_bit ^^ 8) (c XOR ucast d)"

definition crc_reference :: "u8 list \<Rightarrow> u16" where
  "crc_reference bs = foldl crc_byte 0xffff bs"

section \<open>A round is a table lookup and a shift\<close>

text \<open>What a round adds for the byte \<open>x = byte XOR (crc & 0xff)\<close>.\<close>

definition crc_table :: "u8 \<Rightarrow> u16" where
  "crc_table x = (let data = x XOR push_bit 4 x
     in push_bit 8 (ucast data) XOR ucast (drop_bit 4 data) XOR push_bit 3 (ucast data))"

lemma mask_ff: "(0xff :: u16) = mask 8"
  by (simp add: mask_eq_exp_minus_1)

lemma crc16_round_table:
  "crc16_round crc byte = crc_table (byte XOR ucast crc) XOR drop_bit 8 crc"
proof -
  have l: "(ucast (crc AND 0xff) :: u8) = ucast crc"
    unfolding mask_ff by (rule bit_word_eqI) (auto simp: bit_simps)
  have o: "push_bit 8 (ucast (d :: u8)) OR drop_bit 8 crc = push_bit 8 (ucast d) XOR drop_bit 8 crc"
    for d
    by (rule bit_word_eqI) (auto simp: bit_simps dest: bit_imp_le_length)
  show ?thesis
    by (simp add: crc16_round_def crc_table_def Let_def l o xor.assoc xor.commute xor.left_commute)
qed

lemma crc_bit_xor: "crc_bit (a XOR b) = crc_bit a XOR crc_bit b"
  by (auto simp: crc_bit_def bit_simps drop_bit_xor xor.assoc xor.commute xor.left_commute)

lemma crc_bits_xor: "(crc_bit ^^ n) (a XOR b) = (crc_bit ^^ n) a XOR (crc_bit ^^ n) b"
  by (induction n) (simp_all add: crc_bit_xor)

text \<open>Eight rounds shift the upper byte down unchanged.\<close>

lemma crc_bits_upper:
  assumes "\<And>k. k < n \<Longrightarrow> \<not> bit h k"
  shows "(crc_bit ^^ n) h = drop_bit n h"
  using assms
proof (induction n)
  case (Suc n)
  then have IH: "(crc_bit ^^ n) h = drop_bit n h" and "\<not> bit h n" by auto
  then have "crc_bit (drop_bit n h) = drop_bit (Suc n) h" by (simp add: crc_bit_def bit_simps)
  with IH show ?case by simp
qed simp

lemma crc_table_xor: "crc_table (x XOR y) = crc_table x XOR crc_table y"
  by (simp add: crc_table_def Let_def push_bit_xor drop_bit_xor unsigned_xor_eq
      xor.assoc xor.commute xor.left_commute)

lemma crc_table_bits: "crc_table x = (crc_bit ^^ 8) (ucast x)"
proof (induction x rule: byte_xor_induct)
  case (add x y)
  then show ?case by (simp add: crc_table_xor unsigned_xor_eq crc_bits_xor)
next
  case bits
  have eight: "(crc_bit ^^ 8) c = crc_bit (crc_bit (crc_bit (crc_bit (crc_bit (crc_bit (crc_bit
      (crc_bit c)))))))" for c
    by (simp add: numeral_eq_Suc)
  have "[0..7 :: int] = [0, 1, 2, 3, 4, 5, 6, 7]" by (simp add: upto_rec1)
  then show ?case
    by (simp only: list.set ball_simps eight) (simp add: crc_bit_def crc_table_def)
next
  case zero
  then show ?case by (simp add: crc_table_def numeral_eq_Suc crc_bit_def)
qed

lemma crc16_round_reference: "crc16_round crc byte = crc_byte crc byte"
proof -
  let ?lo = "take_bit 8 crc" and ?hi = "crc XOR take_bit 8 crc"
  have split: "crc XOR ucast byte = ucast (byte XOR ucast crc) XOR ?hi"
    by (rule bit_word_eqI) (auto simp: bit_simps dest: bit_imp_le_length)
  have hi: "(crc_bit ^^ 8) ?hi = drop_bit 8 crc"
  proof -
    have "(crc_bit ^^ 8) ?hi = drop_bit 8 ?hi"
      by (rule crc_bits_upper) (simp add: bit_simps)
    also have "\<dots> = drop_bit 8 crc"
      by (rule bit_word_eqI) (auto simp: bit_simps)
    finally show ?thesis .
  qed
  have "(crc_bit ^^ 8) (crc XOR ucast byte)
      = (crc_bit ^^ 8) (ucast (byte XOR ucast crc)) XOR (crc_bit ^^ 8) ?hi"
    unfolding split by (rule crc_bits_xor)
  then show ?thesis
    by (simp only: crc16_round_table crc_byte_def crc_table_bits hi)
qed

lemma crc16_ccitt_reference: "crc16_ccitt buf len = crc_reference (take len buf)"
  by (simp add: crc16_ccitt_def crc_reference_def crc16_round_reference [abs_def])

section \<open>Errors the checksum detects\<close>

text \<open>The upper byte of a round determines the byte that went in.\<close>

definition crc_table_inv :: "u8 \<Rightarrow> u8" where
  "crc_table_inv z = (let y = z XOR drop_bit 5 z in y XOR push_bit 4 y)"

lemma crc_table_upper: "crc_table_inv (ucast (drop_bit 8 (crc_table x))) = x"
proof (induction x rule: byte_xor_induct)
  case (add x y)
  have "crc_table_inv (u XOR v) = crc_table_inv u XOR crc_table_inv v" for u v
    by (simp add: crc_table_inv_def Let_def push_bit_xor drop_bit_xor
        xor.assoc xor.commute xor.left_commute)
  moreover have "(ucast (u XOR v) :: u8) = ucast u XOR ucast v" for u v :: u16
    by (rule bit_word_eqI) (auto simp: bit_simps)
  ultimately show ?case using add by (simp add: crc_table_xor drop_bit_xor)
qed code_simp+

lemma crc16_round_upper:
  "(ucast (drop_bit 8 (crc16_round c b)) :: u8) = ucast (drop_bit 8 (crc_table (b XOR ucast c)))"
  unfolding crc16_round_table
  by (rule bit_word_eqI) (auto simp: bit_simps dest: bit_imp_le_length)

lemma crc16_round_inject:
  assumes "crc16_round c a = crc16_round d b"
  shows "a XOR ucast c = b XOR ucast d" and "drop_bit 8 c = drop_bit 8 d"
proof -
  have "(ucast (drop_bit 8 (crc_table (a XOR ucast c))) :: u8)
      = ucast (drop_bit 8 (crc_table (b XOR ucast d)))"
    using assms by (simp flip: crc16_round_upper)
  then show x: "a XOR ucast c = b XOR ucast d"
    using crc_table_upper by metis
  from assms x show "drop_bit 8 c = drop_bit 8 d"
    by (simp add: crc16_round_table word_xor_cancel)
qed

lemma crc16_round_inject_state:
  assumes "crc16_round c a = crc16_round d a"
  shows "c = d"
proof -
  have lo: "(ucast c :: u8) = ucast d"
    using crc16_round_inject(1) [OF assms] by (simp add: word_xor_cancel)
  have hi: "drop_bit 8 c = drop_bit 8 d" by (rule crc16_round_inject(2) [OF assms])
  show ?thesis
  proof (rule bit_word_eqI)
    fix n assume "n < LENGTH(16)"
    show "bit c n = bit d n"
    proof (cases "n < 8")
      case True
      then have "bit c n = bit (ucast c :: u8) n" "bit d n = bit (ucast d :: u8) n"
        by (simp_all add: bit_simps)
      with lo show ?thesis by simp
    next
      case False
      then have "bit c n = bit (drop_bit 8 c) (n - 8)" "bit d n = bit (drop_bit 8 d) (n - 8)"
        by (simp_all add: bit_simps)
      with hi show ?thesis by simp
    qed
  qed
qed

lemma crc_fold_inject: "foldl crc16_round c bs = foldl crc16_round d bs \<Longrightarrow> c = d"
  by (induction bs arbitrary: c d) (auto dest: crc16_round_inject_state)

lemma crc_two_bytes:
  assumes "foldl crc16_round c (xs @ [a1, a2] @ ys) = foldl crc16_round c (xs @ [b1, b2] @ ys)"
  shows "a1 = b1 \<and> a2 = b2"
proof -
  define d where "d = foldl crc16_round c xs"
  have e: "crc16_round (crc16_round d a1) a2 = crc16_round (crc16_round d b1) b2"
    using assms by (simp add: d_def crc_fold_inject)
  have "drop_bit 8 (crc16_round d a1) = drop_bit 8 (crc16_round d b1)"
    by (rule crc16_round_inject(2) [OF e])
  then have "a1 XOR ucast d = b1 XOR ucast d"
    by (metis crc16_round_upper crc_table_upper)
  then have a1: "a1 = b1" by (simp add: word_xor_cancel)
  with crc16_round_inject(1) [OF e] have "a2 = b2"
    by (simp add: word_xor_cancel)
  with a1 show ?thesis by simp
qed

end
