(* ===== verification/Board.thy ===== *)
theory Board
  imports Prelude
begin

text \<open>
  What the portable firmware sees of the board: the free-running clock and its wrap-around
  comparison (\<open>src/src/generic/armcm_timer.c\<close>), the GPIO pins (\<open>src/src/stm32/gpio.c\<close>) and
  the messages handed to \<open>command_sendf\<close>.

  Inputs of the hardware are read from streams fixed in the state: the \<open>n\<close>-th reading of the
  clock is \<open>clk s n\<close>, the \<open>n\<close>-th reading of input pins sees the levels \<open>gpio_idr s n\<close>.
  Theorems hold for every such stream, so for every behaviour of the outside world.
\<close>

section \<open>State\<close>

text \<open>An argument of \<open>sendf\<close>: an integer, a byte buffer, or a C string.\<close>

datatype arg = U u32 | Buf "u8 list" | Str string

type_synonym outmsg = "string \<times> arg list"

datatype pin_mode = GPIO_UNSET | GPIO_OUTPUT | GPIO_INPUT int

record hw =
  clock_mhz :: u32                       \<comment> \<open>CONFIG_CLOCK_FREQ / 1000000\<close>
  clk :: "nat \<Rightarrow> u32"                     \<comment> \<open>successive values of DWT->CYCCNT\<close>
  clk_n :: nat
  kicks :: nat                           \<comment> \<open>calls of timer_kick\<close>
  gpio_port :: "u32 \<Rightarrow> bool"              \<comment> \<open>the entry of digital_regs is present\<close>
  gpio_mode :: "u32 \<Rightarrow> pin_mode"
  gpio_odr :: "u32 \<Rightarrow> bool"               \<comment> \<open>output latch of a pin\<close>
  gpio_idr :: "nat \<Rightarrow> u32 \<Rightarrow> bool"        \<comment> \<open>successive input levels\<close>
  idr_n :: nat
  gpio_log :: "(u32 \<times> bool) list"        \<comment> \<open>writes to output pins, oldest first\<close>
  in_sendf :: bool
  sent :: "outmsg list"                  \<comment> \<open>messages handed to the console, oldest first\<close>

text \<open>A board at rest, on which the examples run: the clock stands at 1000 and all inputs are low.\<close>

definition board_at_rest :: hw where
  "board_at_rest = \<lparr>clock_mhz = 100, clk = (\<lambda>_. 1000), clk_n = 0, kicks = 0, gpio_port = (\<lambda>_. True),
     gpio_mode = (\<lambda>_. GPIO_UNSET), gpio_odr = (\<lambda>_. False), gpio_idr = (\<lambda>_ _. False), idr_n = 0,
     gpio_log = [], in_sendf = False, sent = []\<rparr>"

section \<open>Messages to the host\<close>

text \<open>\<open>command_sendf\<close>: a call made while another is in progress is dropped.\<close>

definition sendf :: "string \<Rightarrow> arg list \<Rightarrow> ('s hw_scheme, unit) cmd" where
  "sendf fmt args s = (Inr (), s\<lparr>sent := if in_sendf s then sent s else sent s @ [(fmt, args)]\<rparr>)"

text \<open>The macro \<open>shutdown(msg)\<close>: report, then leave through \<open>longjmp\<close>.\<close>

definition shutdown :: "string \<Rightarrow> string \<Rightarrow> ('s hw_scheme, 'a) cmd" where
  "shutdown func msg = mseq (sendf ''%s: shutdown %s'' [Str func, Str msg]) (fail (Shutdown msg))"

section \<open>Clock\<close>

definition timer_from_us :: "'s hw_scheme \<Rightarrow> u32 \<Rightarrow> u32" where
  "timer_from_us s us = us * clock_mhz s"

definition timer_is_before :: "u32 \<Rightarrow> u32 \<Rightarrow> bool" where
  "timer_is_before time1 time2 \<longleftrightarrow> sint (time1 - time2) < 0"

definition timer_read_time :: "('s hw_scheme, u32) cmd" where
  "timer_read_time s = (Inr (clk s (clk_n s)), s\<lparr>clk_n := Suc (clk_n s)\<rparr>)"

definition timer_kick :: "('s hw_scheme, unit) cmd" where
  "timer_kick = modify (\<lambda>s. s\<lparr>kicks := Suc (kicks s)\<rparr>)"

section \<open>GPIO\<close>

text \<open>A pin handle (\<open>struct gpio_out\<close>, \<open>struct gpio_in\<close>) is the number of the pin.\<close>

definition gpio_valid :: "'s hw_scheme \<Rightarrow> u32 \<Rightarrow> bool" where
  "gpio_valid s pin = gpio_port s (pin div 16)"

definition gpio_out_write :: "u32 \<Rightarrow> u32 \<Rightarrow> ('s hw_scheme, unit) cmd" where
  "gpio_out_write g val = modify (\<lambda>s. s\<lparr>gpio_odr := (gpio_odr s)(g := val \<noteq> 0),
     gpio_log := gpio_log s @ [(g, val \<noteq> 0)]\<rparr>)"

definition gpio_out_reset :: "u32 \<Rightarrow> u32 \<Rightarrow> ('s hw_scheme, unit) cmd" where
  "gpio_out_reset g val = mseq (gpio_out_write g val)
     (modify (\<lambda>s. s\<lparr>gpio_mode := (gpio_mode s)(g := GPIO_OUTPUT)\<rparr>))"

definition gpio_out_setup :: "u32 \<Rightarrow> u32 \<Rightarrow> ('s hw_scheme, u32) cmd" where
  "gpio_out_setup pin val = mbind (gets (\<lambda>s. gpio_valid s pin)) (\<lambda>ok.
     if \<not> ok then shutdown ''gpio_out_setup'' ''Not an output pin''
     else mseq (gpio_out_reset pin val) (ret pin))"

definition gpio_out_toggle_noirq :: "u32 \<Rightarrow> ('s hw_scheme, unit) cmd" where
  "gpio_out_toggle_noirq g = modify (\<lambda>s. s\<lparr>gpio_odr := (gpio_odr s)(g := \<not> gpio_odr s g),
     gpio_log := gpio_log s @ [(g, \<not> gpio_odr s g)]\<rparr>)"

definition gpio_in_reset :: "u32 \<Rightarrow> int \<Rightarrow> ('s hw_scheme, unit) cmd" where
  "gpio_in_reset g pull_up = modify (\<lambda>s. s\<lparr>gpio_mode := (gpio_mode s)(g := GPIO_INPUT pull_up)\<rparr>)"

definition gpio_in_setup :: "u32 \<Rightarrow> int \<Rightarrow> ('s hw_scheme, u32) cmd" where
  "gpio_in_setup pin pull_up = mbind (gets (\<lambda>s. gpio_valid s pin)) (\<lambda>ok.
     if \<not> ok then shutdown ''gpio_in_setup'' ''Not a valid input pin''
     else mseq (gpio_in_reset pin pull_up) (ret pin))"

definition gpio_in_read :: "u32 \<Rightarrow> ('s hw_scheme, bool) cmd" where
  "gpio_in_read g s = (Inr (gpio_idr s (idr_n s) g), s\<lparr>idr_n := Suc (idr_n s)\<rparr>)"

section \<open>Running the board operations\<close>

lemma sendf_run [simp]:
  "sendf fmt args s = (Inr (), s\<lparr>sent := if in_sendf s then sent s else sent s @ [(fmt, args)]\<rparr>)"
  by (simp add: sendf_def)

lemma shutdown_run:
  "shutdown func msg s = (Inl (Shutdown msg), snd (sendf ''%s: shutdown %s'' [Str func, Str msg] s))"
  by (simp add: shutdown_def run_simps)

lemma timer_read_time_run [simp]:
  "timer_read_time s = (Inr (clk s (clk_n s)), s\<lparr>clk_n := Suc (clk_n s)\<rparr>)"
  by (simp add: timer_read_time_def)

lemma gpio_in_read_run [simp]:
  "gpio_in_read g s = (Inr (gpio_idr s (idr_n s) g), s\<lparr>idr_n := Suc (idr_n s)\<rparr>)"
  by (simp add: gpio_in_read_def)

lemmas gpio_defs = gpio_out_write_def gpio_out_reset_def gpio_out_setup_def
  gpio_out_toggle_noirq_def gpio_in_reset_def gpio_in_setup_def timer_kick_def

text \<open>
  A property of the state that does not look at the board is kept by every board operation.
\<close>

definition board_blind :: "('s hw_scheme \<Rightarrow> bool) \<Rightarrow> bool" where
  "board_blind P \<longleftrightarrow> (\<forall>s v. P (s\<lparr>sent := v\<rparr>) = P s) \<and> (\<forall>s v. P (s\<lparr>clk_n := v\<rparr>) = P s)
     \<and> (\<forall>s v. P (s\<lparr>kicks := v\<rparr>) = P s) \<and> (\<forall>s v. P (s\<lparr>gpio_mode := v\<rparr>) = P s)
     \<and> (\<forall>s v. P (s\<lparr>gpio_odr := v\<rparr>) = P s) \<and> (\<forall>s v. P (s\<lparr>gpio_log := v\<rparr>) = P s)
     \<and> (\<forall>s v. P (s\<lparr>idr_n := v\<rparr>) = P s)"

lemma board_blind_sendf [preserves_intros]: "board_blind P \<Longrightarrow> preserves P (sendf fmt args)"
  by (simp add: preserves_def board_blind_def)

lemma board_blind_shutdown [preserves_intros]: "board_blind P \<Longrightarrow> preserves P (shutdown func msg)"
  by (simp add: shutdown_def preserves_intros)

lemma board_blind_clock [preserves_intros]:
  "board_blind P \<Longrightarrow> preserves P timer_read_time" "board_blind P \<Longrightarrow> preserves P timer_kick"
  by (simp_all add: preserves_def board_blind_def timer_kick_def)

lemma board_blind_gpio [preserves_intros]:
  assumes "board_blind P"
  shows "preserves P (gpio_out_write g v)" "preserves P (gpio_out_reset g v)"
    "preserves P (gpio_out_setup g v)" "preserves P (gpio_out_toggle_noirq g)"
    "preserves P (gpio_in_reset g u)" "preserves P (gpio_in_setup g u)" "preserves P (gpio_in_read g)"
proof -
  have upd: "P (s\<lparr>gpio_odr := a, gpio_log := b\<rparr>) = P s" for s a b
    using assms by (simp add: board_blind_def)
  show w: "preserves P (gpio_out_write g v)"
    by (rule preservesI) (simp add: gpio_out_write_def upd)
  show r: "preserves P (gpio_out_reset g v)"
    unfolding gpio_out_reset_def
    by (intro preserves_intros w) (use assms in \<open>simp add: board_blind_def\<close>)
  show "preserves P (gpio_out_setup g v)"
    unfolding gpio_out_setup_def by (intro preserves_intros r assms)
  show "preserves P (gpio_out_toggle_noirq g)"
    by (rule preservesI) (simp add: gpio_out_toggle_noirq_def upd)
  show i: "preserves P (gpio_in_reset g u)"
    unfolding gpio_in_reset_def
    by (intro preserves_intros) (use assms in \<open>simp add: board_blind_def\<close>)
  show "preserves P (gpio_in_setup g u)"
    unfolding gpio_in_setup_def by (intro preserves_intros i assms)
  show "preserves P (gpio_in_read g)"
    using assms by (simp add: preserves_def board_blind_def)
qed

section \<open>Comparing times across the wrap of the clock\<close>

lemma timer_is_before_irrefl [simp]: "\<not> timer_is_before t t"
  by (simp add: timer_is_before_def)

lemma sint_neg_iff: "sint (x :: u32) < 0 \<longleftrightarrow> 2 ^ 31 \<le> unat x"
proof -
  have "sint x < 0 \<longleftrightarrow> bit x 31" by (simp add: sint_uint bit_simps)
  also have "\<dots> \<longleftrightarrow> bit (unat x) 31" by (simp add: bit_unsigned_iff)
  also have "\<dots> \<longleftrightarrow> odd (unat x div 2 ^ 31)" by (rule bit_nat_def)
  also have "\<dots> \<longleftrightarrow> 2 ^ 31 \<le> unat x"
  proof -
    have "unat x < 2 ^ 32" using unat_bounds(3) [of x] by simp
    then have "unat x div 2 ^ 31 = (if 2 ^ 31 \<le> unat x then 1 else 0)"
      by (auto intro: div_nat_eqI)
    then show ?thesis by simp
  qed
  finally show ?thesis .
qed

lemma sint_small:
  assumes "unat (x :: u32) < 2 ^ 31"
  shows "sint x = int (unat x)"
proof -
  have u: "int (unat x) = uint x" by (rule uint_nat [symmetric])
  with assms have "uint x < 2 ^ 31" by (metis of_nat_less_numeral_power_cancel_iff)
  moreover have "- (2 ^ 31) \<le> uint x" by (rule order_trans [of _ 0]) simp_all
  ultimately have "signed_take_bit 31 (uint x) = uint x"
    by (intro signed_take_bit_int_eq_self)
  then show ?thesis unfolding u by (simp add: sint_uint)
qed

lemma timer_is_before_unat: "timer_is_before x y \<longleftrightarrow> 2 ^ 31 \<le> unat (x - y)"
  by (simp add: timer_is_before_def sint_neg_iff)

text \<open>
  Half a period later the comparison is inverted: a time is before exactly one of two times
  that are half a period apart.
\<close>

lemma timer_is_before_half:
  "timer_is_before w (p + 0x80000000) \<longleftrightarrow> \<not> timer_is_before w p"
proof -
  have "\<And>h :: u32. w - (p + h) = (w - p) + (- h)" by (simp add: algebra_simps)
  from this [of "0x80000000"] have "w - (p + 0x80000000) = (w - p) + 0x80000000"
    by (simp del: diff_add_eq add_uminus_conv_diff)
  moreover have "2 ^ 31 \<le> unat (x + 0x80000000) \<longleftrightarrow> \<not> 2 ^ 31 \<le> unat x" for x :: u32
    using unat_bounds(3) [of x] by (auto simp: unat_plus_if')
  ultimately show ?thesis unfolding timer_is_before_unat by metis
qed

text \<open>The distance of a time from a base; within half a period it orders the times.\<close>

definition since :: "u32 \<Rightarrow> u32 \<Rightarrow> nat" where
  "since b t = unat (t - b)"

definition in_window :: "u32 \<Rightarrow> u32 \<Rightarrow> bool" where
  "in_window b t \<longleftrightarrow> since b t < 2 ^ 31"

lemma timer_is_before_since:
  assumes "in_window b x" "in_window b y"
  shows "timer_is_before x y \<longleftrightarrow> since b x < since b y"
proof -
  have "x - y = (x - b) - (y - b)" by simp
  moreover have "2 ^ 31 \<le> unat (u - v) \<longleftrightarrow> unat u < unat v"
    if "unat u < 2 ^ 31" "unat v < 2 ^ 31" for u v :: u32
    using that by (auto simp: unat_sub_if_size word_size)
  ultimately show ?thesis
    using assms unfolding timer_is_before_unat since_def in_window_def by metis
qed

end
