(* ===== verification/Sched.thy ===== *)
theory Sched
  imports Board
begin

text \<open>
  The scheduler, \<open>src/src/sched.c\<close>: the linked list of timers with its periodic, sentinel and
  deleted timers, task wake-ups, and the shutdown state machine.

  A \<open>struct timer\<close> is a node of the store \<open>timers\<close>; a pointer to it names one of the static
  timers of the firmware or a timer embedded in an allocated object (the address of the
  object and which of its timers it is).  The function pointer of a timer is a value of
  \<open>timer_fn\<close>, one constructor per callback of the firmware; what a callback does is an
  argument of the dispatcher.  Every handler runs as one step, so the calls that disable and
  enable interrupts have no counterpart.
\<close>

section \<open>State\<close>

datatype tptr = Periodic_timer | Sentinel_timer | Deleted_timer | Wrap_timer | Boot_timer
  | Obj_timer nat nat

datatype timer_fn =
    Periodic_event | Sentinel_event | Deleted_event | Timer_wrap_event
  | Stepper_event_full
  | Trsync_report_event | Trsync_expire_event
  | Endstop_event | Endstop_oversample_event
  | Digital_toggle_event | Digital_load_event
  | Pwm_event | Pwm_end_event
  | Analog_in_event | Buttons_event | Counter_event
  | Tmcuart_send_event | Tmcuart_send_sync_event | Tmcuart_send_finish_event
  | Tmcuart_read_event | Tmcuart_read_sync_event
  | Watchdog_event | Thermocouple_event
  | Bootloader_main_event | Por_event | Por_oversample_event
  | Hx71x_event | Cs123x_event | Adxl345_event | Lis2dw_event | Ads1220_event

datatype sf = SF_DONE | SF_RESCHEDULE

datatype task_wake = Trsync_wake | Analog_wake | Buttons_wake | Counter_wake | Tmcuart_wake
  | Can_tx_wake | Can_rx_wake | Thermocouple_wake | Boot_com_wake | Boot_main_wake
  | Hx71x_wake | Cs123x_wake | Adxl345_wake | Lis2dw_wake | Ads1220_wake

record timer =
  t_next :: "tptr option"
  t_func :: "timer_fn option"            \<comment> \<open>NULL: the inlined stepper event\<close>
  t_wake :: u32

record sched = hw +
  timers :: "tptr \<Rightarrow> timer"
  timer_list :: tptr
  last_insert :: tptr
  tasks_status :: int
  shutdown_status :: u8
  shutdown_reason :: u8
  wakes :: "task_wake \<Rightarrow> bool"
  repeat_until :: u32

definition TS_IDLE :: int where "TS_IDLE = - 1"
definition TS_REQUESTED :: int where "TS_REQUESTED = 0"
definition TS_RUNNING :: int where "TS_RUNNING = 1"

text \<open>The static initialisers of the scheduler.\<close>

definition static_timers :: "tptr \<Rightarrow> timer" where
  "static_timers p = (case p of
     Periodic_timer \<Rightarrow> \<lparr>t_next = Some Sentinel_timer, t_func = Some Periodic_event, t_wake = 0\<rparr>
   | Sentinel_timer \<Rightarrow> \<lparr>t_next = None, t_func = Some Sentinel_event, t_wake = 0x80000000\<rparr>
   | Deleted_timer \<Rightarrow> \<lparr>t_next = None, t_func = Some Deleted_event, t_wake = 0\<rparr>
   | Wrap_timer \<Rightarrow> \<lparr>t_next = None, t_func = Some Timer_wrap_event, t_wake = 0xffffff\<rparr>
   | _ \<Rightarrow> \<lparr>t_next = None, t_func = None, t_wake = 0\<rparr>)"

definition sched_static :: sched where
  "sched_static = hw.extend board_at_rest \<lparr>timers = static_timers, timer_list = Periodic_timer,
     last_insert = Periodic_timer, tasks_status = 0, shutdown_status = 0, shutdown_reason = 0,
     wakes = (\<lambda>_. False), repeat_until = 0\<rparr>"

section \<open>Timers\<close>

definition set_next :: "tptr \<Rightarrow> tptr option \<Rightarrow> 's sched_scheme \<Rightarrow> 's sched_scheme" where
  "set_next p v s = s\<lparr>timers := (timers s)(p := (timers s p)\<lparr>t_next := v\<rparr>)\<rparr>"

definition set_wake :: "tptr \<Rightarrow> u32 \<Rightarrow> 's sched_scheme \<Rightarrow> 's sched_scheme" where
  "set_wake p v s = s\<lparr>timers := (timers s)(p := (timers s p)\<lparr>t_wake := v\<rparr>)\<rparr>"

definition set_func :: "tptr \<Rightarrow> timer_fn option \<Rightarrow> 's sched_scheme \<Rightarrow> 's sched_scheme" where
  "set_func p v s = s\<lparr>timers := (timers s)(p := (timers s p)\<lparr>t_func := v\<rparr>)\<rparr>"

abbreviation waketime :: "'s sched_scheme \<Rightarrow> tptr \<Rightarrow> u32" where
  "waketime s p \<equiv> t_wake (timers s p)"

abbreviation nextp :: "'s sched_scheme \<Rightarrow> tptr \<Rightarrow> tptr option" where
  "nextp s \<equiv> (\<lambda>p. t_next (timers s p))"

text \<open>Following a pointer: a null pointer is an undefined operation.\<close>

definition deref :: "'p option \<Rightarrow> ('s, 'p) cmd" where
  "deref p = (case p of None \<Rightarrow> fail (Fault ''null pointer'') | Some a \<Rightarrow> ret a)"

definition sched_wake_tasks :: "('s sched_scheme, unit) cmd" where
  "sched_wake_tasks = modify (\<lambda>s. s\<lparr>tasks_status := TS_REQUESTED\<rparr>)"

definition periodic_event :: "('s sched_scheme, sf) cmd" where
  "periodic_event = mseq sched_wake_tasks (mseq
     (modify (\<lambda>s. set_wake Periodic_timer (waketime s Periodic_timer + timer_from_us s 100000) s)) (mseq
     (modify (\<lambda>s. set_wake Sentinel_timer (waketime s Periodic_timer + 0x80000000) s))
     (ret SF_RESCHEDULE)))"

definition sentinel_event :: "('s sched_scheme, sf) cmd" where
  "sentinel_event = shutdown ''sentinel_event'' ''sentinel timer called''"

definition deleted_event :: "('s sched_scheme, sf) cmd" where
  "deleted_event = ret SF_DONE"

text \<open>
  The search loop of \<open>insert_timer\<close> over the store of timers.  The outer \<open>None\<close> is a loop
  that never ends, \<open>Some None\<close> a walk off the end of the list.
\<close>

partial_function (option) insert_search ::
  "(tptr \<Rightarrow> timer) \<Rightarrow> u32 \<Rightarrow> tptr \<Rightarrow> (tptr \<times> tptr) option option" where
  "insert_search T wt pos =
     (case t_next (T pos) of
        None \<Rightarrow> Some None
      | Some nx \<Rightarrow> if timer_is_before wt (t_wake (T nx)) then Some (Some (pos, nx))
                   else insert_search T wt nx)"

definition insert_timer :: "tptr \<Rightarrow> tptr \<Rightarrow> u32 \<Rightarrow> ('s sched_scheme, unit) cmd" where
  "insert_timer pos t wt s =
     (case insert_search (timers s) wt pos of
        None \<Rightarrow> (Inl Diverge, s)
      | Some None \<Rightarrow> (Inl (Fault ''insert_timer: end of timer list''), s)
      | Some (Some (prev, pos')) \<Rightarrow> (Inr (), set_next prev (Some t) (set_next t (Some pos') s)))"

definition sched_try_shutdown :: "string \<Rightarrow> string \<Rightarrow> ('s sched_scheme, unit) cmd" where
  "sched_try_shutdown func msg = mseq (sendf ''%s: try_shutdown %s'' [Str func, Str msg])
     (mbind (gets shutdown_status) (\<lambda>st. if st = 0 then fail (Shutdown msg) else ret ()))"

text \<open>
  \<open>sched_add_timer\<close>, with the two parts of its first branch named: the check that the time
  is not already past, and putting the timer in front of the list behind the placeholder.
\<close>

definition sched_check_close :: "string \<Rightarrow> u32 \<Rightarrow> ('s sched_scheme, unit) cmd" where
  "sched_check_close func wt =
     mbind timer_read_time (\<lambda>time.
     mwhen (timer_is_before wt time)
       (mseq (sendf ''Timer too close %u %u %s'' [U wt, U time, Str func])
          (sched_try_shutdown ''__sched_add_timer'' ''Timer too close'')))"

definition sched_add_first :: "tptr \<Rightarrow> u32 \<Rightarrow> ('s sched_scheme, unit) cmd" where
  "sched_add_first add wt =
     mseq (modify (\<lambda>s. set_next add (if timer_list s = Deleted_timer then nextp s Deleted_timer
                                     else Some (timer_list s)) s)) (
     mseq (modify (\<lambda>s. set_next Deleted_timer (Some add) (set_wake Deleted_timer wt s))) (
     mseq (modify (\<lambda>s. s\<lparr>timer_list := Deleted_timer\<rparr>))
     timer_kick))"

definition sched_add_timer :: "string \<Rightarrow> tptr \<Rightarrow> ('s sched_scheme, unit) cmd" where
  "sched_add_timer func add =
     mbind (gets (\<lambda>s. waketime s add)) (\<lambda>wt.
     mbind (gets timer_list) (\<lambda>tl.
     mbind (gets (\<lambda>s. waketime s tl)) (\<lambda>tlw.
     if timer_is_before wt tlw then mseq (sched_check_close func wt) (sched_add_first add wt)
     else insert_timer tl add wt)))"

text \<open>The search loop of \<open>sched_del_timer\<close>: the predecessor of the timer, if it is listed.\<close>

partial_function (option) del_search ::
  "(tptr \<Rightarrow> timer) \<Rightarrow> tptr \<Rightarrow> tptr \<Rightarrow> tptr option option" where
  "del_search T del pos =
     (case t_next (T pos) of
        None \<Rightarrow> Some None
      | Some nx \<Rightarrow> if nx = del then Some (Some pos) else del_search T del nx)"

definition sched_del_timer :: "tptr \<Rightarrow> ('s sched_scheme, unit) cmd" where
  "sched_del_timer del =
     mbind (gets timer_list) (\<lambda>tl.
     mseq
      (if tl = del then
         mseq (modify (\<lambda>s. set_next Deleted_timer (nextp s del)
                             (set_wake Deleted_timer (waketime s del) s)))
              (modify (\<lambda>s. s\<lparr>timer_list := Deleted_timer\<rparr>))
       else
         mbind (gets (\<lambda>s. del_search (timers s) del tl)) (\<lambda>r.
         case r of None \<Rightarrow> fail Diverge
         | Some None \<Rightarrow> ret ()
         | Some (Some pos) \<Rightarrow> modify (\<lambda>s. set_next pos (nextp s del) s)))
      (modify (\<lambda>s. if last_insert s = del then s\<lparr>last_insert := Periodic_timer\<rparr> else s)))"

text \<open>
  What the dispatcher does behind the callback of the first timer \<open>t\<close>, which has returned
  \<open>res\<close> and may have changed the waketime of \<open>t\<close>.
\<close>

definition sched_timer_next :: "tptr \<Rightarrow> sf \<Rightarrow> ('s sched_scheme, u32) cmd" where
  "sched_timer_next t res =
     mbind (gets (\<lambda>s. waketime s t)) (\<lambda>updated_waketime.
     mbind (mbind (gets (\<lambda>s. nextp s t)) deref) (\<lambda>nx.
     mbind (gets (\<lambda>s. waketime s nx)) (\<lambda>nxw.
     if res = SF_DONE then
       mseq (modify (\<lambda>s. s\<lparr>timer_list := nx,
               last_insert := (if last_insert s = t then nx else last_insert s)\<rparr>))
         (ret nxw)
     else if \<not> timer_is_before updated_waketime nxw then
       mseq (modify (\<lambda>s. s\<lparr>timer_list := nx\<rparr>)) (
       mbind (gets (\<lambda>s. if timer_is_before updated_waketime (waketime s (last_insert s)) then nx
                        else last_insert s)) (\<lambda>pos.
       mseq (insert_timer pos t updated_waketime) (
       mseq (modify (\<lambda>s. s\<lparr>last_insert := t\<rparr>))
         (ret nxw))))
     else ret updated_waketime)))"

text \<open>
  The dispatcher.  \<open>call\<close> gives the meaning of the function pointers and \<open>stepper_event\<close> is
  the function inlined for a null pointer when \<open>hack\<close> (CONFIG_INLINE_STEPPER_HACK) is set.
\<close>

definition sched_timer_dispatch ::
  "(timer_fn \<Rightarrow> tptr \<Rightarrow> ('s sched_scheme, sf) cmd) \<Rightarrow> bool \<Rightarrow> (tptr \<Rightarrow> ('s sched_scheme, sf) cmd)
   \<Rightarrow> ('s sched_scheme, u32) cmd" where
  "sched_timer_dispatch call hack stepper_event =
     mbind (gets timer_list) (\<lambda>t.
     mbind (gets (\<lambda>s. t_func (timers s t))) (\<lambda>fn.
     mbind (case fn of
              None \<Rightarrow> if hack then stepper_event t else fail (Fault ''null function'')
            | Some f \<Rightarrow> call f t) (sched_timer_next t)))"

definition sched_timer_reset :: "('s sched_scheme, unit) cmd" where
  "sched_timer_reset =
     mseq (modify (\<lambda>s. s\<lparr>timer_list := Deleted_timer\<rparr>)) (
     mseq (modify (\<lambda>s. set_wake Deleted_timer (waketime s Periodic_timer) s)) (
     mseq (modify (\<lambda>s. set_next Deleted_timer (Some Periodic_timer) (s\<lparr>last_insert := Periodic_timer\<rparr>))) (
     mseq (modify (set_next Periodic_timer (Some Sentinel_timer)))
     timer_kick)))"

section \<open>Tasks\<close>

definition sched_tasks_busy :: "'s sched_scheme \<Rightarrow> bool" where
  "sched_tasks_busy s \<longleftrightarrow> tasks_status s \<ge> TS_REQUESTED"

definition sched_wake_task :: "task_wake \<Rightarrow> ('s sched_scheme, unit) cmd" where
  "sched_wake_task w = mseq sched_wake_tasks (modify (\<lambda>s. s\<lparr>wakes := (wakes s)(w := True)\<rparr>))"

definition sched_check_wake :: "task_wake \<Rightarrow> ('s sched_scheme, bool) cmd" where
  "sched_check_wake w = mbind (gets (\<lambda>s. wakes s w)) (\<lambda>b.
     if \<not> b then ret False
     else mseq (modify (\<lambda>s. s\<lparr>wakes := (wakes s)(w := False)\<rparr>)) (ret True))"

section \<open>Shutdown\<close>

definition sched_is_shutdown :: "'s sched_scheme \<Rightarrow> bool" where
  "sched_is_shutdown s \<longleftrightarrow> shutdown_status s \<noteq> 0"

definition sched_clear_shutdown :: "('s sched_scheme, unit) cmd" where
  "sched_clear_shutdown = mbind (gets shutdown_status) (\<lambda>st.
     if st = 0 then shutdown ''sched_clear_shutdown'' ''Shutdown cleared when not shutdown''
     else if st = 2 then ret ()
     else modify (\<lambda>s. s\<lparr>shutdown_status := 0\<rparr>))"

text \<open>\<open>shutdownfuncs\<close> is the generated list \<open>ctr_run_shutdownfuncs\<close>.\<close>

definition run_shutdown :: "('s sched_scheme, unit) cmd \<Rightarrow> u8 \<Rightarrow> ('s sched_scheme, unit) cmd" where
  "run_shutdown shutdownfuncs reason =
     mbind timer_read_time (\<lambda>cur.
     mseq (modify (\<lambda>s. if shutdown_status s = 0 then s\<lparr>shutdown_reason := reason\<rparr> else s)) (
     mseq (modify (\<lambda>s. s\<lparr>shutdown_status := 2\<rparr>)) (
     mseq sched_timer_reset (
     mseq shutdownfuncs (
     mseq (modify (\<lambda>s. s\<lparr>shutdown_status := 1\<rparr>)) (
     mbind (gets shutdown_reason) (\<lambda>r.
     sendf ''shutdown clock=%u static_string_id=%hu'' [U cur, U (ucast r)])))))))"

definition sched_report_shutdown :: "('s sched_scheme, unit) cmd" where
  "sched_report_shutdown = mbind (gets shutdown_reason) (\<lambda>r.
     sendf ''is_shutdown static_string_id=%hu'' [U (ucast r)])"

section \<open>Main loop\<close>

text \<open>
  One round of \<open>run_tasks\<close>; the result is the start time of the next round.  \<open>irq_wait\<close> is the
  processor sleeping until an interrupt has been served, \<open>taskfuncs\<close> the generated
  \<open>ctr_run_taskfuncs\<close> and \<open>stats_update\<close> the function of basecmd.c.
\<close>

definition run_tasks_round ::
  "('s sched_scheme, unit) cmd \<Rightarrow> ('s sched_scheme, unit) cmd \<Rightarrow> (u32 \<Rightarrow> u32 \<Rightarrow> ('s sched_scheme, unit) cmd)
   \<Rightarrow> u32 \<Rightarrow> ('s sched_scheme, u32) cmd" where
  "run_tasks_round irq_wait taskfuncs stats_update start =
     mbind (gets tasks_status) (\<lambda>st.
     mbind (if st \<noteq> TS_REQUESTED then
         mbind timer_read_time (\<lambda>t1.
         mseq (mbind (gets tasks_status) (\<lambda>st2. mwhen (st2 \<noteq> TS_REQUESTED)
             (mseq (modify (\<lambda>s. s\<lparr>tasks_status := TS_IDLE\<rparr>)) (
              mseq irq_wait (cwhile (\<lambda>s. tasks_status s \<noteq> TS_REQUESTED) irq_wait))))) (
         mbind timer_read_time (\<lambda>t2. ret (start - t1 + t2))))
       else ret start) (\<lambda>start'.
     mseq (modify (\<lambda>s. s\<lparr>tasks_status := TS_RUNNING\<rparr>)) (
     mseq taskfuncs (
     mbind timer_read_time (\<lambda>cur.
     mseq (stats_update start' cur) (ret cur))))))"

text \<open>Before the loop, \<open>sched_main\<close> runs the generated init functions and greets the host.\<close>

definition sched_main_init :: "('s sched_scheme, unit) cmd \<Rightarrow> string \<Rightarrow> ('s sched_scheme, unit) cmd" where
  "sched_main_init initfuncs mcu_version =
     mseq initfuncs (mseq (sendf ''starting'' []) (sendf ''%s'' [Str mcu_version]))"

text \<open>
  The \<open>setjmp\<close> of \<open>sched_main\<close>: a shutdown anywhere below lands here and runs the shutdown
  handlers; \<open>sid\<close> is the generated numbering of the static strings (\<open>longjmp\<close> turns 0 into 1).
\<close>

definition sched_main_catch ::
  "(string \<Rightarrow> u8) \<Rightarrow> ('s sched_scheme, unit) cmd \<Rightarrow> ('s sched_scheme, unit) cmd \<Rightarrow> ('s sched_scheme, unit) cmd" where
  "sched_main_catch sid shutdownfuncs body s =
     (case body s of
        (Inl (Shutdown msg), t) \<Rightarrow> run_shutdown shutdownfuncs (if sid msg = 0 then 1 else sid msg) t
      | rt \<Rightarrow> rt)"

section \<open>The timer interrupt\<close>

definition timer_wrap_event :: "('s sched_scheme, sf) cmd" where
  "timer_wrap_event = mseq
     (modify (\<lambda>s. set_wake Wrap_timer (waketime s Wrap_timer + 0xffffff) s)) (ret SF_RESCHEDULE)"

definition timer_reset :: "('s sched_scheme, unit) cmd" where
  "timer_reset = mbind (gets (\<lambda>s. timer_from_us s 100000)) (\<lambda>t.
     if t \<le> 0xffffff then ret () else sched_add_timer ''timer_reset'' Wrap_timer)"

text \<open>
  \<open>timer_dispatch_many\<close>: run timers that are due, spin for one that is about to be, and yield
  to the tasks when timers repeat for too long.  The result is the delay to program.
\<close>

definition timer_dispatch_many :: "('s sched_scheme, u32) cmd \<Rightarrow> ('s sched_scheme, u32) cmd" where
  "timer_dispatch_many dispatch =
     mbind (gets repeat_until) (\<lambda>tru0.
     cloop (\<lambda>tru.
       mbind dispatch (\<lambda>next.
       mbind timer_read_time (\<lambda>now.
       mbind (gets (\<lambda>s. timer_from_us s)) (\<lambda>us.
       let diff = next - now in
       if sint diff > sint (us 2) then ret (Inr diff)
       else
         mbind (if timer_is_before tru now then
             mseq (mwhen (sint diff < sint (- us 1000))
                     (sched_try_shutdown ''timer_dispatch_many'' ''Rescheduled timer in the past'')) (
             mbind (gets sched_tasks_busy) (\<lambda>busy.
             if busy then mseq (modify (\<lambda>s. s\<lparr>repeat_until := now + us 100\<rparr>)) (ret (Inr (us 5)))
             else mseq (modify (\<lambda>s. s\<lparr>repeat_until := now + us 500\<rparr>)) (ret (Inl (now + us 500)))))
           else ret (Inl tru)) (\<lambda>q.
         case q of Inr d \<Rightarrow> ret (Inr d)
         | Inl tru' \<Rightarrow>
           cloop (\<lambda>diff. if sint diff > 0
               then mbind timer_read_time (\<lambda>t. ret (Inl (next - t)))
               else ret (Inr (Inl tru'))) diff)))))
       tru0)"

definition timer_task :: "('s sched_scheme, unit) cmd" where
  "timer_task = mbind timer_read_time (\<lambda>now.
     modify (\<lambda>s. if timer_is_before (repeat_until s) now then s\<lparr>repeat_until := now\<rparr> else s))"

end
