(* ===== verification/Command.thy ===== *)
theory Command
  imports Vlq Crc Sched
begin

text \<open>
  The message layer of the firmware, \<open>src/src/command.c\<close>: parsing of commands, encoding and
  framing of responses, finding message blocks in the receive buffer, and dispatching.

  Pointers into a buffer are positions in a list of bytes; reading or writing outside the
  list is a \<open>Fault\<close>.  The tables \<open>command_index\<close> and the encoders are generated by the build
  and are arguments here.  A pointer argument of a command is its offset in the receive
  buffer (\<open>command_encode_ptr\<close>).
\<close>

section \<open>Constants and tables\<close>

definition MESSAGE_MIN :: nat where "MESSAGE_MIN = 5"
definition MESSAGE_MAX :: nat where "MESSAGE_MAX = 64"
definition MESSAGE_HEADER_SIZE :: nat where "MESSAGE_HEADER_SIZE = 2"
definition MESSAGE_TRAILER_SIZE :: nat where "MESSAGE_TRAILER_SIZE = 3"
definition MESSAGE_PAYLOAD_MAX :: nat where "MESSAGE_PAYLOAD_MAX = MESSAGE_MAX - MESSAGE_MIN"
definition MESSAGE_SEQ_MASK :: u8 where "MESSAGE_SEQ_MASK = 0x0f"
definition MESSAGE_DEST :: u8 where "MESSAGE_DEST = 0x10"
definition MESSAGE_SYNC :: u8 where "MESSAGE_SYNC = 0x7E"

lemmas message_consts = MESSAGE_MIN_def MESSAGE_MAX_def MESSAGE_HEADER_SIZE_def MESSAGE_TRAILER_SIZE_def
  MESSAGE_PAYLOAD_MAX_def MESSAGE_SEQ_MASK_def MESSAGE_DEST_def MESSAGE_SYNC_def

datatype param_type = PT_uint32 | PT_int32 | PT_uint16 | PT_int16 | PT_byte
  | PT_string | PT_progmem_buffer | PT_buffer

record command_encoder =
  ce_msgid :: u32
  ce_max_size :: u8
  ce_param_types :: "param_type list"

record 's command_parser =
  cp_num_args :: nat
  cp_flags :: u8
  cp_param_types :: "param_type list"
  cp_func :: "u32 list \<Rightarrow> ('s, unit) cmd"

record comm = sched +
  next_sequence :: u8
  sync_state :: u8
  receive_buf :: "u8 list"

definition comm_static :: comm where
  "comm_static = sched.extend sched_static \<lparr>next_sequence = MESSAGE_DEST, sync_state = 0, receive_buf = []\<rparr>"

section \<open>Parsing a command\<close>

text \<open>\<open>command_parsef\<close>: the arguments and the position behind them.\<close>

fun command_parsef :: "u8 list \<Rightarrow> nat \<Rightarrow> nat \<Rightarrow> param_type list \<Rightarrow> u32 list \<Rightarrow> abort + (u32 list \<times> nat)" where
  "command_parsef buf p maxend [] args = Inr (args, p)"
| "command_parsef buf p maxend (t # ts) args =
     (if p > maxend then Inl (Shutdown ''Command parser error'')
      else if t \<in> {PT_uint32, PT_int32, PT_uint16, PT_int16, PT_byte} then
        (case parse_int buf p of
           None \<Rightarrow> Inl (Fault ''read past the buffer'')
         | Some (v, p') \<Rightarrow> command_parsef buf p' maxend ts (args @ [v]))
      else if t = PT_buffer then
        (if p \<ge> length buf then Inl (Fault ''read past the buffer'')
         else let len = unat (buf ! p); p' = Suc p
              in if p' + len > maxend then Inl (Shutdown ''Command parser error'')
                 else command_parsef buf (p' + len) maxend ts (args @ [of_nat len, of_nat p']))
      else Inl (Shutdown ''Command parser error''))"

section \<open>Encoding a message\<close>

text \<open>
  The loop of \<open>command_encodef\<close>; \<open>out\<close> are the bytes written behind the header so far, so the
  pointer \<open>p\<close> is at \<open>MESSAGE_HEADER_SIZE + length out\<close>.  A C string argument ends at its null byte.
\<close>

definition enc_pos :: "u8 list \<Rightarrow> nat" where
  "enc_pos out = MESSAGE_HEADER_SIZE + length out"

definition string_bytes :: "string \<Rightarrow> u8 list" where
  "string_bytes s = takeWhile (\<lambda>b. b \<noteq> 0) (map (\<lambda>c. of_nat (of_char c)) s)"

fun encode_params :: "nat \<Rightarrow> param_type list \<Rightarrow> arg list \<Rightarrow> u8 list \<Rightarrow> abort + u8 list" where
  "encode_params maxend [] args out = Inr out"
| "encode_params maxend (t # ts) args out =
     (if enc_pos out > maxend then Inl (Shutdown ''Message encode error'')
      else if t \<in> {PT_uint32, PT_int32, PT_uint16, PT_int16, PT_byte} then
        (case args of
           U v # args' \<Rightarrow> encode_params maxend ts args' (out @ encode_int v)
         | _ \<Rightarrow> Inl (Fault ''va_arg''))
      else if t = PT_string then
        (case args of
           Str s # args' \<Rightarrow>
             let bs = take (maxend - Suc (enc_pos out)) (string_bytes s)
             in encode_params maxend ts args' (out @ of_nat (length bs) # bs)
         | _ \<Rightarrow> Inl (Fault ''va_arg''))
      else
        (case args of
           Buf bs # args' \<Rightarrow>
             let v = (if length bs > maxend - enc_pos out then maxend - enc_pos out else length bs)
             in encode_params maxend ts args' (out @ of_nat v # take v bs)
         | _ \<Rightarrow> Inl (Fault ''va_arg'')))"

definition write_bytes :: "u8 list \<Rightarrow> nat \<Rightarrow> u8 list \<Rightarrow> u8 list option" where
  "write_bytes buf p bs =
     (if p + length bs \<le> length buf then Some (take p buf @ bs @ drop (p + length bs) buf) else None)"

definition command_encodef :: "u8 list \<Rightarrow> command_encoder \<Rightarrow> arg list \<Rightarrow> abort + (u8 list \<times> nat)" where
  "command_encodef buf ce args =
     (let max_size = unat (ce_max_size ce)
      in if max_size \<le> MESSAGE_MIN then Inr (buf, max_size)
         else let maxend = MESSAGE_HEADER_SIZE + (max_size - MESSAGE_MIN)
              in case encode_params maxend (ce_param_types ce) args (encode_msgid (ce_msgid ce)) of
                   Inl e \<Rightarrow> Inl e
                 | Inr out \<Rightarrow> (case write_bytes buf MESSAGE_HEADER_SIZE out of
                     None \<Rightarrow> Inl (Fault ''write past the buffer'')
                   | Some buf' \<Rightarrow> Inr (buf', enc_pos out + MESSAGE_TRAILER_SIZE)))"

definition command_add_frame :: "u8 \<Rightarrow> u8 list \<Rightarrow> nat \<Rightarrow> abort + u8 list" where
  "command_add_frame seq buf msglen =
     (if msglen < MESSAGE_MIN \<or> msglen > length buf then Inl (Fault ''write past the buffer'')
      else let b = buf[0 := of_nat msglen, 1 := seq];
               crc = crc16_ccitt b (msglen - MESSAGE_TRAILER_SIZE)
           in Inr (b[msglen - 3 := ucast (drop_bit 8 crc), msglen - 2 := ucast crc, msglen - 1 := MESSAGE_SYNC]))"

definition command_encode_and_frame ::
  "u8 \<Rightarrow> u8 list \<Rightarrow> command_encoder \<Rightarrow> arg list \<Rightarrow> abort + (u8 list \<times> nat)" where
  "command_encode_and_frame seq buf ce args =
     (case command_encodef buf ce args of
        Inl e \<Rightarrow> Inl e
      | Inr (buf', msglen) \<Rightarrow> (case command_add_frame seq buf' msglen of
          Inl e \<Rightarrow> Inl e
        | Inr buf'' \<Rightarrow> Inr (buf'', msglen)))"

definition encode_acknak :: command_encoder where
  "encode_acknak = \<lparr>ce_msgid = 0, ce_max_size = 5, ce_param_types = []\<rparr>"

definition sendf_shutdown :: "('s hw_scheme, unit) cmd" where
  "sendf_shutdown = modify (\<lambda>s. s\<lparr>in_sendf := False\<rparr>)"

text \<open>The empty message that acknowledges, or asks for a retransmission.\<close>

definition command_send_ack :: "('s hw_scheme, unit) cmd" where
  "command_send_ack = sendf ''acknak'' []"

section \<open>Finding a message block\<close>

definition CF_NEED_SYNC :: u8 where "CF_NEED_SYNC = 1"
definition CF_NEED_VALID :: u8 where "CF_NEED_VALID = 2"

definition memchr :: "u8 list \<Rightarrow> u8 \<Rightarrow> nat option" where
  "memchr xs c = (if c \<in> set xs then Some (length (takeWhile (\<lambda>x. x \<noteq> c) xs)) else None)"

text \<open>The label \<open>need_sync\<close>: discard bytes up to the next sync byte, and ask once for a retransmission.\<close>

definition find_sync :: "u8 list \<Rightarrow> nat \<Rightarrow> ('s comm_scheme, int \<times> nat) cmd" where
  "find_sync buf buf_len =
     mbind (case memchr (take buf_len buf) MESSAGE_SYNC of
              Some i \<Rightarrow> mseq (modify (\<lambda>s. s\<lparr>sync_state := sync_state s AND NOT CF_NEED_SYNC\<rparr>)) (ret (i + 1))
            | None \<Rightarrow> ret buf_len) (\<lambda>pop.
     mbind (gets sync_state) (\<lambda>ss.
     if ss AND CF_NEED_VALID \<noteq> 0 then ret (- 1, pop)
     else mseq (modify (\<lambda>s. s\<lparr>sync_state := sync_state s OR CF_NEED_VALID\<rparr>)) (
          mseq command_send_ack (ret (- 1, pop)))))"

text \<open>The label \<open>error\<close>.\<close>

definition find_error :: "u8 list \<Rightarrow> nat \<Rightarrow> ('s comm_scheme, int \<times> nat) cmd" where
  "find_error buf buf_len =
     (if buf ! 0 = MESSAGE_SYNC then ret (- 1, 1)
      else mseq (modify (\<lambda>s. s\<lparr>sync_state := sync_state s OR CF_NEED_SYNC\<rparr>)) (find_sync buf buf_len))"

definition command_find_block :: "u8 list \<Rightarrow> nat \<Rightarrow> ('s comm_scheme, int \<times> nat) cmd" where
  "command_find_block buf buf_len =
     mbind (gets sync_state) (\<lambda>ss.
     if buf_len \<noteq> 0 \<and> ss AND CF_NEED_SYNC \<noteq> 0 then find_sync buf buf_len
     else if buf_len < MESSAGE_MIN then ret (0, 0)
     else let msglen = unat (buf ! 0); msgseq = buf ! 1 in
     if msglen < MESSAGE_MIN \<or> msglen > MESSAGE_MAX then find_error buf buf_len
     else if msgseq AND NOT MESSAGE_SEQ_MASK \<noteq> MESSAGE_DEST then find_error buf buf_len
     else if buf_len < msglen then ret (0, 0)
     else if buf ! (msglen - 1) \<noteq> MESSAGE_SYNC then find_error buf buf_len
     else let msgcrc = push_bit 8 (ucast (buf ! (msglen - 3))) OR ucast (buf ! (msglen - 3 + 1)) :: u16
     in if crc16_ccitt buf (msglen - MESSAGE_TRAILER_SIZE) \<noteq> msgcrc then find_error buf buf_len
     else mseq (modify (\<lambda>s. s\<lparr>sync_state := sync_state s AND NOT CF_NEED_VALID\<rparr>)) (
          mbind (gets next_sequence) (\<lambda>ns.
          if msgseq \<noteq> ns then mseq command_send_ack (ret (- 1, msglen))
          else mseq (modify (\<lambda>s. s\<lparr>next_sequence := ((msgseq + 1) AND MESSAGE_SEQ_MASK) OR MESSAGE_DEST\<rparr>))
            (ret (1, msglen)))))"

section \<open>Dispatching a message block\<close>

definition HF_IN_SHUTDOWN :: u8 where "HF_IN_SHUTDOWN = 1"

definition command_lookup_parser ::
  "'s comm_scheme command_parser list \<Rightarrow> u32 \<Rightarrow> ('s comm_scheme, 's comm_scheme command_parser) cmd" where
  "command_lookup_parser command_index cmdid =
     (if cmdid = 0 \<or> unat cmdid \<ge> length command_index then shutdown ''command_lookup_parser'' ''Invalid command''
      else ret (command_index ! unat cmdid))"

text \<open>\<open>command_parsef\<close> as called: a parse error is reported like every shutdown.\<close>

definition command_parse ::
  "u8 list \<Rightarrow> nat \<Rightarrow> nat \<Rightarrow> 's comm_scheme command_parser \<Rightarrow> ('s comm_scheme, u32 list \<times> nat) cmd" where
  "command_parse buf p msgend cp =
     (case command_parsef buf p msgend (cp_param_types cp) [] of
        Inl (Shutdown msg) \<Rightarrow> shutdown ''command_parsef'' msg
      | Inl e \<Rightarrow> fail e
      | Inr (args, p') \<Rightarrow>
          if length args > cp_num_args cp then fail (Fault ''args array overflow'') else ret (args, p'))"

text \<open>One round of the loop of \<open>command_dispatch\<close>: the command at \<open>p\<close>; the result is where the next one starts.\<close>

definition command_dispatch_one ::
  "'s comm_scheme command_parser list \<Rightarrow> u8 list \<Rightarrow> nat \<Rightarrow> nat \<Rightarrow> ('s comm_scheme, nat) cmd" where
  "command_dispatch_one command_index buf msgend p =
     (case command_parse_msgid buf p of
        None \<Rightarrow> fail (Fault ''read past the buffer'')
      | Some (cmdid, p1) \<Rightarrow>
          mbind (command_lookup_parser command_index cmdid) (\<lambda>cp.
          mbind (command_parse buf p1 msgend cp) (\<lambda>(args, p2).
          mbind (gets sched_is_shutdown) (\<lambda>down.
          if down \<and> cp_flags cp AND HF_IN_SHUTDOWN = 0 then mseq sched_report_shutdown (ret p2)
          else mseq (cp_func cp args) (ret p2)))))"

definition command_dispatch ::
  "'s comm_scheme command_parser list \<Rightarrow> u8 list \<Rightarrow> nat \<Rightarrow> ('s comm_scheme, unit) cmd" where
  "command_dispatch command_index buf msglen =
     (let msgend = msglen - MESSAGE_TRAILER_SIZE
      in cloop (\<lambda>p. if p < msgend
                    then mbind (command_dispatch_one command_index buf msgend p) (\<lambda>p'. ret (Inl p'))
                    else ret (Inr ())) MESSAGE_HEADER_SIZE)"

definition command_find_and_dispatch ::
  "'s comm_scheme command_parser list \<Rightarrow> u8 list \<Rightarrow> nat \<Rightarrow> ('s comm_scheme, int \<times> nat) cmd" where
  "command_find_and_dispatch command_index buf buf_len =
     mbind (command_find_block buf buf_len) (\<lambda>(r, pop).
     mseq (mwhen (r > 0) (mseq (command_dispatch command_index buf pop) command_send_ack))
       (ret (r, pop)))"

text \<open>\<open>command_decode_ptr\<close>: the bytes of a buffer argument (its length and its pointer).\<close>

definition command_decode_ptr :: "u32 \<Rightarrow> u32 \<Rightarrow> ('s comm_scheme, u8 list) cmd" where
  "command_decode_ptr len v = mbind (gets receive_buf) (\<lambda>buf.
     if unat v + unat len > length buf then fail (Fault ''read past the buffer'')
     else ret (take (unat len) (drop (unat v) buf)))"

end
