(* ===== verification/Msgblock.thy ===== *)
theory Msgblock
  imports Command
begin

text \<open>
  The host side of the wire protocol, \<open>src/elegoo/chelper/msgblock.c\<close>: checking message
  blocks from the firmware, decoding and encoding their contents, and extending 32 bit clocks.
  The host's \<open>encode_int\<close> and \<open>parse_int\<close> are the same code as the firmware's and are not
  repeated.  The conversions between clocks and floating point times are not modelled.
\<close>

section \<open>Message blocks\<close>

definition msgblock_crc_round :: "u16 \<Rightarrow> u8 \<Rightarrow> u16" where
  "msgblock_crc_round crc byte =
     (let data = byte XOR ucast (crc AND 0xff);
          data' = data XOR push_bit 4 data
      in ((push_bit 8 (ucast data') OR drop_bit 8 crc) XOR ucast (drop_bit 4 data'))
         XOR push_bit 3 (ucast data'))"

definition msgblock_crc16_ccitt :: "u8 list \<Rightarrow> nat \<Rightarrow> u16" where
  "msgblock_crc16_ccitt buf len = foldl msgblock_crc_round 0xffff (take len buf)"

text \<open>The result and the new value of \<open>need_sync\<close>.\<close>

definition msgblock_error :: "u8 list \<Rightarrow> nat \<Rightarrow> int \<times> bool" where
  "msgblock_error buf buf_len =
     (case memchr (take buf_len buf) MESSAGE_SYNC of
        Some i \<Rightarrow> (- (int i + 1), False)
      | None \<Rightarrow> (- int buf_len, True))"

definition msgblock_check :: "bool \<Rightarrow> u8 list \<Rightarrow> nat \<Rightarrow> int \<times> bool" where
  "msgblock_check need_sync buf buf_len =
     (if buf_len < MESSAGE_MIN then (0, need_sync)
      else if need_sync then msgblock_error buf buf_len
      else let msglen = unat (buf ! 0); msgseq = buf ! 1 in
      if msglen < MESSAGE_MIN \<or> msglen > MESSAGE_MAX then msgblock_error buf buf_len
      else if msgseq AND NOT MESSAGE_SEQ_MASK \<noteq> MESSAGE_DEST then msgblock_error buf buf_len
      else if buf_len < msglen then (0, need_sync)
      else if buf ! (msglen - 1) \<noteq> MESSAGE_SYNC then msgblock_error buf buf_len
      else let msgcrc = push_bit 8 (ucast (buf ! (msglen - 3))) OR ucast (buf ! (msglen - 3 + 1)) :: u16
      in if msgblock_crc16_ccitt buf (msglen - MESSAGE_TRAILER_SIZE) \<noteq> msgcrc then msgblock_error buf buf_len
      else (int msglen, need_sync))"

section \<open>Contents\<close>

text \<open>
  \<open>msgblock_decode\<close>: \<open>data_len\<close> integers between the header and the trailer.  The outer
  \<open>None\<close> is a read past the message, \<open>Some None\<close> the return value -1.
\<close>

fun msgblock_decode_loop :: "nat \<Rightarrow> u8 list \<Rightarrow> nat \<Rightarrow> nat \<Rightarrow> u32 list \<Rightarrow> u32 list option option" where
  "msgblock_decode_loop 0 msg p mend data = Some (if p \<noteq> mend then None else Some data)"
| "msgblock_decode_loop (Suc n) msg p mend data =
     (if p \<ge> mend then Some None
      else case parse_int msg p of
        None \<Rightarrow> None
      | Some (v, p') \<Rightarrow> msgblock_decode_loop n msg p' mend (data @ [v]))"

definition msgblock_decode :: "nat \<Rightarrow> u8 list \<Rightarrow> nat \<Rightarrow> u32 list option option" where
  "msgblock_decode data_len msg msg_len =
     msgblock_decode_loop data_len msg MESSAGE_HEADER_SIZE (msg_len - MESSAGE_TRAILER_SIZE) []"

record queue_message =
  qm_len :: nat
  qm_msg :: "u8 list"
  qm_min_clock :: u64
  qm_req_clock :: u64
  qm_notify_id :: u64

definition message_alloc :: queue_message where
  "message_alloc = \<lparr>qm_len = 0, qm_msg = replicate MESSAGE_MAX 0, qm_min_clock = 0, qm_req_clock = 0,
     qm_notify_id = 0\<rparr>"

text \<open>\<open>memcpy\<close> into the 64 bytes of a message; \<open>None\<close> is a write past them.\<close>

definition message_fill :: "u8 list \<Rightarrow> queue_message option" where
  "message_fill data = (case write_bytes (qm_msg message_alloc) 0 data of
     None \<Rightarrow> None
   | Some m \<Rightarrow> Some (message_alloc\<lparr>qm_msg := m, qm_len := length data\<rparr>))"

text \<open>
  The loop of \<open>message_alloc_and_encode\<close>: the message and the end of its contents, where \<open>None\<close>
  is the jump to \<open>fail\<close>.
\<close>

fun encode_loop :: "u32 list \<Rightarrow> u8 list \<Rightarrow> nat \<Rightarrow> (u8 list \<times> nat option) option" where
  "encode_loop [] msg p = Some (msg, Some p)"
| "encode_loop (v # vs) msg p =
     (case write_bytes msg p (encode_int v) of
        None \<Rightarrow> None
      | Some msg' \<Rightarrow>
          let p' = p + length (encode_int v)
          in if p' > MESSAGE_PAYLOAD_MAX then Some (msg', None) else encode_loop vs msg' p')"

definition message_alloc_and_encode :: "u32 list \<Rightarrow> queue_message option" where
  "message_alloc_and_encode data =
     (case encode_loop data (qm_msg message_alloc) 0 of
        None \<Rightarrow> None
      | Some (msg, None) \<Rightarrow> Some (message_alloc\<lparr>qm_msg := msg, qm_len := 0\<rparr>)
      | Some (msg, Some p) \<Rightarrow> Some (message_alloc\<lparr>qm_msg := msg, qm_len := p\<rparr>))"

section \<open>Clocks\<close>

definition clock_from_clock32 :: "u64 \<Rightarrow> u32 \<Rightarrow> u64" where
  "clock_from_clock32 last_clock clock32 =
     last_clock + scast (ucast (ucast clock32 - last_clock :: u64) :: u32)"

end
