(* ===== verification/Sched_Timers.thy ===== *)
theory Sched_Timers
  imports Sched
begin

text \<open>
  Correctness of the timer list of \<open>sched.c\<close>: its representation invariant, the effect of every
  list operation on the sequence of scheduled timers, the absence of null pointers and endless
  walks, and the interface through which the other components schedule their timers.
\<close>

section \<open>Field updates\<close>

lemma set_next_simps [simp]:
  "nextp (set_next p v s) = (nextp s)(p := v)"
  "waketime (set_next p v s) q = waketime s q"
  "t_func (timers (set_next p v s) q) = t_func (timers s q)"
  "timer_list (set_next p v s) = timer_list s"
  "last_insert (set_next p v s) = last_insert s"
  by (auto simp: set_next_def)

lemma set_wake_simps [simp]:
  "nextp (set_wake p v s) = nextp s"
  "waketime (set_wake p v s) q = (if q = p then v else waketime s q)"
  "t_func (timers (set_wake p v s) q) = t_func (timers s q)"
  "timer_list (set_wake p v s) = timer_list s"
  "last_insert (set_wake p v s) = last_insert s"
  by (auto simp: set_wake_def)

lemma set_func_simps [simp]:
  "nextp (set_func p v s) = nextp s"
  "waketime (set_func p v s) q = waketime s q"
  "timer_list (set_func p v s) = timer_list s"
  "last_insert (set_func p v s) = last_insert s"
  by (auto simp: set_func_def)

lemma set_frame_simps [simp]:
  "kicks (set_next p v s) = kicks s" "kicks (set_wake p w s) = kicks s"
  "clk_n (set_next p v s) = clk_n s" "clk_n (set_wake p w s) = clk_n s"
  by (simp_all add: set_next_def set_wake_def)

lemma set_hw_simps [simp]:
  "nextp (s\<lparr>kicks := k\<rparr>) = nextp s" "nextp (s\<lparr>timer_list := l\<rparr>) = nextp s"
  "nextp (s\<lparr>last_insert := l\<rparr>) = nextp s"
  by simp_all

section \<open>The search loops\<close>

text \<open>The loops return on every null-terminated list; here is what they find.\<close>

lemma insert_search_list:
  "lseg (\<lambda>p. t_next (T p)) (t_next (T pos)) zs None \<Longrightarrow>
   insert_search T w pos =
     (case dropWhile (\<lambda>x. \<not> timer_is_before w (t_wake (T x))) zs of
        [] \<Rightarrow> Some None
      | y # ys \<Rightarrow> Some (Some (last (pos # takeWhile (\<lambda>x. \<not> timer_is_before w (t_wake (T x))) zs), y)))"
proof (induction zs arbitrary: pos)
  case Nil
  then show ?case by (simp add: insert_search.simps)
next
  case (Cons z zs)
  then have n: "t_next (T pos) = Some z" and l: "lseg (\<lambda>p. t_next (T p)) (t_next (T z)) zs None" by auto
  show ?case
  proof (cases "timer_is_before w (t_wake (T z))")
    case True
    then show ?thesis by (simp add: insert_search.simps [of T w pos] n)
  next
    case False
    have "insert_search T w pos = insert_search T w z"
      using False by (simp add: insert_search.simps [of T w pos] n)
    moreover have "last (pos # takeWhile (\<lambda>x. \<not> timer_is_before w (t_wake (T x))) (z # zs))
        = last (z # takeWhile (\<lambda>x. \<not> timer_is_before w (t_wake (T x))) zs)"
      "dropWhile (\<lambda>x. \<not> timer_is_before w (t_wake (T x))) (z # zs)
        = dropWhile (\<lambda>x. \<not> timer_is_before w (t_wake (T x))) zs"
      using False by simp_all
    ultimately show ?thesis using Cons.IH [OF l] by (simp only:)
  qed
qed

lemma del_search_list:
  "lseg (\<lambda>p. t_next (T p)) (t_next (T pos)) zs None \<Longrightarrow>
   del_search T d pos =
     (if d \<in> set zs then Some (Some (last (pos # takeWhile (\<lambda>x. x \<noteq> d) zs))) else Some None)"
proof (induction zs arbitrary: pos)
  case Nil
  then show ?case by (simp add: del_search.simps)
next
  case (Cons z zs)
  then have n: "t_next (T pos) = Some z" and l: "lseg (\<lambda>p. t_next (T p)) (t_next (T z)) zs None" by auto
  show ?case
  proof (cases "z = d")
    case True
    then show ?thesis by (simp add: del_search.simps [of T d pos] n)
  next
    case False
    have "del_search T d pos = del_search T d z"
      using False by (simp add: del_search.simps [of T d pos] n)
    also note Cons.IH [OF l]
    finally show ?thesis using False by auto
  qed
qed

section \<open>The list of scheduled timers\<close>

text \<open>
  The representation invariant: from \<open>timer_list\<close> the nodes \<open>xs\<close> are reached and then null; the
  sentinel is last, half a period after the periodic timer, which is listed; the deleted timer
  is at most the first.
\<close>

definition tchain :: "'s sched_scheme \<Rightarrow> tptr list \<Rightarrow> bool" where
  "tchain s xs \<longleftrightarrow> lseg (nextp s) (Some (timer_list s)) xs None
     \<and> xs \<noteq> [] \<and> last xs = Sentinel_timer \<and> Periodic_timer \<in> set xs \<and> Deleted_timer \<notin> set (tl xs)
     \<and> waketime s Sentinel_timer = waketime s Periodic_timer + 0x80000000"

text \<open>Inserting behind every timer the new one is not before.\<close>

definition tinsert :: "'s sched_scheme \<Rightarrow> u32 \<Rightarrow> tptr \<Rightarrow> tptr list \<Rightarrow> tptr list" where
  "tinsert s w t xs = takeWhile (\<lambda>x. \<not> timer_is_before w (waketime s x)) xs @ t #
     dropWhile (\<lambda>x. \<not> timer_is_before w (waketime s x)) xs"

lemma set_tinsert [simp]: "set (tinsert s w t xs) = insert t (set xs)"
  by (metis tinsert_def set_append list.set(2) Un_insert_right takeWhile_dropWhile_id)

lemma tinsert_not_Nil [simp]: "tinsert s w t xs \<noteq> []"
  by (simp add: tinsert_def)

lemma tinsert_cong: "(\<And>x. waketime s x = waketime s' x) \<Longrightarrow> tinsert s w t xs = tinsert s' w t xs"
  by (simp add: tinsert_def)

lemma insert_timer_ok:
  assumes chain: "lseg (nextp s) h (as @ pos # zs) None"
    and new: "t \<notin> set (as @ pos # zs)"
    and ex: "\<exists>x\<in>set zs. timer_is_before w (waketime s x)"
  obtains prev y where
    "insert_timer pos t w s = (Inr (), set_next prev (Some t) (set_next t (Some y) s))"
    "lseg (nextp (set_next prev (Some t) (set_next t (Some y) s))) h (as @ pos # tinsert s w t zs) None"
proof -
  let ?P = "\<lambda>x. \<not> timer_is_before w (waketime s x)"
  let ?us = "takeWhile ?P zs"
  obtain y vs where d: "dropWhile ?P zs = y # vs"
    using ex by (metis dropWhile_eq_Nil_conv neq_Nil_conv)
  have zs: "zs = ?us @ y # vs" using d by (metis takeWhile_dropWhile_id)
  have l: "lseg (nextp s) (nextp s pos) zs None" using chain by auto
  have r: "insert_search (timers s) w pos = Some (Some (last (pos # ?us), y))"
    using insert_search_list [OF l, of w] d by simp
  define prev where "prev = last (pos # ?us)"
  define pre where "pre = as @ butlast (pos # ?us)"
  have e: "as @ pos # zs = pre @ prev # y # vs"
    by (subst zs) (simp add: pre_def prev_def)
  have ny: "nextp s prev = Some y" using chain unfolding e by auto
  have "lseg ((nextp s)(t := nextp s prev, prev := Some t)) h (pre @ prev # t # y # vs) None"
    by (rule lseg_link) (use chain new e in auto)
  moreover have "pre @ prev # t # y # vs = as @ pos # tinsert s w t zs"
    by (simp add: pre_def prev_def tinsert_def d)
  ultimately have "lseg (nextp (set_next prev (Some t) (set_next t (Some y) s))) h
      (as @ pos # tinsert s w t zs) None"
    by (simp only: set_next_simps ny)
  moreover have "insert_timer pos t w s = (Inr (), set_next prev (Some t) (set_next t (Some y) s))"
    by (simp only: insert_timer_def r option.case prod.case prev_def)
  ultimately show thesis by (intro that)
qed

section \<open>Adding a timer\<close>

text \<open>The claim made in the source about the sentinel: the search always finds a place.\<close>

lemma sentinel_stops:
  assumes "tchain s xs"
  shows "\<exists>x\<in>set xs. timer_is_before w (waketime s x)"
proof -
  have "timer_is_before w (waketime s Periodic_timer) \<or> timer_is_before w (waketime s Sentinel_timer)"
    using assms by (auto simp: tchain_def timer_is_before_half)
  moreover have "Periodic_timer \<in> set xs" "Sentinel_timer \<in> set xs"
    using assms last_in_set [of xs] by (auto simp: tchain_def)
  ultimately show ?thesis by blast
qed

text \<open>Timers that clients may schedule: the embedded ones and the board's wrap timer.\<close>

definition user_timer :: "tptr \<Rightarrow> bool" where
  "user_timer t \<longleftrightarrow> t \<noteq> Periodic_timer \<and> t \<noteq> Sentinel_timer \<and> t \<noteq> Deleted_timer"

lemma tchain_cases:
  assumes "tchain s xs"
  obtains zs where "xs = timer_list s # zs" "lseg (nextp s) (nextp s (timer_list s)) zs None"
    "distinct xs"
  using assms lseg_distinct [of "nextp s" "Some (timer_list s)" xs]
  by (auto simp: tchain_def neq_Nil_conv)

lemma last_tinsert: "dropWhile (\<lambda>x. \<not> timer_is_before w (waketime s x)) xs \<noteq> [] \<Longrightarrow> last (tinsert s w t xs) = last xs"
  by (metis (mono_tags, lifting) tinsert_def last_appendR last_ConsR list.distinct(1) takeWhile_dropWhile_id)

lemma add_timer_late:
  assumes c: "tchain s xs" and t: "user_timer t" "t \<notin> set xs"
    and w: "w = waketime s t" "\<not> timer_is_before w (waketime s (timer_list s))"
  obtains s' where "sched_add_timer f t s = (Inr (), s')" "tchain s' (tinsert s w t xs)"
    "\<And>q. waketime s' q = waketime s q" "last_insert s' = last_insert s"
proof -
  obtain zs where xs: "xs = timer_list s # zs" and l: "lseg (nextp s) (nextp s (timer_list s)) zs None"
    using tchain_cases [OF c] by metis
  have ex: "\<exists>x\<in>set zs. timer_is_before w (waketime s x)"
    using sentinel_stops [OF c, of w] w xs by auto
  have l0: "lseg (nextp s) (Some (timer_list s)) ([] @ timer_list s # zs) None"
    using c xs by (simp add: tchain_def)
  have new: "t \<notin> set ([] @ timer_list s # zs)" using t xs by simp
  obtain prev y where r: "insert_timer (timer_list s) t w s = (Inr (), set_next prev (Some t) (set_next t (Some y) s))"
    and ch: "lseg (nextp (set_next prev (Some t) (set_next t (Some y) s))) (Some (timer_list s))
      ([] @ timer_list s # tinsert s w t zs) None"
    by (rule insert_timer_ok [OF l0 new ex])
  let ?s = "set_next prev (Some t) (set_next t (Some y) s)"
  have ti: "tinsert s w t xs = timer_list s # tinsert s w t zs"
    using w by (simp add: tinsert_def xs)
  have ne: "dropWhile (\<lambda>x. \<not> timer_is_before w (waketime s x)) zs \<noteq> []" using ex by simp
  then have "zs \<noteq> []" by auto
  then have "tchain ?s (timer_list s # tinsert s w t zs)"
    using c ch last_tinsert [OF ne, of t] t by (auto simp: tchain_def xs user_timer_def)
  moreover have "sched_add_timer f t s = (Inr (), ?s)"
    using w r by (simp add: sched_add_timer_def mbind_def)
  ultimately show thesis by (intro that [of ?s]) (simp_all add: ti)
qed


lemma tchain_cong:
  assumes "tchain s xs" "timers s' = timers s" "timer_list s' = timer_list s"
  shows "tchain s' xs"
  using assms by (simp add: tchain_def)

text \<open>The timers that wait to run: the placeholder of a deleted timer is not one of them.\<close>

definition pending :: "tptr list \<Rightarrow> tptr list" where
  "pending xs = filter (\<lambda>x. x \<noteq> Deleted_timer) xs"

lemma pending_head:
  assumes "tchain s xs"
  shows "lseg (nextp s) (if timer_list s = Deleted_timer then nextp s Deleted_timer else Some (timer_list s))
           (pending xs) None"
proof -
  obtain zs where xs: "xs = timer_list s # zs" and l: "lseg (nextp s) (nextp s (timer_list s)) zs None"
    using tchain_cases [OF assms] by metis
  have "Deleted_timer \<notin> set zs" using assms xs by (simp add: tchain_def)
  then have "filter (\<lambda>x. x \<noteq> Deleted_timer) zs = zs" by (auto simp: filter_id_conv)
  then show ?thesis using l by (auto simp: pending_def xs)
qed

lemma check_close_ok:
  assumes "\<not> timer_is_before w (clk s (clk_n s)) \<or> shutdown_status s \<noteq> 0"
  obtains s1 where "sched_check_close f w s = (Inr (), s1)"
    "timers s1 = timers s" "timer_list s1 = timer_list s" "last_insert s1 = last_insert s"
proof -
  let ?s = "snd (sched_check_close f w s)"
  have "sched_check_close f w s = (Inr (), ?s)"
    "timers ?s = timers s" "timer_list ?s = timer_list s" "last_insert ?s = last_insert s"
    using assms by (auto simp: sched_check_close_def sched_try_shutdown_def run_simps)
  then show thesis by (rule that)
qed

lemma add_first_run:
  "sched_add_first t w s = (Inr (), (set_next Deleted_timer (Some t) (set_wake Deleted_timer w (set_next t
     (if timer_list s = Deleted_timer then nextp s Deleted_timer else Some (timer_list s)) s)))
     \<lparr>timer_list := Deleted_timer, kicks := Suc (kicks s)\<rparr>)"
  by (simp add: sched_add_first_def run_simps timer_kick_def)

text \<open>A time before the first entry: the timer becomes the first, behind the placeholder.\<close>

lemma add_timer_early:
  assumes c: "tchain s xs" and t: "user_timer t" "t \<notin> set xs"
    and w: "w = waketime s t" "timer_is_before w (waketime s (timer_list s))"
    and ok: "\<not> timer_is_before w (clk s (clk_n s)) \<or> shutdown_status s \<noteq> 0"
  obtains s' where "sched_add_timer f t s = (Inr (), s')" "tchain s' (Deleted_timer # t # pending xs)"
    "\<And>q. q \<noteq> Deleted_timer \<Longrightarrow> waketime s' q = waketime s q" "waketime s' Deleted_timer = w"
    "last_insert s' = last_insert s"
proof -
  let ?h = "if timer_list s = Deleted_timer then nextp s Deleted_timer else Some (timer_list s)"
  obtain s1 where s1: "timers s1 = timers s" "timer_list s1 = timer_list s" "last_insert s1 = last_insert s"
    and k: "sched_check_close f w s = (Inr (), s1)" using check_close_ok [OF ok] by metis
  have r: "sched_add_timer f t s = (Inr (), (set_next Deleted_timer (Some t)
        (set_wake Deleted_timer w (set_next t ?h s1)))\<lparr>timer_list := Deleted_timer, kicks := Suc (kicks s1)\<rparr>)"
    using w mseq_Inr [where m = "sched_check_close f w" and n = "sched_add_first t w", OF k]
    by (simp add: sched_add_timer_def mbind_def add_first_run s1)
  let ?s = "(set_next Deleted_timer (Some t)
        (set_wake Deleted_timer w (set_next t ?h s1)))\<lparr>timer_list := Deleted_timer, kicks := Suc (kicks s1)\<rparr>"
  have nx: "nextp ?s = (nextp s)(t := ?h, Deleted_timer := Some t)"
    by (simp add: set_next_def set_wake_def s1 fun_eq_iff)
  have wk: "waketime ?s q = (if q = Deleted_timer then w else waketime s q)" for q
    by (simp add: s1)
  have "Deleted_timer \<notin> set (pending xs)" "t \<notin> set (pending xs)" using t by (simp_all add: pending_def)
  then have "lseg (nextp ?s) (Some Deleted_timer) (Deleted_timer # t # pending xs) None"
    unfolding nx using pending_head [OF c] t by (auto simp: user_timer_def)
  moreover have "last (pending xs) = Sentinel_timer" "pending xs \<noteq> []" "Periodic_timer \<in> set (pending xs)"
  proof -
    obtain ys where "xs = ys @ [Sentinel_timer]" using c by (metis tchain_def append_butlast_last_id)
    then have "pending xs = pending ys @ [Sentinel_timer]" by (simp add: pending_def)
    then show "last (pending xs) = Sentinel_timer" "pending xs \<noteq> []" by simp_all
    show "Periodic_timer \<in> set (pending xs)" using c by (simp add: pending_def tchain_def)
  qed
  ultimately have "tchain ?s (Deleted_timer # t # pending xs)"
    unfolding tchain_def using c t by (auto simp: tchain_def user_timer_def pending_def s1)
  then show thesis
    by (rule that [OF r]) (use s1 wk in auto)
qed

text \<open>A time already past: the call leaves through \<open>shutdown\<close> before it touches the list.\<close>

lemma add_timer_past:
  assumes "timer_is_before (waketime s t) (waketime s (timer_list s))"
    "timer_is_before (waketime s t) (clk s (clk_n s))" "shutdown_status s = 0"
  shows "fst (sched_add_timer f t s) = Inl (Shutdown ''Timer too close'')"
    and "timers (snd (sched_add_timer f t s)) = timers s"
    and "timer_list (snd (sched_add_timer f t s)) = timer_list s"
    and "last_insert (snd (sched_add_timer f t s)) = last_insert s"
  using assms by (simp_all add: sched_add_timer_def sched_check_close_def run_simps sched_try_shutdown_def)

section \<open>Deleting a timer and emptying the list\<close>

lemma del_timer_ok:
  assumes c: "tchain s xs" and t: "user_timer t"
  obtains s' where "sched_del_timer t s = (Inr (), s')"
    "tchain s' (if timer_list s = t then Deleted_timer # tl xs else removeAll t xs)"
    "\<And>q. q \<noteq> Deleted_timer \<Longrightarrow> waketime s' q = waketime s q"
    "waketime s' Deleted_timer = (if timer_list s = t then waketime s t else waketime s Deleted_timer)"
    "last_insert s' = (if last_insert s = t then Periodic_timer else last_insert s)"
proof -
  obtain zs where xs: "xs = timer_list s # zs" and l: "lseg (nextp s) (nextp s (timer_list s)) zs None"
    and d: "distinct xs" using tchain_cases [OF c] by metis
  show thesis
  proof (cases "timer_list s = t")
    case True
    let ?s = "(set_next Deleted_timer (nextp s t) (set_wake Deleted_timer (waketime s t) s))
      \<lparr>timer_list := Deleted_timer, last_insert := if last_insert s = t then Periodic_timer else last_insert s\<rparr>"
    have "sched_del_timer t s = (Inr (), ?s)"
      using True by (simp add: sched_del_timer_def run_simps set_next_def set_wake_def)
    moreover have "tchain ?s (Deleted_timer # zs)"
    proof -
      have nx: "nextp ?s = (nextp s)(Deleted_timer := nextp s t)"
        by (simp add: set_next_def set_wake_def fun_eq_iff)
      have "Deleted_timer \<notin> set zs" using c xs by (simp add: tchain_def)
      then have "lseg (nextp ?s) (Some Deleted_timer) (Deleted_timer # zs) None"
        unfolding nx using l True by simp
      then show ?thesis
        using c t True by (auto simp: tchain_def xs user_timer_def set_next_def set_wake_def split: if_splits)
    qed
    ultimately show thesis
      by (intro that [of ?s]) (use True xs in \<open>auto simp: set_next_def set_wake_def\<close>)
  next
    case F: False
    note ds = del_search_list [OF l, of t]
    show thesis
    proof (cases "t \<in> set zs")
      case True
      let ?pos = "last (timer_list s # takeWhile (\<lambda>x. x \<noteq> t) zs)"
      let ?s = "(set_next ?pos (nextp s t) s)
        \<lparr>last_insert := if last_insert s = t then Periodic_timer else last_insert s\<rparr>"
      have "sched_del_timer t s = (Inr (), ?s)"
        using F True ds by (simp add: sched_del_timer_def run_simps set_next_def)
      moreover have "tchain ?s (removeAll t xs)"
      proof -
        obtain us vs where z: "zs = us @ t # vs" "t \<notin> set us" by (metis True split_list_first)
        have tw: "takeWhile (\<lambda>x. x \<noteq> t) zs = us" using z by (auto simp: takeWhile_append)
        have ra: "removeAll t xs = butlast (timer_list s # us) @ last (timer_list s # us) # vs"
          using z d F by (auto simp: xs)
        have "lseg (nextp s) (Some (timer_list s)) (butlast (timer_list s # us) @ last (timer_list s # us) # t # vs) None"
        proof -
          have "butlast (timer_list s # us) @ last (timer_list s # us) # t # vs = xs"
            by (cases us rule: rev_cases) (simp_all add: xs z)
          then show ?thesis using c by (simp only: tchain_def)
        qed
        from lseg_unlink [OF this] have "lseg (nextp ?s) (Some (timer_list s)) (removeAll t xs) None"
          unfolding ra tw by (simp only: set_next_simps set_hw_simps)
        moreover have "last vs = Sentinel_timer" "vs \<noteq> []"
          using c t by (auto simp: tchain_def xs z user_timer_def split: if_splits)
        then have "last (removeAll t xs) = Sentinel_timer" "removeAll t xs \<noteq> []" by (simp_all add: ra)
        moreover have "set (tl (removeAll t xs)) \<subseteq> set (tl xs)" using F by (auto simp: xs)
        moreover have "Periodic_timer \<in> set (removeAll t xs)"
          using c t by (auto simp: tchain_def user_timer_def)
        ultimately show ?thesis
          using c unfolding tchain_def by auto
      qed
      ultimately show thesis
        by (intro that [of ?s]) (use F in \<open>auto simp: set_next_def\<close>)
    next
      case False
      let ?s = "s\<lparr>last_insert := if last_insert s = t then Periodic_timer else last_insert s\<rparr>"
      have "sched_del_timer t s = (Inr (), ?s)"
        using F False ds by (simp add: sched_del_timer_def run_simps)
      moreover have "tchain ?s (removeAll t xs)"
        using c F False by (simp add: xs tchain_def)
      ultimately show thesis by (intro that [of ?s]) (use F in auto)
    qed
  qed
qed


lemma timer_reset_ok:
  assumes "waketime s Sentinel_timer = waketime s Periodic_timer + 0x80000000"
    "nextp s Sentinel_timer = None"
  obtains s' where "sched_timer_reset s = (Inr (), s')"
    "tchain s' [Deleted_timer, Periodic_timer, Sentinel_timer]"
    "\<And>q. q \<noteq> Deleted_timer \<Longrightarrow> waketime s' q = waketime s q"
    "waketime s' Deleted_timer = waketime s Periodic_timer" "last_insert s' = Periodic_timer"
proof -
  let ?s = "(set_next Periodic_timer (Some Sentinel_timer) (set_next Deleted_timer (Some Periodic_timer)
     ((set_wake Deleted_timer (waketime s Periodic_timer) (s\<lparr>timer_list := Deleted_timer\<rparr>))
       \<lparr>last_insert := Periodic_timer\<rparr>)))\<lparr>kicks := Suc (kicks s)\<rparr>"
  have "sched_timer_reset s = (Inr (), ?s)"
    by (simp add: sched_timer_reset_def run_simps timer_kick_def set_next_def set_wake_def)
  moreover have "tchain ?s [Deleted_timer, Periodic_timer, Sentinel_timer]"
    using assms by (simp add: tchain_def set_next_def set_wake_def)
  ultimately show thesis by (rule that) (simp_all add: set_next_def set_wake_def)
qed

section \<open>The list is in the order of the waketimes\<close>

text \<open>
  Times are compared across the wrap of the clock, so an order exists only relative to a base
  time: every scheduled time lies within half a period after the base.
\<close>

definition torder :: "u32 \<Rightarrow> 's sched_scheme \<Rightarrow> tptr list \<Rightarrow> bool" where
  "torder b s ys \<longleftrightarrow> sorted_wrt (\<lambda>x y. since b (waketime s x) \<le> since b (waketime s y)) ys
     \<and> (\<forall>x\<in>set ys. in_window b (waketime s x))"

text \<open>The invariant of the scheduler: the chain, its order, and where the last insert points.\<close>

definition timer_inv :: "u32 \<Rightarrow> 's sched_scheme \<Rightarrow> tptr list \<Rightarrow> bool" where
  "timer_inv b s xs \<longleftrightarrow> tchain s xs \<and> torder b s (butlast xs)
     \<and> last_insert s \<in> set (butlast xs) \<and> last_insert s \<noteq> Deleted_timer"

lemma tinsert_simps:
  "tinsert s w t [] = [t]"
  "tinsert s w t (y # ys) = (if timer_is_before w (waketime s y) then t # y # ys else y # tinsert s w t ys)"
  by (simp_all add: tinsert_def)

lemma torder_simps [simp]:
  "torder b s [] \<longleftrightarrow> True"
  "torder b s (y # ys) \<longleftrightarrow> in_window b (waketime s y) \<and> torder b s ys
     \<and> (\<forall>x\<in>set ys. since b (waketime s y) \<le> since b (waketime s x))"
  by (auto simp: torder_def)

lemma torder_append:
  "torder b s (xs @ ys) \<longleftrightarrow> torder b s xs \<and> torder b s ys
     \<and> (\<forall>x\<in>set xs. \<forall>y\<in>set ys. since b (waketime s x) \<le> since b (waketime s y))"
  by (auto simp: torder_def sorted_wrt_append)

lemma torder_cong:
  "torder b s ys \<Longrightarrow> (\<And>x. x \<in> set ys \<Longrightarrow> waketime s' x = waketime s x) \<Longrightarrow> torder b s' ys"
  by (induction ys) auto

lemma torder_tinsert:
  assumes "torder b s ys" "in_window b w" "waketime s t = w"
  shows "torder b s (tinsert s w t ys)"
  using assms
  by (induction ys) (auto simp: tinsert_simps timer_is_before_since [of b])

lemma torder_filter: "torder b s ys \<Longrightarrow> torder b s (filter P ys)"
  by (induction ys) auto

text \<open>The sentinel stays behind every time of the window.\<close>

lemma tinsert_snoc:
  "\<exists>x\<in>set (ys @ [z]). timer_is_before w (waketime s x) \<Longrightarrow>
   tinsert s w t (ys @ [z]) = tinsert s w t ys @ [z]"
  by (induction ys) (auto simp: tinsert_simps)

lemma tinsert_sentinel:
  assumes c: "tchain s (ys @ [Sentinel_timer])"
  shows "tinsert s w t (ys @ [Sentinel_timer]) = tinsert s w t ys @ [Sentinel_timer]"
  using sentinel_stops [OF c] by (rule tinsert_snoc)

lemma timer_inv_cases:
  assumes "timer_inv b s xs"
  obtains ys where "xs = ys @ [Sentinel_timer]" "tchain s (ys @ [Sentinel_timer])" "torder b s ys"
    "last_insert s \<in> set ys" "last_insert s \<noteq> Deleted_timer"
proof -
  have "xs = butlast xs @ [Sentinel_timer]"
    using assms by (metis timer_inv_def tchain_def append_butlast_last_id)
  then show thesis using that [of "butlast xs"] assms by (simp add: timer_inv_def)
qed

lemma timer_invI:
  assumes "tchain s (ys @ [Sentinel_timer])" "torder b s ys"
    "last_insert s \<in> set ys" "last_insert s \<noteq> Deleted_timer"
  shows "timer_inv b s (ys @ [Sentinel_timer])"
  using assms by (simp add: timer_inv_def)


lemma add_timer_inv:
  assumes inv: "timer_inv b s xs" and t: "user_timer t" "t \<notin> set xs"
    and w: "in_window b (waketime s t)"
    and ok: "\<not> timer_is_before (waketime s t) (clk s (clk_n s)) \<or> shutdown_status s \<noteq> 0"
  obtains s' xs' where "sched_add_timer f t s = (Inr (), s')" "timer_inv b s' xs'"
    "pending xs' = tinsert s (waketime s t) t (pending xs)"
    "\<And>q. q \<noteq> Deleted_timer \<Longrightarrow> waketime s' q = waketime s q"
proof -
  obtain ys where xs: "xs = ys @ [Sentinel_timer]" and c: "tchain s (ys @ [Sentinel_timer])"
    and o: "torder b s ys" and li: "last_insert s \<in> set ys" "last_insert s \<noteq> Deleted_timer"
    by (rule timer_inv_cases [OF inv])
  have t': "t \<notin> set (ys @ [Sentinel_timer])" using t xs by simp
  have ne: "ys \<noteq> []" using li by auto
  then obtain h hs where ys: "ys = h # hs" by (cases ys) auto
  have h: "timer_list s = h" using c ys by (simp add: tchain_def)
  have dh: "Deleted_timer \<notin> set hs" using c by (simp add: tchain_def ys)
  show thesis
  proof (cases "timer_is_before (waketime s t) (waketime s (timer_list s))")
    case True
    obtain s' where r: "sched_add_timer f t s = (Inr (), s')"
      and c': "tchain s' (Deleted_timer # t # pending (ys @ [Sentinel_timer]))"
      and wk: "\<And>q. q \<noteq> Deleted_timer \<Longrightarrow> waketime s' q = waketime s q"
      and wd: "waketime s' Deleted_timer = waketime s t" and l': "last_insert s' = last_insert s"
      using add_timer_early [OF c t(1) t' refl True ok, where f = f] by metis
    have lt: "\<forall>x\<in>set ys. since b (waketime s t) < since b (waketime s x)"
      using o ys h True w by (auto simp: timer_is_before_since [of b])
    have p: "pending (ys @ [Sentinel_timer]) = pending ys @ [Sentinel_timer]" by (simp add: pending_def)
    have op: "torder b s' (pending ys)"
      unfolding pending_def by (rule torder_cong [OF torder_filter [OF o]]) (simp add: wk)
    have "torder b s' (Deleted_timer # t # pending ys)"
      using op w wd wk [of t] t lt by (auto simp: pending_def user_timer_def wk intro: less_imp_le)
    moreover have "last_insert s' \<in> set (pending ys)" using li by (simp add: l' pending_def)
    ultimately have i: "timer_inv b s' ((Deleted_timer # t # pending ys) @ [Sentinel_timer])"
      using c' li by (intro timer_invI) (simp_all add: p l')
    have "\<forall>x\<in>set (pending ys). timer_is_before (waketime s t) (waketime s x)"
      using lt o w by (auto simp: pending_def torder_def timer_is_before_since [of b])
    moreover have "pending ys \<noteq> []" using li by (auto simp: pending_def filter_empty_conv)
    ultimately have "t # pending ys @ [Sentinel_timer] = tinsert s (waketime s t) t (pending ys @ [Sentinel_timer])"
      by (cases "pending ys") (simp_all add: tinsert_simps)
    moreover have "pending ((Deleted_timer # t # pending ys) @ [Sentinel_timer]) = t # pending ys @ [Sentinel_timer]"
      using t by (simp add: pending_def user_timer_def)
    ultimately show thesis using that [OF r i] wk by (simp add: xs p)
  next
    case False
    obtain s' where r: "sched_add_timer f t s = (Inr (), s')"
      and c': "tchain s' (tinsert s (waketime s t) t (ys @ [Sentinel_timer]))"
      and wk: "\<And>q. waketime s' q = waketime s q" and l': "last_insert s' = last_insert s"
      using add_timer_late [OF c t(1) t' refl False, where f = f] by metis
    have "torder b s' (tinsert s (waketime s t) t ys)"
      using torder_tinsert [OF o w refl] by (rule torder_cong) (rule wk)
    then have i: "timer_inv b s' (tinsert s (waketime s t) t (ys @ [Sentinel_timer]))"
      using c' li unfolding tinsert_sentinel [OF c] by (intro timer_invI) (simp_all add: l')
    have "pending (tinsert s (waketime s t) t (h # hs @ [Sentinel_timer]))
        = tinsert s (waketime s t) t (pending (h # hs @ [Sentinel_timer]))"
    proof -
      have nt: "t \<noteq> Deleted_timer" using t by (simp add: user_timer_def)
      have q: "filter (\<lambda>x. x \<noteq> Deleted_timer) zs = zs" if "Deleted_timer \<notin> set zs" for zs
        using that by (auto simp: filter_id_conv)
      show ?thesis using False h dh nt by (simp add: tinsert_simps pending_def q)
    qed
    then show thesis using that [OF r i] wk by (simp add: xs ys)
  qed
qed

lemma del_timer_inv:
  assumes inv: "timer_inv b s xs" and t: "user_timer t"
  obtains s' xs' where "sched_del_timer t s = (Inr (), s')" "timer_inv b s' xs'"
    "pending xs' = removeAll t (pending xs)"
    "\<And>q. q \<noteq> Deleted_timer \<Longrightarrow> waketime s' q = waketime s q"
proof -
  obtain ys where xs: "xs = ys @ [Sentinel_timer]" and c: "tchain s (ys @ [Sentinel_timer])"
    and o: "torder b s ys" and li: "last_insert s \<in> set ys" "last_insert s \<noteq> Deleted_timer"
    by (rule timer_inv_cases [OF inv])
  have "ys \<noteq> []" using li by auto
  then obtain h hs where ys: "ys = h # hs" by (cases ys) auto
  have h: "timer_list s = h" using c ys by (simp add: tchain_def)
  have dist: "distinct ys" using tchain_cases [OF c] by (metis distinct_append)
  have pe: "Periodic_timer \<in> set ys" using c by (simp add: tchain_def)
  let ?ys = "if h = t then Deleted_timer # hs else removeAll t ys"
  obtain s' where r: "sched_del_timer t s = (Inr (), s')"
    and c': "tchain s' (if timer_list s = t then Deleted_timer # tl (ys @ [Sentinel_timer])
               else removeAll t (ys @ [Sentinel_timer]))"
    and wk: "\<And>q. q \<noteq> Deleted_timer \<Longrightarrow> waketime s' q = waketime s q"
    and wd: "waketime s' Deleted_timer = (if timer_list s = t then waketime s t else waketime s Deleted_timer)"
    and l': "last_insert s' = (if last_insert s = t then Periodic_timer else last_insert s)"
    using del_timer_ok [OF c t] by metis
  have e: "(if timer_list s = t then Deleted_timer # tl (ys @ [Sentinel_timer])
      else removeAll t (ys @ [Sentinel_timer])) = ?ys @ [Sentinel_timer]"
    using t by (auto simp: h ys user_timer_def)
  have wk': "waketime s' q = waketime s q" if "h \<noteq> t" for q using wk wd that h by (cases "q = Deleted_timer") auto
  have "torder b s' ?ys"
  proof (cases "h = t")
    case True
    have "waketime s' x = waketime s x" if "x \<in> set hs" for x
      using c that by (intro wk) (auto simp: tchain_def ys)
    then show ?thesis using o wd True h torder_cong [of b s hs s'] by (simp add: ys)
  next
    case False
    then show ?thesis
      using torder_cong [OF torder_filter [OF o], of "\<lambda>x. t \<noteq> x" s'] wk' by (simp add: removeAll_filter_not_eq)
  qed
  moreover have "last_insert s' \<in> set ?ys" "last_insert s' \<noteq> Deleted_timer"
    using li pe t by (auto simp: l' ys user_timer_def)
  ultimately have i: "timer_inv b s' (?ys @ [Sentinel_timer])"
    using c' unfolding e by (intro timer_invI)
  have "pending (?ys @ [Sentinel_timer]) = removeAll t (pending xs)"
    using dist t by (auto simp: xs ys pending_def user_timer_def removeAll_filter_not_eq conj_commute
        intro!: filter_cong)
  then show thesis using that [OF r i] wk by simp
qed


section \<open>Dispatching a timer\<close>

text \<open>From the last insert point the search finds what it finds from the start of the list.\<close>

lemma insert_from:
  assumes l: "lseg (nextp s) h (ys @ [Sentinel_timer]) None" and o: "torder b s ys"
    and pos: "pos \<in> set ys" "\<not> timer_is_before w (waketime s pos)" and w: "in_window b w"
    and t: "t \<notin> set ys" "t \<noteq> Sentinel_timer"
    and stop: "timer_is_before w (waketime s Sentinel_timer) \<or> (\<exists>x\<in>set ys. timer_is_before w (waketime s x))"
  obtains prev y where
    "insert_timer pos t w s = (Inr (), set_next prev (Some t) (set_next t (Some y) s))"
    "lseg (nextp (set_next prev (Some t) (set_next t (Some y) s))) h (tinsert s w t (ys @ [Sentinel_timer])) None"
proof -
  obtain as bs where ys: "ys = as @ pos # bs" using pos by (meson split_list)
  have low: "\<not> timer_is_before w (waketime s x)" if "x \<in> set (as @ [pos])" for x
  proof -
    have "in_window b (waketime s x)" "since b (waketime s x) \<le> since b (waketime s pos)"
      "in_window b (waketime s pos)"
      using that o unfolding ys by (auto simp: torder_def sorted_wrt_append)
    then show ?thesis using pos w by (simp add: timer_is_before_since [of b])
  qed
  have ex: "\<exists>x\<in>set (bs @ [Sentinel_timer]). timer_is_before w (waketime s x)"
    using stop low unfolding ys by auto
  have e: "ys @ [Sentinel_timer] = as @ pos # bs @ [Sentinel_timer]" by (simp add: ys)
  have nt: "t \<notin> set (as @ pos # bs @ [Sentinel_timer])" using t by (auto simp: ys)
  have "tinsert s w t (as @ pos # bs @ [Sentinel_timer]) = as @ pos # tinsert s w t (bs @ [Sentinel_timer])"
    using low by (simp add: tinsert_def)
  then show thesis
    using insert_timer_ok [OF l [unfolded e] nt ex] that unfolding e by metis
qed

text \<open>The state behind the callback: the first timer may have any new time in the window.\<close>

definition timer_inv_run :: "u32 \<Rightarrow> 's sched_scheme \<Rightarrow> tptr \<Rightarrow> tptr list \<Rightarrow> bool" where
  "timer_inv_run b s t zs \<longleftrightarrow> tchain s (t # zs) \<and> torder b s (butlast zs) \<and> t \<noteq> Sentinel_timer
     \<and> last_insert s \<in> set (butlast (t # zs)) \<and> last_insert s \<noteq> Deleted_timer"

lemma timer_inv_run_cases:
  assumes "timer_inv_run b s t zs"
  obtains ys where "zs = ys @ [Sentinel_timer]" "timer_list s = t" "t \<notin> set ys"
    "lseg (nextp s) (nextp s t) (ys @ [Sentinel_timer]) None" "torder b s ys" "Deleted_timer \<notin> set ys"
    "last_insert s = t \<or> last_insert s \<in> set ys" "t = Periodic_timer \<or> Periodic_timer \<in> set ys"
    "waketime s Sentinel_timer = waketime s Periodic_timer + 0x80000000"
proof -
  have c: "tchain s (t # zs)" using assms by (simp add: timer_inv_run_def)
  have "last (t # zs) = Sentinel_timer" "t \<noteq> Sentinel_timer"
    using assms by (simp_all add: timer_inv_run_def tchain_def)
  then have "zs \<noteq> []" "last zs = Sentinel_timer" by (auto split: if_splits)
  then have zs: "zs = butlast zs @ [Sentinel_timer]" by (metis append_butlast_last_id)
  have "distinct (t # zs)" using c by (metis tchain_cases)
  then have "t \<notin> set (butlast zs)" by (metis distinct.simps(2) in_set_butlastD)
  moreover have "Deleted_timer \<notin> set (butlast zs)"
    using c by (auto simp: tchain_def dest: in_set_butlastD)
  moreover have "last_insert s = t \<or> last_insert s \<in> set (butlast zs)"
    using assms \<open>zs \<noteq> []\<close> by (auto simp: timer_inv_run_def)
  moreover have "t = Periodic_timer \<or> Periodic_timer \<in> set (butlast zs)"
    using c zs by (metis UnE list.set(1) list.set(2) set_ConsD set_append singletonD tchain_def tptr.distinct(1))
  ultimately show thesis
    using that [of "butlast zs"] zs c assms by (auto simp: timer_inv_run_def tchain_def)
qed


lemma next_done:
  assumes i: "timer_inv_run b s t zs" and p: "t \<noteq> Periodic_timer"
  obtains s' where "sched_timer_next t SF_DONE s = (Inr (waketime s' (timer_list s')), s')"
    "timer_inv b s' zs" "timers s' = timers s"
proof -
  obtain ys where zs: "zs = ys @ [Sentinel_timer]" and tl: "timer_list s = t" "t \<notin> set ys"
    and l: "lseg (nextp s) (nextp s t) (ys @ [Sentinel_timer]) None" and o: "torder b s ys"
    and d: "Deleted_timer \<notin> set ys" and li: "last_insert s = t \<or> last_insert s \<in> set ys"
    and pe: "t = Periodic_timer \<or> Periodic_timer \<in> set ys"
    and sw: "waketime s Sentinel_timer = waketime s Periodic_timer + 0x80000000"
    by (rule timer_inv_run_cases [OF i])
  obtain y yr where ys: "ys = y # yr" using pe p by (cases ys) auto
  have nx: "nextp s t = Some y" using l ys by simp
  let ?s = "s\<lparr>timer_list := y, last_insert := if last_insert s = t then y else last_insert s\<rparr>"
  have "sched_timer_next t SF_DONE s = (Inr (waketime ?s (timer_list ?s)), ?s)"
    by (simp add: sched_timer_next_def run_simps nx deref_def)
  moreover have "timer_inv b ?s (ys @ [Sentinel_timer])"
    using l pe p d li sw o torder_cong [OF o, of ?s] nx
    by (intro timer_invI) (auto simp: tchain_def ys)
  ultimately show thesis using that [of ?s] zs by simp
qed

lemma next_reschedule:
  assumes i: "timer_inv_run b s t zs" and w: "in_window b (waketime s t)" and td: "t \<noteq> Deleted_timer"
  obtains s' where "sched_timer_next t SF_RESCHEDULE s = (Inr (waketime s' (timer_list s')), s')"
    "timer_inv b s' (tinsert s (waketime s t) t zs)" "\<And>q. waketime s' q = waketime s q"
proof -
  obtain ys where zs: "zs = ys @ [Sentinel_timer]" and tl: "timer_list s = t" "t \<notin> set ys"
    and l: "lseg (nextp s) (nextp s t) (ys @ [Sentinel_timer]) None" and o: "torder b s ys"
    and d: "Deleted_timer \<notin> set ys" and li: "last_insert s = t \<or> last_insert s \<in> set ys"
    and pe: "t = Periodic_timer \<or> Periodic_timer \<in> set ys"
    and sw: "waketime s Sentinel_timer = waketime s Periodic_timer + 0x80000000"
    by (rule timer_inv_run_cases [OF i])
  have ts: "t \<noteq> Sentinel_timer" using i by (simp add: timer_inv_run_def)
  define w where "w = waketime s t"
  have ww: "in_window b w" using assms by (simp add: w_def)
  have stop: "timer_is_before w (waketime s Sentinel_timer) \<or> (\<exists>x\<in>set ys. timer_is_before w (waketime s x))"
    using pe by (auto simp: sw timer_is_before_half w_def)
  then have ex: "\<exists>x\<in>set (ys @ [Sentinel_timer]). timer_is_before w (waketime s x)" by auto
  note ti = tinsert_snoc [OF ex, of t]
  obtain y yr where yr: "ys @ [Sentinel_timer] = y # yr" by (cases ys) auto
  have nx: "nextp s t = Some y" using l yr by simp
  show thesis
  proof (cases "timer_is_before w (waketime s y)")
    case True
    have e: "tinsert s w t zs = t # zs" using True by (simp add: zs yr tinsert_simps)
    have "sched_timer_next t SF_RESCHEDULE s = (Inr (waketime s (timer_list s)), s)"
      using True by (simp add: sched_timer_next_def run_simps nx deref_def w_def tl)
    moreover have "timer_inv b s (tinsert s w t zs)"
    proof -
      have "torder b s (tinsert s w t ys)" using torder_tinsert [OF o ww] by (simp add: w_def)
      moreover have "tchain s (tinsert s w t zs)" using i by (simp add: e timer_inv_run_def)
      ultimately show ?thesis
        unfolding zs ti using li i by (intro timer_invI) (auto simp: timer_inv_run_def)
    qed
    ultimately show thesis by (rule that [folded w_def]) simp
  next
    case False
    then have "ys \<noteq> []" using stop yr by (cases ys) auto
    then obtain yr' where ys: "ys = y # yr'" using yr by (cases ys) auto
    define s1 where "s1 = s\<lparr>timer_list := y\<rparr>"
    have s1: "timers s1 = timers s" "last_insert s1 = last_insert s" by (simp_all add: s1_def)
    define pos where "pos = (if timer_is_before w (waketime s (last_insert s)) \<or> last_insert s = t then y
      else last_insert s)"
    have same: "insert_timer t t w s1 = insert_timer y t w s1"
      using False nx by (simp add: insert_timer_def insert_search.simps [of "timers s" w t] s1)
    have pos: "pos \<in> set ys" "\<not> timer_is_before w (waketime s1 pos)"
      using li False by (auto simp: pos_def ys s1)
    have o1: "torder b s1 ys" using o by (rule torder_cong) (simp add: s1)
    obtain prev z where r: "insert_timer pos t w s1 = (Inr (), set_next prev (Some t) (set_next t (Some z) s1))"
      and l2: "lseg (nextp (set_next prev (Some t) (set_next t (Some z) s1))) (nextp s t)
        (tinsert s1 w t (ys @ [Sentinel_timer])) None"
      using insert_from [of s1 "nextp s t", OF _ o1 pos ww tl(2) ts] l stop by (auto simp: s1)
    let ?s = "(set_next prev (Some t) (set_next t (Some z) s1))\<lparr>last_insert := t\<rparr>"
    have "insert_timer (if timer_is_before w (waketime s (last_insert s)) then y else last_insert s) t w s1
        = (Inr (), set_next prev (Some t) (set_next t (Some z) s1))"
      using r same unfolding pos_def by (auto split: if_splits)
    then have run: "sched_timer_next t SF_RESCHEDULE s = (Inr (waketime ?s (timer_list ?s)), ?s)"
      using False
      by (cases "timer_is_before w (waketime s (last_insert s))")
        (simp_all add: sched_timer_next_def run_simps nx deref_def w_def [symmetric] s1_def)
    have tis: "tinsert s1 w t qs = tinsert s w t qs" for qs by (rule tinsert_cong) (simp add: s1)
    have "torder b ?s (tinsert s w t ys)"
      using torder_tinsert [OF o ww] by (rule torder_cong) (simp_all add: s1 w_def)
    moreover have "tchain ?s (tinsert s w t ys @ [Sentinel_timer])"
    proof -
      have "lseg (nextp ?s) (Some (timer_list ?s)) (tinsert s w t (ys @ [Sentinel_timer])) None"
        using l2 unfolding tis nx by (simp add: s1_def)
      moreover have "Deleted_timer \<notin> set (tl (tinsert s w t ys @ [Sentinel_timer]))"
        using d td list.set_sel(2) [of "tinsert s w t ys @ [Sentinel_timer]"] by auto
      ultimately show ?thesis
        using pe sw unfolding tchain_def ti by (auto simp: s1)
    qed
    ultimately have "timer_inv b ?s (tinsert s w t zs)"
      unfolding zs ti using td by (intro timer_invI) simp_all
    then show thesis using that [OF run] by (simp add: w_def s1)
  qed
qed


section \<open>The interface of the scheduler\<close>

text \<open>
  What the components that own timers rely on.  \<open>listed\<close> are the timers waiting to run and
  \<open>fits\<close> are the times for which the scheduler accepts a new timer in a state.
\<close>

locale timer_service =
  fixes inv :: "'s \<Rightarrow> bool" and listed :: "'s \<Rightarrow> 't set" and client :: "'t \<Rightarrow> bool"
    and time_of :: "'s \<Rightarrow> 't \<Rightarrow> u32" and set_time :: "'t \<Rightarrow> u32 \<Rightarrow> 's \<Rightarrow> 's"
    and fits :: "u32 \<Rightarrow> 's \<Rightarrow> bool"
    and add del :: "'t \<Rightarrow> ('s, unit) cmd"
  assumes del_law: "inv s \<Longrightarrow> client t \<Longrightarrow> \<exists>s'. del t s = (Inr (), s') \<and> inv s' \<and> listed s' = listed s - {t}
       \<and> (\<forall>q. client q \<longrightarrow> time_of s' q = time_of s q) \<and> (\<forall>w. fits w s' = fits w s)"
    and set_law: "inv s \<Longrightarrow> client t \<Longrightarrow> t \<notin> listed s \<Longrightarrow> inv (set_time t w s) \<and> listed (set_time t w s) = listed s
       \<and> (\<forall>q. time_of (set_time t w s) q = (if q = t then w else time_of s q))
       \<and> (\<forall>w'. fits w' (set_time t w s) = fits w' s)"
    and add_law: "inv s \<Longrightarrow> client t \<Longrightarrow> t \<notin> listed s \<Longrightarrow> fits (time_of s t) s \<Longrightarrow>
       \<exists>s'. add t s = (Inr (), s') \<and> inv s' \<and> listed s' = insert t (listed s)
       \<and> (\<forall>q. client q \<longrightarrow> time_of s' q = time_of s q)"
begin

text \<open>
  The pattern of every client: take the timer off the list, give it a time, put it back.
  It never fails for a time that fits, whether or not the timer was listed before.
\<close>

lemma move_timer:
  assumes "inv s" "client t" "fits w s"
  obtains s' where "mseq (del t) (mseq (modify (set_time t w)) (add t)) s = (Inr (), s')" "inv s'"
    "listed s' = insert t (listed s)" "time_of s' t = w"
    "\<And>q. client q \<Longrightarrow> q \<noteq> t \<Longrightarrow> time_of s' q = time_of s q"
proof -
  obtain s1 where s1: "del t s = (Inr (), s1)" "inv s1" "listed s1 = listed s - {t}"
    "\<forall>q. client q \<longrightarrow> time_of s1 q = time_of s q" "\<forall>w. fits w s1 = fits w s"
    using del_law [OF assms(1,2)] by blast
  let ?s2 = "set_time t w s1"
  have s2: "inv ?s2" "listed ?s2 = listed s1" "\<forall>q. time_of ?s2 q = (if q = t then w else time_of s1 q)"
    "\<forall>w'. fits w' ?s2 = fits w' s1"
    using set_law [OF s1(2) assms(2), of w] s1(3) by auto
  obtain s3 where s3: "add t ?s2 = (Inr (), s3)" "inv s3" "listed s3 = insert t (listed ?s2)"
    "\<forall>q. client q \<longrightarrow> time_of s3 q = time_of ?s2 q"
    using add_law [OF s2(1) assms(2)] s1 s2 assms(3) by auto
  have "mseq (del t) (mseq (modify (set_time t w)) (add t)) s = (Inr (), s3)"
    using s1(1) s3(1) by (simp add: run_simps)
  then show thesis
    by (rule that) (use s1 s2 s3 assms in auto)
qed

end

definition scheduled :: "'s sched_scheme \<Rightarrow> tptr set" where
  "scheduled s = {t. user_timer t \<and> (\<exists>xs. tchain s xs \<and> t \<in> set xs)}"

lemma tchain_unique: "tchain s xs \<Longrightarrow> tchain s ys \<Longrightarrow> xs = ys"
  by (auto simp: tchain_def dest: lseg_unique)

lemma scheduled_pending: "tchain s xs \<Longrightarrow> scheduled s = {t. user_timer t \<and> t \<in> set (pending xs)}"
proof -
  assume "tchain s xs"
  then have "tchain s ys \<longleftrightarrow> ys = xs" for ys using tchain_unique by metis
  then show ?thesis by (auto simp: scheduled_def pending_def user_timer_def)
qed

text \<open>The scheduler accepts a time of the window that is not past, or any time when shut down.\<close>

definition accepts :: "u32 \<Rightarrow> u32 \<Rightarrow> 's sched_scheme \<Rightarrow> bool" where
  "accepts b w s \<longleftrightarrow> in_window b w
     \<and> (\<not> timer_is_before w (clk s (clk_n s)) \<or> shutdown_status s \<noteq> 0)"

lemma del_timer_frame:
  "sched_del_timer t s = (r, s') \<Longrightarrow> clk s' = clk s \<and> clk_n s' = clk_n s \<and> shutdown_status s' = shutdown_status s"
  unfolding sched_del_timer_def
  by (auto simp: run_simps set_next_def set_wake_def split: option.splits if_splits)

lemma timer_inv_set_wake:
  assumes i: "timer_inv b s xs" and t: "user_timer t" "t \<notin> set xs"
  shows "timer_inv b (set_wake t w s) xs"
proof -
  have "torder b (set_wake t w s) (butlast xs)"
    by (rule torder_cong [of b s]) (use i t in \<open>auto simp: timer_inv_def dest: in_set_butlastD\<close>)
  then show ?thesis using i t by (auto simp: timer_inv_def tchain_def user_timer_def)
qed

interpretation timers: timer_service "\<lambda>s. \<exists>xs. timer_inv b s xs" scheduled user_timer waketime set_wake
  "accepts b" "sched_add_timer f" sched_del_timer for b f
proof
  fix s :: "'a sched_scheme" and t
  assume "\<exists>xs. timer_inv b s xs" "user_timer t"
  then obtain xs where i: "timer_inv b s xs" and t: "user_timer t" by blast
  then obtain s' xs' where r: "sched_del_timer t s = (Inr (), s')" "timer_inv b s' xs'"
    "pending xs' = removeAll t (pending xs)" "\<And>q. q \<noteq> Deleted_timer \<Longrightarrow> waketime s' q = waketime s q"
    using del_timer_inv by metis
  have c: "tchain s xs" "tchain s' xs'" using i r by (simp_all add: timer_inv_def)
  have "scheduled s' = scheduled s - {t}" using r(3) by (auto simp: scheduled_pending [OF c(1)] scheduled_pending [OF c(2)])
  then show "\<exists>s'. sched_del_timer t s = (Inr (), s') \<and> (\<exists>xs. timer_inv b s' xs) \<and> scheduled s' = scheduled s - {t}
      \<and> (\<forall>q. user_timer q \<longrightarrow> waketime s' q = waketime s q) \<and> (\<forall>w. accepts b w s' = accepts b w s)"
    using r del_timer_frame [OF r(1)] by (auto simp: user_timer_def accepts_def)
next
  fix s :: "'a sched_scheme" and t w
  assume "\<exists>xs. timer_inv b s xs" and t: "user_timer t" and n: "t \<notin> scheduled s"
  then obtain xs where i: "timer_inv b s xs" by blast
  have c: "tchain s xs" using i by (simp add: timer_inv_def)
  have "t \<notin> set xs" using n t c by (auto simp: scheduled_def)
  from timer_inv_set_wake [OF i t this, of w] have i': "timer_inv b (set_wake t w s) xs" .
  then have c': "tchain (set_wake t w s) xs" by (simp add: timer_inv_def)
  then show "(\<exists>xs. timer_inv b (set_wake t w s) xs) \<and> scheduled (set_wake t w s) = scheduled s
      \<and> (\<forall>q. waketime (set_wake t w s) q = (if q = t then w else waketime s q))
      \<and> (\<forall>w'. accepts b w' (set_wake t w s) = accepts b w' s)"
    using i' scheduled_pending [OF c] scheduled_pending [OF c']
    by (auto simp: accepts_def set_wake_def)
next
  fix s :: "'a sched_scheme" and t
  assume "\<exists>xs. timer_inv b s xs" and t: "user_timer t" and n: "t \<notin> scheduled s"
    and a: "accepts b (waketime s t) s"
  then obtain xs where i: "timer_inv b s xs" by blast
  have c: "tchain s xs" using i by (simp add: timer_inv_def)
  have "t \<notin> set xs" using n t c by (auto simp: scheduled_def)
  then obtain s' xs' where r: "sched_add_timer f t s = (Inr (), s')" "timer_inv b s' xs'"
    "pending xs' = tinsert s (waketime s t) t (pending xs)"
    "\<And>q. q \<noteq> Deleted_timer \<Longrightarrow> waketime s' q = waketime s q"
    using add_timer_inv [OF i t, where f = f] a unfolding accepts_def by metis
  have c': "tchain s' xs'" using r by (simp add: timer_inv_def)
  have "scheduled s' = insert t (scheduled s)"
    using r(3) t by (auto simp: scheduled_pending [OF c] scheduled_pending [OF c'])
  then show "\<exists>s'. sched_add_timer f t s = (Inr (), s') \<and> (\<exists>xs. timer_inv b s' xs)
      \<and> scheduled s' = insert t (scheduled s) \<and> (\<forall>q. user_timer q \<longrightarrow> waketime s' q = waketime s q)"
    using r by (auto simp: user_timer_def)
qed


section \<open>The static list\<close>

lemma static_inv: "timer_inv 0 sched_static [Periodic_timer, Sentinel_timer]"
  by (simp add: timer_inv_def tchain_def sched_static_def hw.defs static_timers_def since_def in_window_def)

lemma periodic_event_run:
  "periodic_event s = (Inr SF_RESCHEDULE, set_wake Sentinel_timer
     (waketime s Periodic_timer + timer_from_us s 100000 + 0x80000000)
     (set_wake Periodic_timer (waketime s Periodic_timer + timer_from_us s 100000)
       (s\<lparr>tasks_status := TS_REQUESTED\<rparr>)))"
  by (simp add: periodic_event_def sched_wake_tasks_def run_simps timer_from_us_def)

lemma timer_inv_run_periodic:
  assumes "timer_inv b s (Periodic_timer # zs)"
  shows "timer_inv_run b (snd (periodic_event s)) Periodic_timer zs"
proof -
  have c: "tchain s (Periodic_timer # zs)" using assms by (simp add: timer_inv_def)
  have ne: "zs \<noteq> []" using c by (auto simp: tchain_def)
  have d: "distinct (Periodic_timer # zs)" using c by (metis tchain_cases)
  have "zs = butlast zs @ [Sentinel_timer]" using c ne by (metis tchain_def append_butlast_last_id last_ConsR)
  then have "Sentinel_timer \<notin> set (butlast zs)" using d
    by (metis distinct.simps(2) distinct_append disjoint_insert(1) list.set(2))
  moreover have "Periodic_timer \<notin> set (butlast zs)" using d by (auto dest: in_set_butlastD)
  moreover have "torder b s (butlast zs)" using assms ne by (simp add: timer_inv_def)
  ultimately have "torder b (snd (periodic_event s)) (butlast zs)"
    by (elim torder_cong) (auto simp: periodic_event_run)
  then show ?thesis
    using assms c ne by (auto simp: timer_inv_run_def timer_inv_def tchain_def periodic_event_run)
qed

section \<open>Shutdown\<close>

lemma run_shutdown_run:
  assumes f: "shutdownfuncs s1 = (Inr (), s2)"
    and s1: "s1 = snd (sched_timer_reset (s\<lparr>clk_n := Suc (clk_n s),
       shutdown_reason := (if shutdown_status s = 0 then reason else shutdown_reason s), shutdown_status := 2\<rparr>))"
  shows "run_shutdown shutdownfuncs reason s = sendf ''shutdown clock=%u static_string_id=%hu''
     [U (clk s (clk_n s)), U (ucast (shutdown_reason s2))] (s2\<lparr>shutdown_status := 1\<rparr>)"
proof -
  let ?s = "s\<lparr>clk_n := Suc (clk_n s),
       shutdown_reason := (if shutdown_status s = 0 then reason else shutdown_reason s), shutdown_status := 2\<rparr>"
  have "run_shutdown shutdownfuncs reason s =
     mseq sched_timer_reset (mseq shutdownfuncs (mseq (modify (\<lambda>s. s\<lparr>shutdown_status := 1\<rparr>)) (
     mbind (gets shutdown_reason) (\<lambda>r.
     sendf ''shutdown clock=%u static_string_id=%hu'' [U (clk s (clk_n s)), U (ucast r)])))) ?s"
    by (simp add: run_shutdown_def mbind_def mseq_def)
  also have "\<dots> = mseq shutdownfuncs (mseq (modify (\<lambda>s. s\<lparr>shutdown_status := 1\<rparr>)) (
     mbind (gets shutdown_reason) (\<lambda>r.
     sendf ''shutdown clock=%u static_string_id=%hu'' [U (clk s (clk_n s)), U (ucast r)]))) s1"
    unfolding s1 by (rule mseq_Inr [where x = "()"]) (simp add: sched_timer_reset_def run_simps timer_kick_def)
  also have "\<dots> = sendf ''shutdown clock=%u static_string_id=%hu''
     [U (clk s (clk_n s)), U (ucast (shutdown_reason s2))] (s2\<lparr>shutdown_status := 1\<rparr>)"
    using f by (simp add: run_simps)
  finally show ?thesis .
qed


lemma del_timer_rest:
  "sched_del_timer t s = (r, s') \<Longrightarrow> s'\<lparr>timers := timers s, timer_list := timer_list s, last_insert := last_insert s\<rparr> = s"
  unfolding sched_del_timer_def
  by (auto simp: run_simps set_next_def set_wake_def split: option.splits if_splits)

lemma del_timer_shape:
  assumes "sched_del_timer t s = (r, s')"
  shows "s' = s\<lparr>timers := timers s', timer_list := timer_list s', last_insert := last_insert s'\<rparr>"
  by (subst del_timer_rest [OF assms, symmetric]) simp

lemma timer_inv_cong:
  assumes "timers s' = timers s" "timer_list s' = timer_list s" "last_insert s' = last_insert s"
  shows "timer_inv b s' xs = timer_inv b s xs"
  using assms by (simp add: timer_inv_def tchain_def torder_def)

lemma scheduled_cong: "timers s' = timers s \<Longrightarrow> timer_list s' = timer_list s \<Longrightarrow> scheduled s' = scheduled s"
  by (simp add: scheduled_def tchain_def)

section \<open>What the timer list leaves alone\<close>

text \<open>The callbacks of the timers, the readings taken so far, and the variables of the clients.\<close>

definition client_view :: "'s sched_scheme \<Rightarrow> (tptr \<Rightarrow> timer_fn option) \<times> nat \<times> 's" where
  "client_view s = (\<lambda>p. t_func (timers s p), idr_n s, sched.more s)"

lemma client_view_sets [simp]:
  "client_view (set_next p v s) = client_view s" "client_view (set_wake p w s) = client_view s"
  "client_view (s\<lparr>timer_list := l\<rparr>) = client_view s" "client_view (s\<lparr>last_insert := l\<rparr>) = client_view s"
  "client_view (s\<lparr>clk_n := n\<rparr>) = client_view s" "client_view (s\<lparr>kicks := n\<rparr>) = client_view s"
  "client_view (s\<lparr>sent := m\<rparr>) = client_view s"
  by (auto simp: client_view_def set_next_def set_wake_def)

lemma client_view_del: "client_view (snd (sched_del_timer t s)) = client_view s"
  by (auto simp: sched_del_timer_def run_simps split: option.splits)

lemma client_view_add: "client_view (snd (sched_add_timer f t s)) = client_view s"
  by (auto simp: sched_add_timer_def sched_check_close_def sched_try_shutdown_def sched_add_first_def insert_timer_def timer_kick_def
      run_simps split: option.splits)

section \<open>Properties\<close>

lemma add_timer_safe:
  assumes "tchain s xs" "user_timer t" "t \<notin> set xs"
  shows "\<exists>s' xs'. tchain s' xs' \<and> (sched_add_timer f t s = (Inr (), s') \<and> set (pending xs') = insert t (set (pending xs))
     \<or> sched_add_timer f t s = (Inl (Shutdown ''Timer too close''), s') \<and> xs' = xs)"
proof (cases "timer_is_before (waketime s t) (waketime s (timer_list s))")
  case early: True
  show ?thesis
  proof (cases "timer_is_before (waketime s t) (clk s (clk_n s)) \<and> shutdown_status s = 0")
    case True
    then show ?thesis
      using add_timer_past [OF early, where f = f] tchain_cong [OF assms(1), of "snd (sched_add_timer f t s)"]
      by (metis prod.collapse)
  next
    case False
    then obtain s' where "sched_add_timer f t s = (Inr (), s')" "tchain s' (Deleted_timer # t # pending xs)"
      using add_timer_early [OF assms refl early, where f = f] by blast
    moreover have "pending (Deleted_timer # t # pending xs) = t # pending xs"
      using assms(2) by (simp add: pending_def user_timer_def)
    ultimately show ?thesis by (metis list.simps(15))
  qed
next
  case False
  then obtain s' where "sched_add_timer f t s = (Inr (), s')" "tchain s' (tinsert s (waketime s t) t xs)"
    using add_timer_late [OF assms refl, where f = f] by blast
  moreover have "set (pending (tinsert s (waketime s t) t xs)) = insert t (set (pending xs))"
    using assms(2) by (auto simp: pending_def user_timer_def)
  ultimately show ?thesis by blast
qed

text \<open>
  The claim in the comment on the sentinel timer.  On a well-formed list \<open>sched_add_timer\<close>
  never follows a null pointer and never loops: it links the timer in, or leaves through
  the shutdown "Timer too close"; the list is well formed afterwards.
\<close>

theorem sched_add_timer_safe:
  assumes "tchain s xs" "user_timer t" "t \<notin> set xs"
  shows "\<exists>s' xs'. tchain s' xs' \<and> (sched_add_timer f t s = (Inr (), s') \<and> set (pending xs') = insert t (set (pending xs))
     \<or> sched_add_timer f t s = (Inl (Shutdown ''Timer too close''), s') \<and> xs' = xs)"
  using assms by (rule add_timer_safe)

theorem sched_add_timer_safe_witness:
  "\<exists>s' xs'. tchain s' xs' \<and>
     (sched_add_timer ''f'' Wrap_timer sched_static = (Inr (), s') \<and>
        set (pending xs') = insert Wrap_timer (set (pending [Periodic_timer, Sentinel_timer]))
      \<or> sched_add_timer ''f'' Wrap_timer sched_static = (Inl (Shutdown ''Timer too close''), s')
        \<and> xs' = [Periodic_timer, Sentinel_timer])"
  by (rule sched_add_timer_safe) (use static_inv in \<open>simp_all add: timer_inv_def user_timer_def\<close>)

text \<open>
  C11: \<open>sched_add_timer\<close> is insertion into a list ordered by waketime, behind timers of the
  same time, for every time the scheduler accepts.
\<close>

theorem sched_add_timer_inserts:
  assumes "timer_inv b s xs" "user_timer t" "t \<notin> set xs" "accepts b (waketime s t) s"
  shows "\<exists>s' xs'. sched_add_timer f t s = (Inr (), s') \<and> timer_inv b s' xs'
     \<and> pending xs' = tinsert s (waketime s t) t (pending xs)"
  using add_timer_inv [OF assms(1-3), where f = f] assms(4) unfolding accepts_def by metis

theorem sched_add_timer_inserts_witness:
  "\<exists>s' xs'. sched_add_timer ''f'' Wrap_timer sched_static = (Inr (), s') \<and> timer_inv 0 s' xs'
     \<and> pending xs' = [Periodic_timer, Wrap_timer, Sentinel_timer]"
proof -
  have a: "accepts 0 (waketime sched_static Wrap_timer) sched_static"
    by (simp add: accepts_def sched_static_def hw.defs static_timers_def in_window_def since_def
        timer_is_before_unat board_at_rest_def)
  have p: "tinsert sched_static (waketime sched_static Wrap_timer) Wrap_timer (pending [Periodic_timer, Sentinel_timer])
      = [Periodic_timer, Wrap_timer, Sentinel_timer]"
    by (simp add: tinsert_simps pending_def sched_static_def hw.defs static_timers_def timer_is_before_unat)
  from sched_add_timer_inserts [OF static_inv _ _ a, where f = "''f''"]
  show ?thesis unfolding p by (simp add: user_timer_def)
qed

text \<open>
  How every component moves its timer: deleting it, setting its waketime and adding it
  again succeeds whether or not it was scheduled, and changes no other client timer.
\<close>

theorem move_timer_ok:
  assumes "timer_inv b s xs" "user_timer t" "accepts b w s"
  shows "\<exists>s' xs'. mseq (sched_del_timer t) (mseq (modify (set_wake t w)) (sched_add_timer f t)) s = (Inr (), s')
     \<and> timer_inv b s' xs' \<and> scheduled s' = insert t (scheduled s) \<and> waketime s' t = w
     \<and> (\<forall>q. user_timer q \<longrightarrow> q \<noteq> t \<longrightarrow> waketime s' q = waketime s q)"
  using timers.move_timer [of b s t w f] assms by metis

theorem move_timer_ok_witness:
  "\<exists>s' xs'. mseq (sched_del_timer Wrap_timer) (mseq (modify (set_wake Wrap_timer 5000))
       (sched_add_timer ''f'' Wrap_timer)) sched_static = (Inr (), s')
     \<and> timer_inv 0 s' xs' \<and> scheduled s' = insert Wrap_timer (scheduled sched_static) \<and> waketime s' Wrap_timer = 5000
     \<and> (\<forall>q. user_timer q \<longrightarrow> q \<noteq> Wrap_timer \<longrightarrow> waketime s' q = waketime sched_static q)"
  by (rule move_timer_ok [OF static_inv])
    (simp_all add: user_timer_def accepts_def sched_static_def hw.defs in_window_def since_def
      timer_is_before_unat board_at_rest_def)

text \<open>
  C2: behind a callback of the first timer the dispatcher drops or re-inserts that timer in
  the order of the new waketime, also when it searches from the last insert point only, and
  returns the waketime of the timer that is now first.
\<close>

theorem sched_timer_dispatch_order:
  assumes "timer_list s = t" "t_func (timers s t) = Some f" "call f t s = (Inr res, s1)"
    "timer_inv_run b s1 t zs"
    "res = SF_DONE \<longrightarrow> t \<noteq> Periodic_timer"
    "res = SF_RESCHEDULE \<longrightarrow> in_window b (waketime s1 t) \<and> t \<noteq> Deleted_timer"
  shows "\<exists>s2. sched_timer_dispatch call hack ev s = (Inr (waketime s2 (timer_list s2)), s2)
     \<and> timer_inv b s2 (if res = SF_DONE then zs else tinsert s1 (waketime s1 t) t zs)"
proof -
  have d: "sched_timer_dispatch call hack ev s = sched_timer_next t res s1"
    using assms(1-3) by (simp add: sched_timer_dispatch_def run_simps)
  show ?thesis
  proof (cases res)
    case SF_DONE
    then have p: "t \<noteq> Periodic_timer" using assms(5) by simp
    obtain s' where "sched_timer_next t SF_DONE s1 = (Inr (waketime s' (timer_list s')), s')" "timer_inv b s' zs"
      by (rule next_done [OF assms(4) p])
    then show ?thesis unfolding d SF_DONE by auto
  next
    case SF_RESCHEDULE
    then have p: "in_window b (waketime s1 t)" "t \<noteq> Deleted_timer" using assms(6) by simp_all
    obtain s' where "sched_timer_next t SF_RESCHEDULE s1 = (Inr (waketime s' (timer_list s')), s')"
      "timer_inv b s' (tinsert s1 (waketime s1 t) t zs)"
      by (rule next_reschedule [OF assms(4) p])
    then show ?thesis unfolding d SF_RESCHEDULE by auto
  qed
qed

theorem sched_timer_dispatch_order_witness:
  "\<exists>s2. sched_timer_dispatch (\<lambda>_ _. periodic_event) False (\<lambda>_. ret SF_DONE) sched_static
       = (Inr (waketime s2 (timer_list s2)), s2)
     \<and> timer_inv 0 s2 [Periodic_timer, Sentinel_timer]"
proof -
  let ?s1 = "snd (periodic_event sched_static)"
  have c: "periodic_event sched_static = (Inr SF_RESCHEDULE, ?s1)" by (simp add: periodic_event_run)
  have w: "waketime ?s1 Periodic_timer = 10000000"
    by (simp add: periodic_event_run sched_static_def hw.defs static_timers_def timer_from_us_def board_at_rest_def)
  have ti: "tinsert ?s1 (waketime ?s1 Periodic_timer) Periodic_timer [Sentinel_timer] = [Periodic_timer, Sentinel_timer]"
    unfolding w by (simp add: tinsert_simps periodic_event_run sched_static_def hw.defs static_timers_def
        timer_from_us_def board_at_rest_def timer_is_before_unat)
  have h: "timer_list sched_static = Periodic_timer"
    "t_func (timers sched_static Periodic_timer) = Some Periodic_event"
    by (simp_all add: sched_static_def hw.defs static_timers_def)
  have "in_window 0 (waketime ?s1 Periodic_timer)" unfolding w by (simp add: in_window_def since_def)
  then have "SF_RESCHEDULE = SF_DONE \<longrightarrow> Periodic_timer \<noteq> Periodic_timer"
    "SF_RESCHEDULE = SF_RESCHEDULE \<longrightarrow> in_window 0 (waketime ?s1 Periodic_timer) \<and> Periodic_timer \<noteq> Deleted_timer"
    by blast+
  from sched_timer_dispatch_order [where call = "\<lambda>_ _. periodic_event", OF h c
      timer_inv_run_periodic [OF static_inv] this, of False "\<lambda>_. ret SF_DONE"]
  show ?thesis unfolding ti if_not_P [OF sf.distinct(2)] .
qed


text \<open>
  C19: the shutdown state machine.  A shutdown raised anywhere below the \<open>setjmp\<close> of the main
  loop ends in status 1, keeps the reason of the first shutdown since the last clear, and
  leaves no client timer scheduled by the time the shutdown handlers run.
\<close>

theorem shutdown_caught:
  assumes "body s = (Inl (Shutdown msg), t)" "nextp t Sentinel_timer = None"
    "waketime t Sentinel_timer = waketime t Periodic_timer + 0x80000000"
    "\<And>q. tchain q [Deleted_timer, Periodic_timer, Sentinel_timer] \<Longrightarrow> shutdown_status q = 2 \<Longrightarrow>
       \<exists>q'. shutdownfuncs q = (Inr (), q') \<and> shutdown_reason q' = shutdown_reason q"
  shows "\<exists>s'. sched_main_catch sid shutdownfuncs body s = (Inr (), s') \<and> shutdown_status s' = 1
     \<and> shutdown_reason s' = (if shutdown_status t \<noteq> 0 then shutdown_reason t
                              else if sid msg = 0 then 1 else sid msg)"
proof -
  let ?r = "if sid msg = 0 then 1 else sid msg"
  let ?t = "t\<lparr>clk_n := Suc (clk_n t),
       shutdown_reason := (if shutdown_status t = 0 then ?r else shutdown_reason t), shutdown_status := 2\<rparr>"
  obtain s1 where s1: "sched_timer_reset ?t = (Inr (), s1)" "tchain s1 [Deleted_timer, Periodic_timer, Sentinel_timer]"
    by (rule timer_reset_ok [of ?t]) (use assms(2,3) in simp_all)
  have f: "shutdown_status s1 = 2" "shutdown_reason s1 = shutdown_reason ?t"
    using s1(1) by (auto simp: sched_timer_reset_def run_simps timer_kick_def set_next_def set_wake_def)
  obtain s2 where s2: "shutdownfuncs s1 = (Inr (), s2)" "shutdown_reason s2 = shutdown_reason s1"
    using assms(4) [OF s1(2) f(1)] by blast
  have "s1 = snd (sched_timer_reset ?t)" using s1(1) by simp
  from run_shutdown_run [where shutdownfuncs = shutdownfuncs and s = t and reason = ?r, OF s2(1) this]
  show ?thesis using assms(1) s2(2) f(2) by (simp add: sched_main_catch_def)
qed

theorem shutdown_caught_witness:
  "\<exists>s'. sched_main_catch (\<lambda>_. 7) (ret ()) sched_clear_shutdown sched_static = (Inr (), s')
     \<and> shutdown_status s' = 1 \<and> shutdown_reason s' = 7"
proof -
  let ?t = "snd (sched_clear_shutdown sched_static)"
  have "sched_clear_shutdown sched_static = (Inl (Shutdown ''Shutdown cleared when not shutdown''), ?t)"
    "nextp ?t Sentinel_timer = None" "waketime ?t Sentinel_timer = waketime ?t Periodic_timer + 0x80000000"
    by (simp_all add: sched_clear_shutdown_def run_simps shutdown_def sched_static_def hw.defs static_timers_def)
  moreover have "shutdown_status ?t = 0"
    by (simp add: sched_clear_shutdown_def run_simps shutdown_def sched_static_def hw.defs)
  ultimately show ?thesis
    using shutdown_caught [of sched_clear_shutdown sched_static _ ?t "ret ()" "\<lambda>_. 7"] by simp
qed

end
