(* ===== verification/Protocol.thy ===== *)
theory Protocol
  imports Msgblock Sched_Timers
begin

text \<open>
  Correctness of the wire protocol: what the firmware accepts as a message block, that it
  makes progress on any input, that dispatching a block stays inside it, what it sends, and
  that both ends agree.
\<close>

section \<open>Message blocks\<close>

text \<open>The format both ends check.\<close>

definition block_crc :: "u8 list \<Rightarrow> u16" where
  "block_crc bs = push_bit 8 (ucast (bs ! (length bs - 3))) OR ucast (bs ! (length bs - 2))"

definition valid_block :: "u8 list \<Rightarrow> bool" where
  "valid_block bs \<longleftrightarrow> MESSAGE_MIN \<le> length bs \<and> length bs \<le> MESSAGE_MAX \<and> unat (bs ! 0) = length bs
     \<and> bs ! 1 AND NOT MESSAGE_SEQ_MASK = MESSAGE_DEST \<and> last bs = MESSAGE_SYNC
     \<and> crc16_ccitt bs (length bs - MESSAGE_TRAILER_SIZE) = block_crc bs"

lemma msgblock_crc [simp]: "msgblock_crc16_ccitt = crc16_ccitt"
proof -
  have "msgblock_crc_round = crc16_round"
    by (intro ext) (simp add: msgblock_crc_round_def crc16_round_def Let_def xor.assoc)
  then show ?thesis by (intro ext) (simp add: msgblock_crc16_ccitt_def crc16_ccitt_def)
qed

lemma block_at:
  assumes "n \<le> length buf" "MESSAGE_MIN \<le> n"
  shows "valid_block (take n buf) \<longleftrightarrow> n \<le> MESSAGE_MAX \<and> unat (buf ! 0) = n
     \<and> buf ! 1 AND NOT MESSAGE_SEQ_MASK = MESSAGE_DEST \<and> buf ! (n - 1) = MESSAGE_SYNC
     \<and> crc16_ccitt buf (n - MESSAGE_TRAILER_SIZE)
         = push_bit 8 (ucast (buf ! (n - 3))) OR ucast (buf ! (n - 3 + 1))"
proof -
  have n: "n - 3 + 1 = n - 2" "n - 3 < n" "n - 2 < n" "0 < n" "1 < n" "length (take n buf) = n"
    using assms by (auto simp: message_consts)
  then have "last (take n buf) = buf ! (n - 1)" by (subst last_conv_nth) auto
  with n show ?thesis
    using assms unfolding valid_block_def block_crc_def
    by (auto simp: crc16_ccitt_def message_consts)
qed

section \<open>Finding blocks\<close>

text \<open>The block finder touches only its own two variables and the console.\<close>

lemma memchr_less: "memchr xs c = Some i \<Longrightarrow> i < length xs"
proof -
  assume m: "memchr xs c = Some i"
  then have "takeWhile (\<lambda>x. x \<noteq> c) xs \<noteq> xs" "i = length (takeWhile (\<lambda>x. x \<noteq> c) xs)"
    by (auto simp: memchr_def takeWhile_eq_all_conv split: if_splits)
  then show "i < length xs"
    by (metis length_takeWhile_le le_neq_implies_less takeWhile_eq_take take_all_iff order_refl)
qed

lemma find_sync_run:
  "\<exists>pop s'. find_sync buf n s = (Inr (- 1, pop), s') \<and> pop \<le> n \<and> (0 < n \<longrightarrow> 0 < pop)
     \<and> next_sequence s' = next_sequence s \<and> (sync_state s AND CF_NEED_VALID \<noteq> 0 \<longrightarrow> sent s' = sent s)"
proof (cases "memchr (take n buf) MESSAGE_SYNC")
  case None
  then show ?thesis by (auto simp: find_sync_def run_simps command_send_ack_def)
next
  case (Some i)
  have b: "((x :: u8) AND NOT CF_NEED_SYNC) AND CF_NEED_VALID = x AND CF_NEED_VALID" for x
    by (simp add: CF_NEED_SYNC_def CF_NEED_VALID_def and.assoc)
  have "i < n" using Some memchr_less [of "take n buf"] by fastforce
  then show ?thesis using Some by (auto simp: find_sync_def run_simps command_send_ack_def b)
qed

lemma find_error_run:
  assumes "0 < n"
  shows "\<exists>pop s'. find_error buf n s = (Inr (- 1, pop), s') \<and> pop \<le> n \<and> 0 < pop
     \<and> next_sequence s' = next_sequence s \<and> (sync_state s AND CF_NEED_VALID \<noteq> 0 \<longrightarrow> sent s' = sent s)"
proof -
  have b: "((x :: u8) OR CF_NEED_SYNC) AND CF_NEED_VALID = x AND CF_NEED_VALID" for x
    by (simp add: CF_NEED_SYNC_def CF_NEED_VALID_def and.assoc bit.conj_disj_distrib2)
  show ?thesis
    using find_sync_run [of buf n "s\<lparr>sync_state := sync_state s OR CF_NEED_SYNC\<rparr>"] assms
    by (auto simp: find_error_def run_simps b)
qed

definition found :: "u8 list \<Rightarrow> nat \<Rightarrow> 's comm_scheme \<Rightarrow> nat \<Rightarrow> bool" where
  "found buf n s k \<longleftrightarrow> sync_state s AND CF_NEED_SYNC = 0 \<and> k \<le> n \<and> MESSAGE_MIN \<le> k \<and> valid_block (take k buf)"

text \<open>The three outcomes of \<open>command_find_block\<close>.\<close>

lemma find_block_cases:
  assumes "n \<le> length buf"
  obtains (more) "command_find_block buf n s = (Inr (0, 0), s)" "n < MESSAGE_MAX"
  | (block) k s' where "found buf n s k" "buf ! 1 = next_sequence s"
      "command_find_block buf n s = (Inr (1, k), s')"
      "next_sequence s' = ((next_sequence s + 1) AND MESSAGE_SEQ_MASK) OR MESSAGE_DEST" "sent s' = sent s"
  | (nak) k s' where "found buf n s k" "buf ! 1 \<noteq> next_sequence s"
      "command_find_block buf n s = (Inr (- 1, k), s')" "next_sequence s' = next_sequence s"
  | (garbage) pop s' where "command_find_block buf n s = (Inr (- 1, pop), s')" "pop \<le> n" "0 < pop"
      "next_sequence s' = next_sequence s" "\<And>k. \<not> found buf n s k"
      "sync_state s AND CF_NEED_VALID \<noteq> 0 \<longrightarrow> sent s' = sent s"
proof -
  define m where "m = unat (buf ! 0)"
  let ?run = "command_find_block buf n s"
  consider (sync) "n \<noteq> 0" "sync_state s AND CF_NEED_SYNC \<noteq> 0"
    | (go) "n = 0 \<or> sync_state s AND CF_NEED_SYNC = 0" by metis
  then show thesis
  proof cases
    case sync
    then have "?run = find_sync buf n s" by (simp add: command_find_block_def mbind_def)
    with sync find_sync_run [of buf n s] show thesis by (auto simp: found_def intro: garbage)
  next
    case go
    have few: "?run = (Inr (0, 0), s)" if "n < MESSAGE_MIN"
      using go that by (auto simp: command_find_block_def mbind_def)
    show thesis
    proof (cases "n < MESSAGE_MIN")
      case True
      with few show thesis by (intro more) (auto simp: message_consts)
    next
      case False
      then have n: "MESSAGE_MIN \<le> n" "0 < n" and ss: "sync_state s AND CF_NEED_SYNC = 0"
        using go by (auto simp: message_consts)
      let ?hd = "MESSAGE_MIN \<le> m \<and> m \<le> MESSAGE_MAX \<and> buf ! 1 AND NOT MESSAGE_SEQ_MASK = MESSAGE_DEST"
      have fm: "k = m \<and> ?hd \<and> m \<le> n \<and> valid_block (take m buf)" if "found buf n s k" for k
        using that block_at [of k buf] assms by (auto simp: found_def m_def)
      have vb: "valid_block (take m buf) \<longleftrightarrow> ?hd \<and> buf ! (m - 1) = MESSAGE_SYNC
         \<and> crc16_ccitt buf (m - MESSAGE_TRAILER_SIZE) = push_bit 8 (ucast (buf ! (m - 3))) OR ucast (buf ! (m - 3 + 1))"
        if "?hd" "m \<le> n" using block_at [of m buf] that assms by (auto simp: m_def)
      consider (short) "?hd" "n < m" | (ok) "?hd" "m \<le> n" "valid_block (take m buf)"
        | (err) "\<not> ?hd \<or> m \<le> n \<and> \<not> valid_block (take m buf)" by linarith
      then show thesis
      proof cases
        case short
        then have "?run = (Inr (0, 0), s)"
          using n ss by (auto simp: command_find_block_def mbind_def m_def Let_def)
        with short show thesis by (intro more) auto
      next
        case ok
        have f: "found buf n s m" using ok ss by (simp add: found_def)
        show thesis
        proof (cases "buf ! 1 = next_sequence s")
          case True
          let ?s = "s\<lparr>sync_state := sync_state s AND NOT CF_NEED_VALID,
            next_sequence := ((next_sequence s + 1) AND MESSAGE_SEQ_MASK) OR MESSAGE_DEST\<rparr>"
          have "?run = (Inr (1, m), ?s)"
            using True ok vb n ss by (simp add: command_find_block_def run_simps Let_def m_def)
          then show thesis by (rule block [OF f True]) simp_all
        next
          case False
          let ?s = "snd (command_send_ack (s\<lparr>sync_state := sync_state s AND NOT CF_NEED_VALID\<rparr>))"
          have "?run = (Inr (- 1, m), ?s)"
            using False ok vb n ss
            by (simp add: command_find_block_def run_simps Let_def m_def command_send_ack_def)
          then show thesis by (rule nak [OF f False]) (simp add: command_send_ack_def)
        qed
      next
        case err
        then have "?run = find_error buf n s"
          using n ss vb by (auto simp: command_find_block_def mbind_def m_def Let_def)
        moreover have "\<not> found buf n s k" for k using fm [of k] err by auto
        ultimately show thesis using find_error_run [OF n(2), of buf s] by (auto intro: garbage)
      qed
    qed
  qed
qed


lemma find_block_found:
  assumes "n \<le> length buf" "found buf n s k"
  shows "\<exists>r s'. command_find_block buf n s = (Inr (r, k), s') \<and> r \<noteq> 0 \<and> (buf ! 1 = next_sequence s \<longrightarrow> r = 1)"
proof -
  have "k \<le> n" "MESSAGE_MIN \<le> k" "valid_block (take k buf)" "sync_state s AND CF_NEED_SYNC = 0"
    using assms by (simp_all add: found_def)
  then show ?thesis
    using block_at [of k buf] assms(1)
    by (cases "buf ! 1 = next_sequence s")
      (auto simp: command_find_block_def run_simps Let_def command_send_ack_def)
qed

text \<open>The block of an acknowledgement, as an example.\<close>

definition ack_block :: "u8 list" where
  "ack_block = [5, 0x10, 0x9e, 0x81, 0x7e]"

lemma ack_block_valid: "valid_block ack_block"
  unfolding valid_block_def block_crc_def ack_block_def message_consts by code_simp


lemma ack_block_found: "found ack_block 5 comm_static 5" "ack_block ! 1 = next_sequence comm_static"
  using ack_block_valid
  by (simp_all add: found_def comm_static_def sched.defs message_consts ack_block_def)

section \<open>Dispatching stays inside the block\<close>

text \<open>How many entries of the argument array a list of parameters fills.\<close>

definition arg_count :: "param_type list \<Rightarrow> nat" where
  "arg_count ts = length ts + length (filter (\<lambda>t. t = PT_buffer) ts)"

lemma sync_byte: "MESSAGE_SYNC AND 0x80 = 0"
  by (simp add: MESSAGE_SYNC_def)

lemma parsef_inside:
  assumes "e < length buf" "buf ! e AND 0x80 = 0" "maxend \<le> e"
  shows "p \<le> Suc e \<Longrightarrow>
    (case command_parsef buf p maxend ts args of
       Inl x \<Rightarrow> x = Shutdown ''Command parser error''
     | Inr (as, q) \<Rightarrow> p \<le> q \<and> q \<le> Suc e \<and> length as \<le> length args + arg_count ts)"
proof (induction ts arbitrary: p args)
  case Nil
  then show ?case by (simp add: arg_count_def)
next
  case (Cons t ts)
  let ?int = "t \<in> {PT_uint32, PT_int32, PT_uint16, PT_int16, PT_byte}"
  consider (far) "p > maxend" | (int) "p \<le> maxend" "?int" | (buf) "p \<le> maxend" "t = PT_buffer"
    | (bad) "p \<le> maxend" "\<not> ?int" "t \<noteq> PT_buffer" by fastforce
  then show ?case
  proof cases
    case int
    then have "p \<le> e" using assms by simp
    then obtain v q where q: "parse_int buf p = Some (v, q)" "p < q" "q \<le> Suc e"
      using parse_int_stops assms by metis
    from Cons.IH [OF q(3), of "args @ [v]"] show ?thesis
      using int q by (auto simp: arg_count_def split: sum.splits)
  next
    case buf
    then have pl: "p < length buf" using assms by simp
    let ?q = "Suc p + unat (buf ! p)"
    show ?thesis
    proof (cases "?q > maxend")
      case True
      then show ?thesis using buf pl by (auto simp: Let_def)
    next
      case False
      then have "?q \<le> Suc e" using assms by simp
      from Cons.IH [OF this, of "args @ [of_nat (unat (buf ! p)), of_nat (Suc p)]"] show ?thesis
        using buf pl False by (auto simp: Let_def arg_count_def split: sum.splits)
    qed
  qed (auto simp: Let_def)
qed

lemma sound_shutdown: "board_blind P \<Longrightarrow> sound P (shutdown f m)"
  by (rule soundI) (simp add: shutdown_run board_blind_def)

lemma sound_sendf: "board_blind P \<Longrightarrow> sound P (sendf f a)"
  by (rule soundI) (simp add: board_blind_def)

definition table_ok :: "('s comm_scheme \<Rightarrow> bool) \<Rightarrow> 's comm_scheme command_parser list \<Rightarrow> bool" where
  "table_ok P idx \<longleftrightarrow> (\<forall>cp\<in>set idx. arg_count (cp_param_types cp) \<le> cp_num_args cp \<and> (\<forall>args. sound P (cp_func cp args)))"

lemma command_parse_inside:
  assumes "e < length buf" "buf ! e AND 0x80 = 0" "maxend \<le> e" "p \<le> Suc e"
    and n: "arg_count (cp_param_types cp) \<le> cp_num_args cp" and P: "board_blind P" "P s"
  shows "ok_exit (fst (command_parse buf p maxend cp s)) \<and> P (snd (command_parse buf p maxend cp s))
     \<and> (\<forall>as q t. command_parse buf p maxend cp s = (Inr (as, q), t) \<longrightarrow> p \<le> q \<and> q \<le> Suc e)"
  using parsef_inside [OF assms(1-4), where ts = "cp_param_types cp" and args = "[]"] n P
    soundD [OF sound_shutdown [OF P(1)] P(2)]
  by (auto simp: command_parse_def shutdown_run split: sum.splits)

lemma dispatch_one_inside:
  assumes e: "e < length buf" "buf ! e AND 0x80 = 0" "msgend + 2 \<le> e" and p: "p < msgend"
    and t: "table_ok P idx" and P: "board_blind P" "P s"
  shows "ok_exit (fst (command_dispatch_one idx buf msgend p s)) \<and> P (snd (command_dispatch_one idx buf msgend p s))
     \<and> (\<forall>q t. command_dispatch_one idx buf msgend p s = (Inr q, t) \<longrightarrow> p < q)"
proof -
  obtain cmdid p1 where m: "command_parse_msgid buf p = Some (cmdid, p1)" "p < p1" "p1 \<le> p + 2"
    using parse_msgid_stops [of p buf] e p by (metis add_leD1 le_trans less_imp_le_nat add_le_mono1)
  have p1: "p1 \<le> Suc e" "msgend \<le> e" using m e p by simp_all
  show ?thesis
  proof (cases "cmdid = 0 \<or> unat cmdid \<ge> length idx")
    case True
    then show ?thesis
      using m soundD [OF sound_shutdown [OF P(1)] P(2)]
      by (simp add: command_dispatch_one_def command_lookup_parser_def mbind_def shutdown_run)
  next
    case False
    define cp where "cp = idx ! unat cmdid"
    have "cp \<in> set idx" using False by (simp add: cp_def)
    then have cp: "arg_count (cp_param_types cp) \<le> cp_num_args cp" "\<And>args. sound P (cp_func cp args)"
      using t by (auto simp: table_ok_def)
    obtain r u where pr: "command_parse buf p1 msgend cp s = (r, u)" by (cases "command_parse buf p1 msgend cp s")
    have ok: "ok_exit r" "P u" "\<And>as q. r = Inr (as, q) \<Longrightarrow> p1 \<le> q"
      using command_parse_inside [OF e(1,2) p1(2,1) cp(1) P] pr by auto
    have run: "command_dispatch_one idx buf msgend p s = (case r of Inl x \<Rightarrow> (Inl x, u) | Inr (as, q) \<Rightarrow>
        if sched_is_shutdown u \<and> cp_flags cp AND HF_IN_SHUTDOWN = 0 then mseq sched_report_shutdown (ret q) u
        else mseq (cp_func cp as) (ret q) u)"
      using m False pr
      by (auto simp: command_dispatch_one_def command_lookup_parser_def mbind_def cp_def [symmetric] split: sum.splits)
    have sr: "sound P (mseq sched_report_shutdown (ret q))" for q :: nat
      unfolding sched_report_shutdown_def by (intro sound_intros sound_sendf P)
    have sf: "sound P (mseq (cp_func cp as) (ret q))" for as and q :: nat by (intro sound_intros cp)
    show ?thesis
    proof (cases r)
      case (Inl x)
      then show ?thesis using run ok by (auto simp: ok_exit_def)
    next
      case (Inr aq)
      obtain as q where aq: "aq = (as, q)" by (cases aq)
      have lt: "p < q" using ok(3) Inr aq m by fastforce
      have val: "(\<forall>q' t. mseq c (ret q) u = (Inr q', t) \<longrightarrow> q' = q)" for c :: "('a comm_scheme, unit) cmd"
        by (auto elim!: mseq_cases)
      show ?thesis
        using soundD [OF sr ok(2), of q] soundD [OF sf ok(2), of as q] lt val
        unfolding run Inr aq by auto
    qed
  qed
qed

lemma dispatch_sound:
  assumes v: "valid_block (take n buf)" "n \<le> length buf" and t: "table_ok P idx" and P: "board_blind P"
  shows "sound P (command_dispatch idx buf n)"
proof -
  have n: "MESSAGE_MIN \<le> n" using v by (simp add: valid_block_def)
  have e: "n - 1 < length buf" "buf ! (n - 1) AND 0x80 = 0" "n - MESSAGE_TRAILER_SIZE + 2 \<le> n - 1"
    using n v block_at [OF v(2) n] sync_byte by (auto simp: message_consts)
  show ?thesis
    unfolding command_dispatch_def Let_def
  proof (rule sound_cloop [where I = "\<lambda>_. True" and mu = "\<lambda>p. n - p"])
    fix p s assume "P s"
    then show "ok_exit (fst ((if p < n - MESSAGE_TRAILER_SIZE
          then mbind (command_dispatch_one idx buf (n - MESSAGE_TRAILER_SIZE) p) (\<lambda>p'. ret (Inl p')) else ret (Inr ())) s))
      \<and> P (snd ((if p < n - MESSAGE_TRAILER_SIZE
          then mbind (command_dispatch_one idx buf (n - MESSAGE_TRAILER_SIZE) p) (\<lambda>p'. ret (Inl p')) else ret (Inr ())) s))
      \<and> (\<forall>y. fst ((if p < n - MESSAGE_TRAILER_SIZE
          then mbind (command_dispatch_one idx buf (n - MESSAGE_TRAILER_SIZE) p) (\<lambda>p'. ret (Inl p')) else ret (Inr ())) s)
          = Inr (Inl y) \<longrightarrow> True \<and> n - y < n - p)"
      using dispatch_one_inside [OF e _ t P, of p s]
      by (cases "command_dispatch_one idx buf (n - MESSAGE_TRAILER_SIZE) p s")
        (auto simp: mbind_def ok_exit_def split: sum.splits)
  qed simp
qed


section \<open>Framing\<close>

lemma crc_bytes: "push_bit 8 (ucast (ucast (drop_bit 8 c) :: u8)) OR ucast (ucast c :: u8) = (c :: u16)"
  by (rule bit_word_eqI) (auto simp: bit_simps)

lemma add_frame_valid:
  assumes n: "MESSAGE_MIN \<le> n" "n \<le> length buf" "n \<le> MESSAGE_MAX"
    and seq: "seq AND NOT MESSAGE_SEQ_MASK = MESSAGE_DEST"
  obtains buf' where "command_add_frame seq buf n = Inr buf'" "length buf' = length buf"
    "valid_block (take n buf')" "buf' ! 1 = seq"
    "\<And>i. 2 \<le> i \<Longrightarrow> i < n - 3 \<or> n \<le> i \<Longrightarrow> buf' ! i = buf ! i"
proof -
  define b where "b = buf[0 := of_nat n, 1 := seq]"
  define crc where "crc = crc16_ccitt b (n - 3)"
  define buf' where "buf' = b[n - 3 := ucast (drop_bit 8 crc), n - 2 := ucast crc, n - 1 := MESSAGE_SYNC]"
  have nn: "5 \<le> n" "n \<le> 64" "n - 3 + 1 = n - 2" using n by (auto simp: message_consts)
  have l0: "buf[0 := x] ! 0 = x" for x using n nn by (subst nth_list_update_eq) auto
  have r: "command_add_frame seq buf n = Inr buf'"
    using n by (simp add: command_add_frame_def b_def crc_def buf'_def message_consts Let_def)
  have l: "length buf' = length buf" by (simp add: buf'_def b_def)
  have "take (n - 3) buf' = take (n - 3) b" by (simp add: buf'_def)
  then have c: "crc16_ccitt buf' (n - MESSAGE_TRAILER_SIZE) = crc"
    by (simp add: crc_def crc16_ccitt_def message_consts)
  have nb: "buf' ! (n - 3) = ucast (drop_bit 8 crc)" "buf' ! (n - 2) = ucast crc" "buf' ! (n - 1) = MESSAGE_SYNC"
    "buf' ! 0 = of_nat n" "buf' ! 1 = seq"
    using n nn l0 by (auto simp: buf'_def b_def nth_list_update)
  have "unat (of_nat n :: u8) = n" using nn by (simp add: unat_of_nat)
  then have v: "valid_block (take n buf')"
    using block_at [of n buf'] n nn nb c seq l by (simp add: crc_bytes)
  show thesis
    by (rule that [OF r l v nb(5)]) (use nn in \<open>auto simp: buf'_def b_def nth_list_update\<close>)
qed

lemma valid_block_checked:
  assumes "valid_block (take n buf)" "n \<le> length buf" "n \<le> m"
  shows "msgblock_check False buf m = (int n, False)"
proof -
  have n: "MESSAGE_MIN \<le> n" using assms by (simp add: valid_block_def)
  from block_at [OF assms(2) n] assms n show ?thesis
    by (auto simp: msgblock_check_def Let_def)
qed

section \<open>Encoding\<close>

definition int_params :: "param_type list \<Rightarrow> bool" where
  "int_params ts \<longleftrightarrow> set ts \<subseteq> {PT_uint32, PT_int32, PT_uint16, PT_int16, PT_byte}"

lemma encode_params_ints:
  assumes "int_params ts" "length vs = length ts" "enc_pos out + 5 * length ts \<le> maxend"
  shows "encode_params maxend ts (map U vs) out = Inr (out @ concat (map encode_int vs))"
  using assms
proof (induction ts arbitrary: vs out)
  case (Cons t ts)
  then obtain v vs' where vs: "vs = v # vs'" by (cases vs) auto
  have "length (encode_int v) \<le> 5" using encode_int_length by simp
  with Cons vs show ?case by (simp add: int_params_def enc_pos_def)
qed simp

text \<open>However the parameters are typed, the code stops within five bytes behind its bound.\<close>

lemma encode_params_bound:
  "encode_params maxend ts args out = Inr out' \<Longrightarrow> enc_pos out' \<le> max (enc_pos out) (maxend + 5)"
proof (induction ts arbitrary: args out)
  case (Cons t ts)
  have near: "enc_pos out \<le> maxend" using Cons.prems by (auto split: if_splits)
  obtain bs args' where step: "encode_params maxend ts args' (out @ bs) = Inr out'" "enc_pos (out @ bs) \<le> maxend + 5"
  proof -
    consider (int) "t \<in> {PT_uint32, PT_int32, PT_uint16, PT_int16, PT_byte}" | (str) "t = PT_string"
      | (buf) "t = PT_progmem_buffer \<or> t = PT_buffer" by (cases t) auto
    then show thesis
    proof cases
      case int
      then obtain v args' where "args = U v # args'" "encode_params maxend ts args' (out @ encode_int v) = Inr out'"
        using Cons.prems near by (auto split: list.splits arg.splits)
      then show thesis using that near encode_int_length [of v] by (auto simp: enc_pos_def)
    next
      case str
      then obtain x args' where "args = Str x # args'"
        "encode_params maxend ts args' (out @ of_nat (length (take (maxend - Suc (enc_pos out)) (string_bytes x)))
           # take (maxend - Suc (enc_pos out)) (string_bytes x)) = Inr out'"
        using Cons.prems near by (auto simp: Let_def split: list.splits arg.splits)
      then show thesis using that near by (auto simp: enc_pos_def)
    next
      case buf
      then obtain b args' where a: "args = Buf b # args'"
        using Cons.prems near by (auto simp: Let_def split: list.splits arg.splits)
      let ?v = "if length b > maxend - enc_pos out then maxend - enc_pos out else length b"
      have "encode_params maxend ts args' (out @ of_nat ?v # take ?v b) = Inr out'"
        using Cons.prems near a buf by (auto simp: Let_def)
      then show thesis by (rule that) (use near in \<open>auto simp: enc_pos_def\<close>)
    qed
  qed
  with Cons.IH [OF step(1)] near show ?case by simp
qed simp


lemma decode_ints:
  assumes "msg = pre @ concat (map encode_int vs) @ post" "mend = length pre + length (concat (map encode_int vs))"
  shows "msgblock_decode_loop (length vs) msg (length pre) mend data = Some (Some (data @ vs))"
  using assms
proof (induction vs arbitrary: pre data)
  case (Cons v vs)
  have ne: "0 < length (encode_int v)" using encode_int_length [of v] by linarith
  have p: "parse_int msg (length pre) = Some (v, length (pre @ encode_int v))"
    using parse_int_encode [of pre v "concat (map encode_int vs) @ post"] Cons.prems(1) by simp
  have "msgblock_decode_loop (length vs) msg (length (pre @ encode_int v)) mend (data @ [v])
      = Some (Some ((data @ [v]) @ vs))"
    by (rule Cons.IH) (use Cons.prems in simp_all)
  with p ne Cons.prems(2) show ?case by simp
qed simp

text \<open>A message id that fits the optimised encoder is encoded like any integer.\<close>

lemma encode_msgid_int:
  assumes "m < 0x60 \<or> 0x80 \<le> m \<and> m < 0x3000"
  shows "encode_msgid m = encode_int m"
proof -
  have u: "unat m < 0x60 \<or> 0x80 \<le> unat m \<and> unat m < 0x3000"
    using assms by (simp add: word_less_nat_alt word_le_nat_alt)
  define k where "k = int (unat m)"
  have s: "sint m = k" unfolding k_def using u by (intro sint_small) auto
  have k: "0 \<le> k" "k < 96 \<or> 128 \<le> k \<and> k < 12288" using u unfolding k_def by linarith+
  have "drop_bit 7 m AND 0x7f = drop_bit 7 m" if "unat m < 0x3000"
  proof -
    have "\<not> bit m n" if "14 \<le> n" for n
      using small_word_bits [of m 14 n] that \<open>unat m < 0x3000\<close> by simp
    then show ?thesis unfolding mask7
      by (intro bit_word_eqI) (auto simp: bit_simps not_le [symmetric])
  qed
  moreover have "unat (0x80 :: u32) = 128" by simp
  then have "m \<ge> 0x80 \<longleftrightarrow> 128 \<le> k" unfolding word_le_nat_alt k_def by linarith
  moreover have "unat m < 0x3000" using u by linarith
  ultimately show ?thesis
    using k by (auto simp: encode_msgid_def encode_int_def s Let_def)
qed

lemma encodef_ints:
  assumes ts: "int_params (ce_param_types ce)" "length vs = length (ce_param_types ce)"
    and m: "ce_msgid ce < 0x60 \<or> 0x80 \<le> ce_msgid ce \<and> ce_msgid ce < 0x3000"
    and sz: "7 + 5 * length vs \<le> unat (ce_max_size ce)" "unat (ce_max_size ce) \<le> length buf"
  obtains out where "out = concat (map encode_int (ce_msgid ce # vs))"
    "command_encodef buf ce (map U vs) = Inr (take 2 buf @ out @ drop (2 + length out) buf, length out + 5)"
    "length out + 5 \<le> unat (ce_max_size ce)"
proof -
  let ?out = "concat (map encode_int (ce_msgid ce # vs))"
  have l2: "length (encode_msgid (ce_msgid ce)) \<le> 2" by (simp add: encode_msgid_def)
  have lv: "length (concat (map encode_int us)) \<le> 5 * length us" for us
    by (induction us) (use encode_int_length in \<open>auto simp: add_mono\<close>)
  have e: "encode_params (2 + (unat (ce_max_size ce) - 5)) (ce_param_types ce) (map U vs) (encode_msgid (ce_msgid ce))
      = Inr ?out"
    using encode_params_ints [OF ts, of "encode_msgid (ce_msgid ce)"] l2 sz ts(2)
    by (simp add: enc_pos_def message_consts encode_msgid_int [OF m])
  have l: "length ?out + 5 \<le> unat (ce_max_size ce)"
    using l2 lv [of vs] sz by (simp add: encode_msgid_int [OF m, symmetric])
  have "command_encodef buf ce (map U vs) = Inr (take 2 buf @ ?out @ drop (2 + length ?out) buf, length ?out + 5)"
    using e l sz by (simp add: command_encodef_def Let_def message_consts write_bytes_def enc_pos_def)
  then show thesis using that l by blast
qed


section \<open>Messages of the host\<close>

lemma encode_loop_ok:
  assumes "length msg = MESSAGE_MAX" "p \<le> MESSAGE_PAYLOAD_MAX"
  obtains (fits) msg' where "encode_loop vs msg p = Some (msg', Some (p + length (concat (map encode_int vs))))"
      "length msg' = MESSAGE_MAX" "p + length (concat (map encode_int vs)) \<le> MESSAGE_PAYLOAD_MAX"
      "take (p + length (concat (map encode_int vs))) msg' = take p msg @ concat (map encode_int vs)"
  | (over) msg' where "encode_loop vs msg p = Some (msg', None)"
      "MESSAGE_PAYLOAD_MAX < p + length (concat (map encode_int vs))" "length msg' = MESSAGE_MAX"
  using assms
proof (induction vs arbitrary: msg p thesis)
  case Nil
  then show ?case by simp
next
  case (Cons v vs)
  let ?e = "encode_int v"
  let ?m = "take p msg @ ?e @ drop (p + length ?e) msg"
  have "length ?e \<le> 5" using encode_int_length by simp
  then have w: "write_bytes msg p ?e = Some ?m" "length ?m = MESSAGE_MAX"
    using Cons.prems(3,4) by (simp_all add: write_bytes_def message_consts)
  show ?case
  proof (cases "p + length ?e > MESSAGE_PAYLOAD_MAX")
    case True
    then show ?thesis using w by (intro Cons.prems(2) [of ?m]) simp_all
  next
    case False
    then have le: "p + length ?e \<le> MESSAGE_PAYLOAD_MAX" by simp
    have t: "take (p + length ?e) ?m = take p msg @ ?e"
      using Cons.prems(3,4) by (simp add: message_consts)
    show ?thesis
    proof (rule Cons.IH [where msg = ?m and p = "p + length ?e"])
      fix m' assume "encode_loop vs ?m (p + length ?e) = Some (m', Some (p + length ?e + length (concat (map encode_int vs))))"
        "length m' = MESSAGE_MAX" "p + length ?e + length (concat (map encode_int vs)) \<le> MESSAGE_PAYLOAD_MAX"
        "take (p + length ?e + length (concat (map encode_int vs))) m' = take (p + length ?e) ?m @ concat (map encode_int vs)"
      then show ?thesis using w False t by (intro Cons.prems(1) [of m']) (simp_all add: add.assoc)
    next
      fix m' assume "encode_loop vs ?m (p + length ?e) = Some (m', None)"
        "MESSAGE_PAYLOAD_MAX < p + length ?e + length (concat (map encode_int vs))" "length m' = MESSAGE_MAX"
      then show ?thesis using w False by (intro Cons.prems(2) [of m']) (simp_all add: add.assoc)
    qed (rule w le)+
  qed
qed

section \<open>Clocks\<close>

lemma take_bit_low:
  "take_bit 32 (take_bit 64 a + take_bit 64 b) = take_bit 32 (a + b :: int)"
  "take_bit 32 (take_bit 64 a - take_bit 64 b) = take_bit 32 (a - b :: int)"
  using take_bit_add [of 32 "take_bit 64 a" "take_bit 64 b"] take_bit_add [of 32 a b]
    take_bit_diff [of 32 "take_bit 64 a" "take_bit 64 b"] take_bit_diff [of 32 a b]
  by simp_all

lemma ucast_clock:
  "(ucast (a + b :: u64) :: u32) = ucast a + ucast b" "(ucast (a - b :: u64) :: u32) = ucast a - ucast b"
  "(ucast (ucast (c :: u32) :: u64) :: u32) = c" "(ucast (scast c :: u64) :: u32) = c"
  "sint (scast c :: u64) = sint c"
  by (transfer, simp add: take_bit_low take_bit_signed_take_bit signed_take_bit_take_bit)+

section \<open>Properties\<close>

text \<open>
  An integer written by \<open>encode_int\<close> anywhere in a buffer takes one to five bytes and is read
  back by \<open>parse_int\<close>, which stops behind its last byte.
\<close>

theorem vlq_roundtrip:
  "parse_int (xs @ encode_int v @ ys) (length xs) = Some (v, length xs + length (encode_int v))
   \<and> 1 \<le> length (encode_int v) \<and> length (encode_int v) \<le> 5"
  using parse_int_encode encode_int_length by simp

text \<open>C20: the table-free checksum is the bit-serial CRC-16/CCITT of the buffer.\<close>

theorem crc16_ccitt_is_reference: "crc16_ccitt buf len = crc_reference (take len buf)"
  by (rule crc16_ccitt_reference)

text \<open>C21: the checksum detects every change that is confined to two adjacent bytes.\<close>

theorem crc16_ccitt_detects:
  assumes "(a1, a2) \<noteq> (b1, b2)" "length xs + 2 \<le> len"
  shows "crc16_ccitt (xs @ [a1, a2] @ ys) len \<noteq> crc16_ccitt (xs @ [b1, b2] @ ys) len"
proof -
  have "take len (xs @ [p, q] @ ys) = xs @ [p, q] @ take (len - length xs - 2) ys" for p q
    using assms(2) by (simp add: take_Cons' numeral_2_eq_2)
  then show ?thesis using assms(1) crc_two_bytes unfolding crc16_ccitt_def by metis
qed

theorem crc16_ccitt_detects_witness:
  "crc16_ccitt ([5] @ [1, 2] @ [7]) 4 \<noteq> crc16_ccitt ([5] @ [3, 2] @ [7]) 4"
  by (rule crc16_ccitt_detects) simp_all

text \<open>
  C14: the block finder always returns, consumes no more than it was given, and never gets stuck:
  it asks for more data only below the maximal block size and otherwise consumes something.
\<close>

theorem find_block_progress:
  assumes "n \<le> length buf"
  shows "\<exists>r pop s'. command_find_block buf n s = (Inr (r, pop), s') \<and> pop \<le> n \<and> r \<in> {- 1, 0, 1}
     \<and> (r = 0 \<longleftrightarrow> pop = 0) \<and> (r = 0 \<longrightarrow> n < MESSAGE_MAX \<and> s' = s)"
  using assms
proof (cases rule: find_block_cases [where s = s])
  case more
  then show ?thesis by auto
next
  case (block k s')
  then show ?thesis by (auto simp: found_def message_consts)
next
  case (nak k s')
  then show ?thesis by (auto simp: found_def message_consts)
next
  case (garbage pop s')
  then show ?thesis by auto
qed

theorem find_block_progress_witness:
  "\<exists>r pop s'. command_find_block ack_block 5 comm_static = (Inr (r, pop), s') \<and> pop \<le> 5 \<and> r \<in> {- 1, 0, 1}
     \<and> (r = 0 \<longleftrightarrow> pop = 0) \<and> (r = 0 \<longrightarrow> 5 < MESSAGE_MAX \<and> s' = comm_static)"
  by (rule find_block_progress) (simp add: ack_block_def)





text \<open>
  C12: dispatching a block that the finder has accepted reads nothing outside the block and
  always returns, whatever its contents, provided the handlers do: a parser error is a
  shutdown, never an undefined operation or an endless loop.
\<close>

theorem command_dispatch_safe:
  assumes "valid_block (take n buf)" "n \<le> length buf" "table_ok P idx" "board_blind P"
  shows "sound P (command_dispatch idx buf n)"
  by (rule dispatch_sound [OF assms])

definition example_table :: "comm command_parser list" where
  "example_table = [\<lparr>cp_num_args = 0, cp_flags = 0, cp_param_types = [], cp_func = (\<lambda>_. ret ())\<rparr>,
     \<lparr>cp_num_args = 3, cp_flags = 0, cp_param_types = [PT_uint32, PT_buffer],
      cp_func = (\<lambda>args. shutdown ''f'' ''g'')\<rparr>]"

theorem command_dispatch_safe_witness:
  "sound (\<lambda>s. sync_state s = 0) (command_dispatch example_table ack_block 5)"
proof (rule command_dispatch_safe)
  show "valid_block (take 5 ack_block)" using ack_block_valid by (simp add: ack_block_def)
  show "board_blind (\<lambda>s :: comm. sync_state s = 0)" by (simp add: board_blind_def)
  then show "table_ok (\<lambda>s. sync_state s = 0) example_table"
    by (auto simp: table_ok_def example_table_def arg_count_def intro: sound_basic sound_shutdown)
qed (simp add: ack_block_def)




text \<open>
  Whatever the parameters and arguments, an encoded message is at most five bytes longer than
  the size declared for it, so a transmit buffer with that much room is never left.
\<close>

theorem encodef_bounded:
  assumes "unat (ce_max_size ce) + 5 \<le> length buf" "7 \<le> unat (ce_max_size ce)"
  shows "case command_encodef buf ce args of
       Inr (buf', n) \<Rightarrow> n \<le> unat (ce_max_size ce) + 5 \<and> length buf' = length buf
     | Inl e \<Rightarrow> e \<noteq> Fault ''write past the buffer''"
proof -
  define m where "m = unat (ce_max_size ce)"
  have m: "7 \<le> m" "m + 5 \<le> length buf" using assms by (simp_all add: m_def)
  let ?e = "encode_params (2 + (m - 5)) (ce_param_types ce) args (encode_msgid (ce_msgid ce))"
  have nf: "encode_params k ts as out \<noteq> Inl (Fault ''write past the buffer'')" for k ts as out
    by (induction k ts as out rule: encode_params.induct) (auto simp: Let_def split: list.splits arg.splits)
  show ?thesis
  proof (cases ?e)
    case (Inl x)
    then show ?thesis
      using m nf by (auto simp: command_encodef_def m_def [symmetric] message_consts Let_def)
  next
    case (Inr out)
    have "length (encode_msgid (ce_msgid ce)) \<le> 2" by (simp add: encode_msgid_def)
    with encode_params_bound [OF Inr] m have "enc_pos out + 3 \<le> m + 5" by (simp add: enc_pos_def message_consts)
    then show ?thesis
      using Inr m by (auto simp: command_encodef_def m_def [symmetric] message_consts Let_def write_bytes_def enc_pos_def)
  qed
qed

theorem encodef_bounded_witness:
  "case command_encodef (replicate 96 0) \<lparr>ce_msgid = 1, ce_max_size = 64, ce_param_types = [PT_buffer]\<rparr>
       [Buf (replicate 200 1)] of
     Inr (buf', n) \<Rightarrow> n \<le> 69 \<and> length buf' = 96
   | Inl e \<Rightarrow> e \<noteq> Fault ''write past the buffer''"
  using encodef_bounded [of "\<lparr>ce_msgid = 1, ce_max_size = 64, ce_param_types = [PT_buffer]\<rparr>" "replicate 96 0"
      "[Buf (replicate 200 1)]"] by (simp split: sum.splits prod.splits)

text \<open>
  C36: the truncation of buffer arguments leaves no room for the length byte: a long enough
  buffer gives a message of 65 bytes from an encoder with the maximal size 64, and the
  host's check refuses the framed message.
\<close>

theorem encodef_buffer_overlong:
  "\<exists>buf' n. command_encode_and_frame 0x10 (replicate 96 0)
       \<lparr>ce_msgid = 1, ce_max_size = 64, ce_param_types = [PT_uint32, PT_progmem_buffer]\<rparr>
       [U 0, Buf (replicate 64 0xaa)] = Inr (buf', n)
     \<and> n = MESSAGE_MAX + 1 \<and> fst (msgblock_check False buf' n) < 0"
proof -
  let ?ce = "\<lparr>ce_msgid = 1, ce_max_size = 64, ce_param_types = [PT_uint32, PT_progmem_buffer]\<rparr>"
  have ei: "encode_int 0 = [0]" "encode_msgid 1 = [1]"
    by (simp_all add: encode_int_def encode_msgid_def word_le_nat_alt)
  have "encode_params 61 [PT_uint32, PT_progmem_buffer] [U 0, Buf (replicate 64 0xaa)] [1]
      = Inr ([1, 0, 57] @ replicate 57 0xaa)"
    by (simp add: enc_pos_def message_consts ei Let_def)
  then obtain b where "command_encodef (replicate 96 0) ?ce [U 0, Buf (replicate 64 0xaa)] = Inr (b, 65)" "length b = 96"
    by (simp add: command_encodef_def message_consts ei write_bytes_def enc_pos_def)
  moreover from this obtain buf' where "command_add_frame 0x10 b 65 = Inr buf'" "buf' ! 0 = 65"
    by (cases b) (simp_all add: command_add_frame_def message_consts Let_def)
  ultimately show ?thesis
    by (auto simp: command_encode_and_frame_def msgblock_check_def message_consts msgblock_error_def Let_def
        split: option.splits)
qed

text \<open>
  The host's encoder never writes past a message; the contents are empty or at most 59 bytes
  long and are the encodings of the given integers.
\<close>

theorem message_alloc_and_encode_ok:
  "\<exists>qm. message_alloc_and_encode data = Some qm \<and> length (qm_msg qm) = MESSAGE_MAX \<and> qm_len qm \<le> MESSAGE_PAYLOAD_MAX
     \<and> (if length (concat (map encode_int data)) \<le> MESSAGE_PAYLOAD_MAX
        then take (qm_len qm) (qm_msg qm) = concat (map encode_int data) else qm_len qm = 0)"
proof -
  have "length (qm_msg message_alloc) = MESSAGE_MAX" "0 \<le> MESSAGE_PAYLOAD_MAX" by (simp_all add: message_alloc_def)
  then show ?thesis
  proof (cases rule: encode_loop_ok [where vs = data])
    case (fits msg')
    then show ?thesis by (simp add: message_alloc_and_encode_def)
  next
    case (over msg')
    then show ?thesis by (simp add: message_alloc_and_encode_def)
  qed
qed

text \<open>
  Extending a 32 bit clock gives the 64 bit clock with these low bits that is nearest to the
  last known clock, across the wrap of the 32 bit counter.
\<close>

theorem clock_from_clock32_nearest:
  "ucast (clock_from_clock32 last_clock clock32) = clock32
   \<and> - (2 ^ 31) \<le> sint (clock_from_clock32 last_clock clock32 - last_clock)
   \<and> sint (clock_from_clock32 last_clock clock32 - last_clock) < 2 ^ 31"
proof -
  have "- (2 ^ 31) \<le> sint (x :: u32)" "sint x < 2 ^ 31" for x
    using sint_ge [of x] sint_lt [of x] by simp_all
  then show ?thesis by (simp add: clock_from_clock32_def ucast_clock)
qed

end
