(* ===== verification/Basecmd.thy ===== *)
theory Basecmd
  imports Command
begin

text \<open>
  Basic infrastructure of the firmware, \<open>src/src/basecmd.c\<close> and \<open>src/src/generic/alloc.c\<close>:
  memory chunks, the pool of move nodes and the queues threaded through it, object ids,
  configuration, and load statistics.

  Addresses are natural numbers and \<open>None\<close> is the null pointer.  Memory is typed: the \<open>next\<close>
  pointers of all move nodes are the store \<open>mnext\<close>, and each kind of object has a store of
  its own in the component that owns it.
\<close>

section \<open>State\<close>

text \<open>The identity of an object type is the address of its config command.\<close>

datatype oid_type = Oid_stepper | Oid_trsync | Oid_endstop | Oid_digital_out | Oid_soft_pwm | Oid_pwm_out
  | Oid_analog_in | Oid_buttons | Oid_counter | Oid_tmcuart | Oid_spi | Oid_spi_shutdown | Oid_neopixel
  | Oid_thermocouple
  | Oid_sos_filter | Oid_load_cell_endstop | Oid_i2c | Oid_shutdown_pins | Oid_por
  | Oid_hx71x | Oid_cs123x | Oid_adxl345 | Oid_lis2dw | Oid_ads1220

record oid_s =
  o_type :: "oid_type option"
  o_data :: "nat option"

record base = comm +
  dynmem_start :: nat
  dynmem_end :: nat
  alloc_end :: nat
  move_free_list :: "nat option"
  move_list :: "nat option"
  move_count :: u16
  move_item_size :: u8
  mnext :: "nat \<Rightarrow> nat option"
  oids :: "oid_s list option"
  oid_count :: u8
  config_crc :: u32
  stats_send_time :: u32
  stats_send_time_high :: u32
  stats_count :: u32
  stats_sum :: u32
  stats_sumsq :: u32

record move_queue_head =
  mq_first :: "nat option"
  mq_last :: "nat option"

section \<open>Low level allocation\<close>

definition ALIGN :: "nat \<Rightarrow> nat \<Rightarrow> nat" where
  "ALIGN x a = (x + (a - 1)) div a * a"

definition PTR_SIZE :: nat where "PTR_SIZE = 4"

definition alloc_init :: "('s base_scheme, unit) cmd" where
  "alloc_init = modify (\<lambda>s. s\<lparr>alloc_end := ALIGN (dynmem_start s) PTR_SIZE\<rparr>)"

definition alloc_chunk :: "nat \<Rightarrow> ('s base_scheme, nat) cmd" where
  "alloc_chunk sz =
     mbind (gets alloc_end) (\<lambda>data.
     mbind (gets dynmem_end) (\<lambda>e.
     if data + sz > e then shutdown ''alloc_chunk'' ''alloc_chunk failed''
     else mseq (modify (\<lambda>s. s\<lparr>alloc_end := data + ALIGN sz PTR_SIZE\<rparr>)) (ret data)))"

text \<open>The loop of \<open>alloc_chunks\<close>: how many chunks fit, and the end of the last.\<close>

function alloc_count :: "nat \<Rightarrow> nat \<Rightarrow> nat \<Rightarrow> nat \<Rightarrow> nat \<Rightarrow> nat \<times> nat" where
  "alloc_count sz count e can_alloc p =
     (if can_alloc < count \<and> p + sz \<le> e then alloc_count sz count e (Suc can_alloc) (p + sz)
      else (can_alloc, p))"
  by pat_completeness auto
termination
  by (relation "measure (\<lambda>(sz, count, e, c, p). count - c)") auto

declare alloc_count.simps [simp del]

definition alloc_chunks :: "nat \<Rightarrow> nat \<Rightarrow> ('s base_scheme, nat \<times> u16) cmd" where
  "alloc_chunks sz count =
     mbind (gets alloc_end) (\<lambda>start.
     mbind (gets dynmem_end) (\<lambda>e.
     let (can_alloc, p) = alloc_count sz count e 0 start
     in if can_alloc = 0 then shutdown ''alloc_chunks'' ''alloc_chunks failed''
        else mbind (alloc_chunk (p - start)) (\<lambda>data. ret (data, of_nat can_alloc))))"

section \<open>Move queue\<close>

definition is_finalized :: "'s base_scheme \<Rightarrow> bool" where
  "is_finalized s \<longleftrightarrow> move_count s \<noteq> 0"

definition set_mnext :: "nat \<Rightarrow> nat option \<Rightarrow> 's base_scheme \<Rightarrow> 's base_scheme" where
  "set_mnext p v s = s\<lparr>mnext := (mnext s)(p := v)\<rparr>"

definition move_free :: "nat \<Rightarrow> ('s base_scheme, unit) cmd" where
  "move_free m = mseq (modify (\<lambda>s. set_mnext m (move_free_list s) s))
     (modify (\<lambda>s. s\<lparr>move_free_list := Some m\<rparr>))"

definition move_alloc :: "('s base_scheme, nat) cmd" where
  "move_alloc = mbind (gets move_free_list) (\<lambda>mf.
     case mf of
       None \<Rightarrow> shutdown ''move_alloc'' ''Move queue overflow''
     | Some m \<Rightarrow> mseq (modify (\<lambda>s. s\<lparr>move_free_list := mnext s m\<rparr>)) (ret m))"

definition move_queue_empty :: "move_queue_head \<Rightarrow> bool" where
  "move_queue_empty mh \<longleftrightarrow> mq_first mh = None"

definition move_queue_first :: "move_queue_head \<Rightarrow> nat option" where
  "move_queue_first mh = mq_first mh"

text \<open>The head is passed and returned by value: the result and the new head.\<close>

definition move_queue_push :: "nat \<Rightarrow> move_queue_head \<Rightarrow> ('s base_scheme, bool \<times> move_queue_head) cmd" where
  "move_queue_push m mh = mseq (modify (set_mnext m None))
     (if mq_first mh \<noteq> None then
        mbind (deref (mq_last mh)) (\<lambda>l.
        mseq (modify (set_mnext l (Some m))) (ret (False, mh\<lparr>mq_last := Some m\<rparr>)))
      else ret (True, mh\<lparr>mq_first := Some m, mq_last := Some m\<rparr>))"

definition move_queue_pop :: "move_queue_head \<Rightarrow> ('s base_scheme, nat \<times> move_queue_head) cmd" where
  "move_queue_pop mh = mbind (deref (mq_first mh)) (\<lambda>mn.
     mbind (gets (\<lambda>s. mnext s mn)) (\<lambda>nx. ret (mn, mh\<lparr>mq_first := nx\<rparr>)))"

definition move_queue_clear :: "move_queue_head \<Rightarrow> move_queue_head" where
  "move_queue_clear mh = mh\<lparr>mq_first := None\<rparr>"

definition move_queue_setup :: "nat \<Rightarrow> ('s base_scheme, move_queue_head) cmd" where
  "move_queue_setup sz = mbind (gets is_finalized) (\<lambda>fin.
     if sz > 255 \<or> fin then shutdown ''move_queue_setup'' ''Invalid move request size''
     else mseq (modify (\<lambda>s. if sz > unat (move_item_size s) then s\<lparr>move_item_size := of_nat sz\<rparr> else s))
       (ret \<lparr>mq_first = None, mq_last = None\<rparr>))"

text \<open>The node with index \<open>i\<close> of the pool.\<close>

definition move_node :: "nat \<Rightarrow> nat \<Rightarrow> nat \<Rightarrow> nat" where
  "move_node start item_size i = start + i * item_size"

definition move_reset :: "('s base_scheme, unit) cmd" where
  "move_reset = mbind (gets move_count) (\<lambda>count.
     if count = 0 then ret ()
     else mbind (mbind (gets move_list) deref) (\<lambda>start.
       mbind (gets (\<lambda>s. unat (move_item_size s))) (\<lambda>sz.
       mseq (modify (\<lambda>s. fold (\<lambda>i. set_mnext (move_node start sz i) (Some (move_node start sz (i + 1))))
                [0..<unat count - 1] s)) (
       mseq (modify (set_mnext (move_node start sz (unat count - 1)) None))
       (modify (\<lambda>s. s\<lparr>move_free_list := Some start\<rparr>))))))"

definition move_finalize :: "('s base_scheme, unit) cmd" where
  "move_finalize = mbind (gets is_finalized) (\<lambda>fin.
     if fin then shutdown ''move_finalize'' ''Already finalized''
     else mseq (move_queue_setup PTR_SIZE) (
       mbind (gets (\<lambda>s. unat (move_item_size s))) (\<lambda>sz.
       mbind (alloc_chunks sz 4096) (\<lambda>(data, avail).
       mseq (modify (\<lambda>s. s\<lparr>move_list := Some data, move_count := avail\<rparr>)) move_reset))))"

section \<open>Generic object ids\<close>

text \<open>Reading the table of object ids: a missing table or entry is an undefined operation.\<close>

definition oid_entry :: "u8 \<Rightarrow> ('s base_scheme, oid_s) cmd" where
  "oid_entry oid = mbind (mbind (gets oids) deref) (\<lambda>tab.
     if unat oid < length tab then ret (tab ! unat oid) else fail (Fault ''oids array overflow''))"

definition oid_lookup :: "string \<Rightarrow> u8 \<Rightarrow> oid_type \<Rightarrow> ('s base_scheme, nat option) cmd" where
  "oid_lookup func oid ty =
     (let bad = mseq (sendf ''Invalid oid type %u %s'' [U (ucast oid), Str func])
                  (shutdown ''__oid_lookup'' ''Invalid oid type'')
      in mbind (gets oid_count) (\<lambda>count.
         if oid \<ge> count then bad
         else mbind (oid_entry oid) (\<lambda>e. if o_type e \<noteq> Some ty then bad else ret (o_data e))))"

definition set_oid :: "u8 \<Rightarrow> (oid_s \<Rightarrow> oid_s) \<Rightarrow> 's base_scheme \<Rightarrow> 's base_scheme" where
  "set_oid oid f s = s\<lparr>oids := map_option (\<lambda>tab. tab[unat oid := f (tab ! unat oid)]) (oids s)\<rparr>"

definition oid_alloc :: "u8 \<Rightarrow> oid_type \<Rightarrow> nat \<Rightarrow> ('s base_scheme, nat) cmd" where
  "oid_alloc oid ty sz =
     (let bad = shutdown ''oid_alloc'' ''Can't assign oid''
      in mbind (gets oid_count) (\<lambda>count.
         if oid \<ge> count then bad
         else mbind (oid_entry oid) (\<lambda>e.
           if o_type e \<noteq> None then bad
           else mbind (gets is_finalized) (\<lambda>fin.
             if fin then bad
             else mseq (modify (set_oid oid (\<lambda>e. e\<lparr>o_type := Some ty\<rparr>))) (
               mbind (alloc_chunk (sz mod 2 ^ 16)) (\<lambda>data.
               mseq (modify (set_oid oid (\<lambda>e. e\<lparr>o_data := Some data\<rparr>))) (ret data)))))))"

lemma u8_succ: "unat (x :: u8) < 255 \<Longrightarrow> unat (x + 1) = unat x + 1"
  by (simp add: unat_plus_if')

text \<open>
  \<open>oid_next\<close>: the next object of a type behind \<open>oid\<close> and its data.  The byte \<open>oid\<close> wraps once, from
  the start value -1.
\<close>

function oid_search :: "oid_s list \<Rightarrow> u8 \<Rightarrow> oid_type \<Rightarrow> u8 \<Rightarrow> (u8 \<times> nat option) option" where
  "oid_search tab count ty oid =
     (let oid' = oid + 1
      in if oid' \<ge> count then None
         else if o_type (tab ! unat oid') = Some ty then Some (oid', o_data (tab ! unat oid'))
         else oid_search tab count ty oid')"
  by pat_completeness auto
termination
proof (relation "measure (\<lambda>(tab, count, ty, oid). 256 - unat (oid + 1))", simp, clarify)
  fix count oid :: u8
  assume "\<not> count \<le> oid + 1"
  then have "unat (oid + 1) < unat count" by (simp add: word_less_nat_alt not_le)
  moreover have "unat count < 256" by (rule unat_bounds)
  ultimately have l: "unat (oid + 1) < 255" by linarith
  then have "unat (oid + 1 + 1) = unat (oid + 1) + 1" by (rule u8_succ)
  with l show "((tab, count, ty, oid + 1), tab, count, ty, oid) \<in> measure (\<lambda>(tab, count, ty, oid). 256 - unat (oid + 1))"
    for tab :: "oid_s list" and ty :: oid_type by simp
qed

declare oid_search.simps [simp del]

definition oid_next :: "u8 \<Rightarrow> oid_type \<Rightarrow> ('s base_scheme, (u8 \<times> nat option) option) cmd" where
  "oid_next i ty = mbind (gets oid_count) (\<lambda>count.
     if i + 1 \<ge> count then ret None
     else mbind (mbind (gets oids) deref) (\<lambda>tab.
       if length tab < unat count then fail (Fault ''oids array overflow'')
       else ret (oid_search tab count ty i)))"

text \<open>The macro \<open>foreach_oid\<close>: the loop ends when \<open>oid_next\<close> returns a null pointer.\<close>

definition foreach_oid :: "oid_type \<Rightarrow> (u8 \<Rightarrow> nat \<Rightarrow> ('s base_scheme, unit) cmd) \<Rightarrow> ('s base_scheme, unit) cmd" where
  "foreach_oid ty body = cloop (\<lambda>pos. mbind (oid_next pos ty) (\<lambda>r.
     case r of
       None \<Rightarrow> ret (Inr ())
     | Some (pos', None) \<Rightarrow> ret (Inr ())
     | Some (pos', Some data) \<Rightarrow> mseq (body pos' data) (ret (Inl pos')))) (- 1)"

definition command_allocate_oids :: "u32 list \<Rightarrow> ('s base_scheme, unit) cmd" where
  "command_allocate_oids args = mbind (gets oids) (\<lambda>t.
     if t \<noteq> None then shutdown ''command_allocate_oids'' ''oids already allocated''
     else let count = ucast (args ! 0) :: u8
       in mseq (alloc_chunk (2 * PTR_SIZE * unat count))
         (modify (\<lambda>s. s\<lparr>oids := Some (replicate (unat count) \<lparr>o_type = None, o_data = None\<rparr>), oid_count := count\<rparr>)))"

section \<open>Configuration\<close>

definition bool32 :: "bool \<Rightarrow> u32" where
  "bool32 b = (if b then 1 else 0)"

definition command_get_config :: "u32 list \<Rightarrow> ('s base_scheme, unit) cmd" where
  "command_get_config args = mbind (gets id) (\<lambda>s.
     sendf ''config is_config=%c crc=%u is_shutdown=%c move_count=%hu''
       [U (bool32 (is_finalized s)), U (config_crc s), U (bool32 (sched_is_shutdown s)), U (ucast (move_count s))])"

definition command_finalize_config :: "u32 list \<Rightarrow> ('s base_scheme, unit) cmd" where
  "command_finalize_config args = mseq move_finalize (modify (\<lambda>s. s\<lparr>config_crc := args ! 0\<rparr>))"

definition config_reset :: "u32 list \<Rightarrow> ('s base_scheme, unit) cmd" where
  "config_reset args = mbind (gets sched_is_shutdown) (\<lambda>down.
     if \<not> down then shutdown ''config_reset'' ''config_reset only available when shutdown''
     else mseq (modify (\<lambda>s. s\<lparr>config_crc := 0, oid_count := 0, oids := None, move_free_list := None,
                  move_list := None, move_count := 0, move_item_size := 0\<rparr>)) (
          mseq alloc_init (mseq sched_timer_reset sched_clear_shutdown)))"

section \<open>Timing and load statistics\<close>

definition command_get_clock :: "u32 list \<Rightarrow> ('s base_scheme, unit) cmd" where
  "command_get_clock args = mbind timer_read_time (\<lambda>t. sendf ''clock clock=%u'' [U t])"

definition command_get_uptime :: "u32 list \<Rightarrow> ('s base_scheme, unit) cmd" where
  "command_get_uptime args = mbind timer_read_time (\<lambda>cur. mbind (gets id) (\<lambda>s.
     sendf ''uptime high=%u clock=%u'' [U (stats_send_time_high s + bool32 (cur < stats_send_time s)), U cur]))"

definition SUMSQ_BASE :: u32 where "SUMSQ_BASE = 256"

definition DIV_ROUND_UP :: "u32 \<Rightarrow> u32 \<Rightarrow> u32" where
  "DIV_ROUND_UP n d = (n + d - 1) div d"

definition stats_nextsumsq :: "u32 \<Rightarrow> u32 \<Rightarrow> u32" where
  "stats_nextsumsq sumsq diff =
     (let nextsumsq = (if diff \<le> 0xffff then sumsq + DIV_ROUND_UP (diff * diff) SUMSQ_BASE
                       else if diff \<le> 0xfffff then sumsq + DIV_ROUND_UP diff SUMSQ_BASE * diff
                       else 0xffffffff)
      in if nextsumsq < sumsq then 0xffffffff else nextsumsq)"

definition stats_update :: "u32 \<Rightarrow> u32 \<Rightarrow> ('s base_scheme, unit) cmd" where
  "stats_update start cur =
     (let diff = cur - start in
      mseq (modify (\<lambda>s. s\<lparr>stats_count := stats_count s + 1, stats_sum := stats_sum s + diff,
              stats_sumsq := stats_nextsumsq (stats_sumsq s) diff\<rparr>)) (
      mbind (gets id) (\<lambda>s.
      if timer_is_before cur (stats_send_time s + timer_from_us s 5000000) then ret ()
      else mseq (sendf ''stats count=%u sum=%u sumsq=%u'' [U (stats_count s), U (stats_sum s), U (stats_sumsq s)]) (
           mseq (modify (\<lambda>s. if cur < stats_send_time s
                   then s\<lparr>stats_send_time_high := stats_send_time_high s + 1\<rparr> else s))
           (modify (\<lambda>s. s\<lparr>stats_send_time := cur, stats_count := 0, stats_sum := 0, stats_sumsq := 0\<rparr>))))))"

section \<open>Miscellaneous commands\<close>

definition command_emergency_stop :: "u32 list \<Rightarrow> ('s base_scheme, unit) cmd" where
  "command_emergency_stop args = shutdown ''command_emergency_stop'' ''Command request''"

definition command_clear_shutdown :: "u32 list \<Rightarrow> ('s base_scheme, unit) cmd" where
  "command_clear_shutdown args = sched_clear_shutdown"

text \<open>\<open>identify_data\<close> is the generated data dictionary.\<close>

definition command_identify :: "u8 list \<Rightarrow> u32 list \<Rightarrow> ('s base_scheme, unit) cmd" where
  "command_identify identify_data args =
     (let offset = args ! 0;
          count0 = ucast (args ! 1) :: u8;
          isize = of_nat (length identify_data) :: u32;
          count = (if offset \<ge> isize then 0
                   else if offset + ucast count0 > isize then ucast (isize - offset) else count0) :: u8
      in sendf ''identify_response offset=%u data=%.*s''
           [U offset, Buf (take (unat count) (drop (unat offset) identify_data))])"

section \<open>Memory\<close>

lemma ALIGN_ge: "sz \<le> ALIGN sz PTR_SIZE"
  unfolding ALIGN_def PTR_SIZE_def by presburger

lemma alloc_chunk_ok:
  "alloc_end s + sz \<le> dynmem_end s \<Longrightarrow>
   alloc_chunk sz s = (Inr (alloc_end s), s\<lparr>alloc_end := alloc_end s + ALIGN sz PTR_SIZE\<rparr>)"
  by (simp add: alloc_chunk_def run_simps)

lemma alloc_chunk_fail:
  "\<not> alloc_end s + sz \<le> dynmem_end s \<Longrightarrow> alloc_chunk sz s = shutdown ''alloc_chunk'' ''alloc_chunk failed'' s"
  by (simp add: alloc_chunk_def run_simps)

text \<open>A sequence of allocations.\<close>

fun alloc_all :: "nat list \<Rightarrow> ('s base_scheme, nat list) cmd" where
  "alloc_all [] = ret []"
| "alloc_all (sz # szs) = mbind (alloc_chunk sz) (\<lambda>a. mbind (alloc_all szs) (\<lambda>as. ret (a # as)))"

text \<open>Chunks in increasing order from \<open>lo\<close> on that do not overlap and end at most at \<open>hi\<close>.\<close>

fun chunks_within :: "nat \<Rightarrow> nat \<Rightarrow> nat list \<Rightarrow> nat list \<Rightarrow> bool" where
  "chunks_within lo hi [] [] \<longleftrightarrow> True"
| "chunks_within lo hi (a # as) (sz # szs) \<longleftrightarrow> lo \<le> a \<and> a + sz \<le> hi \<and> chunks_within (a + sz) hi as szs"
| "chunks_within lo hi _ _ \<longleftrightarrow> False"

lemma chunks_within_mono: "chunks_within lo' hi as szs \<Longrightarrow> lo \<le> lo' \<Longrightarrow> chunks_within lo hi as szs"
  by (cases as; cases szs) auto

lemma alloc_all_chunks:
  "alloc_all szs s = (Inr as, t) \<Longrightarrow> chunks_within (alloc_end s) (dynmem_end s) as szs"
proof (induction szs arbitrary: s as)
  case (Cons sz szs)
  show ?case
  proof (cases "alloc_end s + sz \<le> dynmem_end s")
    case True
    let ?s = "s\<lparr>alloc_end := alloc_end s + ALIGN sz PTR_SIZE\<rparr>"
    from Cons.prems True obtain as' where as: "as = alloc_end s # as'" and r: "alloc_all szs ?s = (Inr as', t)"
      by (auto simp: alloc_chunk_ok mbind_def split: prod.splits sum.splits)
    have "chunks_within (alloc_end s + ALIGN sz PTR_SIZE) (dynmem_end s) as' szs"
      using Cons.IH [OF r] by simp
    then have "chunks_within (alloc_end s + sz) (dynmem_end s) as' szs"
      by (rule chunks_within_mono) (simp add: ALIGN_ge)
    then show ?thesis using True by (simp add: as)
  next
    case False
    then show ?thesis using Cons.prems by (simp add: alloc_chunk_fail mbind_def shutdown_run)
  qed
qed simp

section \<open>The pool of move nodes\<close>

definition free_nodes :: "'s base_scheme \<Rightarrow> nat list \<Rightarrow> bool" where
  "free_nodes s xs \<longleftrightarrow> lseg (mnext s) (move_free_list s) xs None"

definition queue_nodes :: "'s base_scheme \<Rightarrow> move_queue_head \<Rightarrow> nat list \<Rightarrow> bool" where
  "queue_nodes s mh xs \<longleftrightarrow> lseg (mnext s) (mq_first mh) xs None \<and> (xs \<noteq> [] \<longrightarrow> mq_last mh = Some (last xs))"

lemma queue_nodes_empty: "queue_nodes s mh xs \<Longrightarrow> move_queue_empty mh \<longleftrightarrow> xs = []"
  by (cases xs) (auto simp: queue_nodes_def move_queue_empty_def)

lemma queue_nodes_distinct: "queue_nodes s mh xs \<Longrightarrow> distinct xs"
  by (auto simp: queue_nodes_def intro: lseg_distinct)

lemma queue_nodes_mnext: "mnext t = mnext s \<Longrightarrow> queue_nodes t mh xs = queue_nodes s mh xs"
  by (simp add: queue_nodes_def)

lemma free_nodes_mnext: "mnext t = mnext s \<Longrightarrow> move_free_list t = move_free_list s \<Longrightarrow> free_nodes t xs = free_nodes s xs"
  by (simp add: free_nodes_def)

lemma set_mnext_sel [simp]:
  "mnext (set_mnext p v s) = (mnext s)(p := v)" "move_free_list (set_mnext p v s) = move_free_list s"
  by (simp_all add: set_mnext_def)

text \<open>A queue is untouched by what happens to nodes outside of it.\<close>

lemma queue_nodes_frame: "p \<notin> set xs \<Longrightarrow> queue_nodes (set_mnext p v s) mh xs = queue_nodes s mh xs"
  by (simp add: queue_nodes_def)

lemma move_alloc_run:
  assumes "free_nodes s (x # xs)"
  shows "move_alloc s = (Inr x, s\<lparr>move_free_list := mnext s x\<rparr>)" "free_nodes (s\<lparr>move_free_list := mnext s x\<rparr>) xs"
  using assms by (simp_all add: move_alloc_def free_nodes_def run_simps)

lemma move_alloc_empty:
  "free_nodes s [] \<Longrightarrow> move_alloc s = shutdown ''move_alloc'' ''Move queue overflow'' s"
  by (simp add: move_alloc_def free_nodes_def run_simps)

lemma move_free_run:
  "move_free m s = (Inr (), (set_mnext m (move_free_list s) s)\<lparr>move_free_list := Some m\<rparr>)"
  by (simp add: move_free_def run_simps)

lemma move_free_nodes:
  "free_nodes s xs \<Longrightarrow> m \<notin> set xs \<Longrightarrow> free_nodes ((set_mnext m (move_free_list s) s)\<lparr>move_free_list := Some m\<rparr>) (m # xs)"
  by (simp add: free_nodes_def)

lemma move_queue_push_run:
  assumes "queue_nodes s mh xs" "n \<notin> set xs"
  shows "\<exists>mh' s'. move_queue_push n mh s = (Inr (xs = [], mh'), s') \<and> queue_nodes s' mh' (xs @ [n])
    \<and> (\<exists>h. s' = s\<lparr>mnext := h\<rparr> \<and> (\<forall>p. p \<notin> insert n (set xs) \<longrightarrow> h p = mnext s p))"
proof (cases "xs = []")
  case True
  then have "mq_first mh = None" using assms by (simp add: queue_nodes_def)
  then show ?thesis using True
    by (auto simp: move_queue_push_def run_simps queue_nodes_def set_mnext_def)
next
  case False
  let ?h = "(mnext s)(n := None, last xs := Some n)"
  have f: "mq_first mh \<noteq> None" "mq_last mh = Some (last xs)" and l: "lseg (mnext s) (mq_first mh) xs None"
    using assms False by (cases xs; simp add: queue_nodes_def)+
  then have r: "move_queue_push n mh s = (Inr (False, mh\<lparr>mq_last := Some n\<rparr>), s\<lparr>mnext := ?h\<rparr>)"
    by (simp add: move_queue_push_def run_simps deref_def set_mnext_def)
  have "lseg ?h (mq_first mh) (xs @ [n]) None" using l assms(2) False by (rule lseg_snoc)
  then have "queue_nodes (s\<lparr>mnext := ?h\<rparr>) (mh\<lparr>mq_last := Some n\<rparr>) (xs @ [n])"
    by (simp add: queue_nodes_def)
  moreover have "\<forall>p. p \<notin> insert n (set xs) \<longrightarrow> ?h p = mnext s p" using False by auto
  ultimately show ?thesis using False
    by (intro exI [of _ "mh\<lparr>mq_last := Some n\<rparr>"] exI [of _ "s\<lparr>mnext := ?h\<rparr>"]) (auto simp: r)
qed

lemma move_queue_pop_run:
  assumes "queue_nodes s mh (x # xs)"
  shows "move_queue_pop mh s = (Inr (x, mh\<lparr>mq_first := mnext s x\<rparr>), s)" "queue_nodes s (mh\<lparr>mq_first := mnext s x\<rparr>) xs"
  using assms by (auto simp: move_queue_pop_def run_simps deref_def queue_nodes_def)

text \<open>A first-in first-out queue over a store, as the clients of move queues use it.\<close>

fun push_all :: "('n \<Rightarrow> 'h \<Rightarrow> ('s, bool \<times> 'h) cmd) \<Rightarrow> 'n list \<Rightarrow> 'h \<Rightarrow> ('s, 'h) cmd" where
  "push_all push [] h = ret h"
| "push_all push (n # ns) h = mbind (push n h) (\<lambda>(_, h'). push_all push ns h')"

fun pop_all :: "('h \<Rightarrow> ('s, 'n \<times> 'h) cmd) \<Rightarrow> nat \<Rightarrow> 'h \<Rightarrow> ('s, 'n list) cmd" where
  "pop_all pop 0 h = ret []"
| "pop_all pop (Suc k) h = mbind (pop h) (\<lambda>(n, h'). mbind (pop_all pop k h') (\<lambda>ns. ret (n # ns)))"

locale fifo =
  fixes rep :: "'s \<Rightarrow> 'h \<Rightarrow> 'n list \<Rightarrow> bool"
    and push :: "'n \<Rightarrow> 'h \<Rightarrow> ('s, bool \<times> 'h) cmd"
    and pop :: "'h \<Rightarrow> ('s, 'n \<times> 'h) cmd"
  assumes push_rep: "rep s h xs \<Longrightarrow> n \<notin> set xs \<Longrightarrow>
      \<exists>h' s'. push n h s = (Inr (xs = [], h'), s') \<and> rep s' h' (xs @ [n])"
    and pop_rep: "rep s h (x # xs) \<Longrightarrow> \<exists>h'. pop h s = (Inr (x, h'), s) \<and> rep s h' xs"
begin

lemma push_all_rep:
  "rep s h xs \<Longrightarrow> distinct (xs @ ns) \<Longrightarrow> \<exists>h' s'. push_all push ns h s = (Inr h', s') \<and> rep s' h' (xs @ ns)"
proof (induction ns arbitrary: s h xs)
  case (Cons n ns)
  then obtain h1 s1 where p: "push n h s = (Inr (xs = [], h1), s1)" and r: "rep s1 h1 (xs @ [n])"
    using push_rep [of s h xs n] by auto
  from Cons.IH [OF r] Cons.prems(2) obtain h' s' where
    "push_all push ns h1 s1 = (Inr h', s')" "rep s' h' ((xs @ [n]) @ ns)" by auto
  with p show ?case by (auto simp: mbind_def)
qed auto

lemma pop_all_rep: "rep s h xs \<Longrightarrow> pop_all pop (length xs) h s = (Inr xs, s)"
proof (induction xs arbitrary: h)
  case (Cons x xs)
  then obtain h' where "pop h s = (Inr (x, h'), s)" "rep s h' xs" using pop_rep by blast
  with Cons.IH show ?case by (simp add: mbind_def)
qed simp

lemma first_in_first_out:
  assumes "rep s h xs" "distinct (xs @ ns)"
  obtains h' s' where "push_all push ns h s = (Inr h', s')" "rep s' h' (xs @ ns)"
    "pop_all pop (length xs + length ns) h' s' = (Inr (xs @ ns), s')"
  using push_all_rep [OF assms] pop_all_rep by (metis length_append)

end

interpretation mq: fifo queue_nodes move_queue_push move_queue_pop
proof
  fix s :: "'a base_scheme" and h xs n
  assume "queue_nodes s h xs" "n \<notin> set xs"
  then show "\<exists>h' s'. move_queue_push n h s = (Inr (xs = [], h'), s') \<and> queue_nodes s' h' (xs @ [n])"
    using move_queue_push_run by blast
next
  fix s :: "'a base_scheme" and h x xs
  assume "queue_nodes s h (x # xs)"
  then show "\<exists>h'. move_queue_pop h s = (Inr (x, h'), s) \<and> queue_nodes s h' xs"
    using move_queue_pop_run by blast
qed

section \<open>Filling the pool\<close>

lemma alloc_count_props:
  assumes "c \<le> n" "p \<le> e" "alloc_count sz n e c p = (k, q)"
  shows "c \<le> k \<and> k \<le> n \<and> q = p + (k - c) * sz \<and> q \<le> e \<and> (k = n \<or> e < q + sz)"
  using assms
proof (induction sz n e c p rule: alloc_count.induct)
  case (1 sz n e c p)
  show ?case
  proof (cases "c < n \<and> p + sz \<le> e")
    case True
    with 1 have "Suc c \<le> k \<and> k \<le> n \<and> q = p + sz + (k - Suc c) * sz \<and> q \<le> e \<and> (k = n \<or> e < q + sz)"
      by (auto simp add: alloc_count.simps [of sz n e c p])
    moreover from this have "k - c = Suc (k - Suc c)" by linarith
    ultimately show ?thesis by auto
  next
    case False
    with 1 show ?thesis by (auto simp: alloc_count.simps [of sz n e c p])
  qed
qed

abbreviation pool_node :: "'s base_scheme \<Rightarrow> nat \<Rightarrow> nat" where
  "pool_node s \<equiv> move_node (the (move_list s)) (unat (move_item_size s))"

text \<open>The nodes of the pool, in the order of their addresses.\<close>

definition pool_nodes :: "'s base_scheme \<Rightarrow> nat list" where
  "pool_nodes s = map (pool_node s) [0..<unat (move_count s)]"

lemma move_node_inj: "0 < sz \<Longrightarrow> move_node st sz i = move_node st sz j \<longleftrightarrow> i = j"
  by (simp add: move_node_def)

lemma fold_set_mnext:
  assumes "0 < sz"
  shows "fold (\<lambda>i. set_mnext (move_node st sz i) (Some (move_node st sz (Suc i)))) [0..<n] s
    = s\<lparr>mnext := \<lambda>p. if \<exists>i<n. p = move_node st sz i then Some (p + sz) else mnext s p\<rparr>"
    (is "fold ?f _ _ = s\<lparr>mnext := ?h n\<rparr>")
proof (induction n)
  case (Suc n)
  have "(?h n)(move_node st sz n := Some (move_node st sz (Suc n))) = ?h (Suc n)"
    by (rule ext) (auto simp: less_Suc_eq move_node_def)
  moreover have "fold ?f [0..<Suc n] s = ?f n (s\<lparr>mnext := ?h n\<rparr>)"
    by (simp only: upt_Suc fold_append comp_apply fold.simps Suc id_apply le0 if_True)
  ultimately show ?case by (simp add: set_mnext_def)
qed simp

lemma lseg_pool:
  assumes "0 < sz" "\<And>i. a \<le> i \<Longrightarrow> i < n \<Longrightarrow> nx (move_node st sz i) = (if Suc i = n then None else Some (move_node st sz (Suc i)))"
    and "a < n"
  shows "lseg nx (Some (move_node st sz a)) (map (move_node st sz) [a..<n]) None"
  using assms(2,3)
proof (induction "n - a" arbitrary: a)
  case (Suc k)
  have u: "[a..<n] = a # [Suc a..<n]" using Suc.prems by (simp add: upt_conv_Cons)
  show ?case
  proof (cases "Suc a = n")
    case True
    then show ?thesis using Suc.prems(1) [of a] by (simp add: u)
  next
    case False
    then have "lseg nx (Some (move_node st sz (Suc a))) (map (move_node st sz) [Suc a..<n]) None"
      using Suc.hyps(2) Suc.prems by (intro Suc.hyps(1)) auto
    then show ?thesis using Suc.prems(1) [of a] Suc.prems(2) False by (simp add: u)
  qed
qed simp

text \<open>Resetting the pool makes every node free again, whatever the links were.\<close>

lemma move_reset_run:
  assumes "move_count s \<noteq> 0" "move_list s = Some st" "0 < unat (move_item_size s)"
  shows "\<exists>h. move_reset s = (Inr (), s\<lparr>mnext := h, move_free_list := Some st\<rparr>)
    \<and> free_nodes (s\<lparr>mnext := h, move_free_list := Some st\<rparr>) (pool_nodes s)"
proof -
  let ?sz = "unat (move_item_size s)" and ?n = "unat (move_count s)"
  let ?h = "(\<lambda>p. if \<exists>i<?n - 1. p = move_node st ?sz i then Some (p + ?sz) else mnext s p)(move_node st ?sz (?n - 1) := None)"
  have n: "0 < ?n" using assms(1) by (simp add: unat_gt_0)
  have r: "move_reset s = (Inr (), s\<lparr>mnext := ?h, move_free_list := Some st\<rparr>)"
    using assms fold_set_mnext [OF assms(3), of st "?n - 1" s]
    by (simp add: move_reset_def run_simps deref_def) (simp add: set_mnext_def)?
  have "?h (move_node st ?sz i) = (if Suc i = ?n then None else Some (move_node st ?sz (Suc i)))" if "i < ?n" for i
    using that assms(3) n by (auto simp: move_node_inj move_node_def)
  then have "lseg ?h (Some (move_node st ?sz 0)) (map (move_node st ?sz) [0..<?n]) None"
    using assms(3) n by (intro lseg_pool) auto
  then have "free_nodes (s\<lparr>mnext := ?h, move_free_list := Some st\<rparr>) (pool_nodes s)"
    by (simp add: free_nodes_def pool_nodes_def assms(2) move_node_def)
  with r show ?thesis by blast
qed

lemma pool_nodes_chunks:
  assumes "the (move_list s) + unat (move_count s) * unat (move_item_size s) \<le> hi"
  shows "chunks_within (the (move_list s)) hi (pool_nodes s) (replicate (unat (move_count s)) (unat (move_item_size s)))"
proof -
  let ?sz = "unat (move_item_size s)" and ?st = "the (move_list s)"
  have "chunks_within (?st + k * ?sz) hi (map (move_node ?st ?sz) [k..<n]) (replicate (n - k) ?sz)"
    if "k \<le> n" "?st + n * ?sz \<le> hi" for k n
    using that
  proof (induction "n - k" arbitrary: k)
    case (Suc m)
    then have k: "k < n" by simp
    have le: "?st + Suc k * ?sz \<le> hi"
      using Suc.prems k by (meson Suc_leI add_left_mono le_trans mult_le_mono1)
    have "m = n - Suc k" "Suc k \<le> n" using Suc k by auto
    from Suc.hyps(1) [OF this Suc.prems(2)]
    have "chunks_within (?st + Suc k * ?sz) hi (map (move_node ?st ?sz) [Suc k..<n]) (replicate (n - Suc k) ?sz)" .
    moreover have "n - k = Suc (n - Suc k)" using k by simp
    ultimately show ?case using le k by (simp add: upt_conv_Cons move_node_def algebra_simps)
  qed simp
  from this [of 0] assms show ?thesis by (simp add: pool_nodes_def)
qed

text \<open>Finalising the configuration sets up the pool.\<close>

lemma move_finalize_run:
  assumes fin: "\<not> is_finalized s"
    and room: "alloc_end s + max PTR_SIZE (unat (move_item_size s)) \<le> dynmem_end s"
  shows "\<exists>t. move_finalize s = (Inr (), t) \<and> is_finalized t \<and> unat (move_count t) \<le> 4096
    \<and> unat (move_item_size t) = max PTR_SIZE (unat (move_item_size s)) \<and> move_list t = Some (alloc_end s)
    \<and> free_nodes t (pool_nodes t)
    \<and> alloc_end s + unat (move_count t) * unat (move_item_size t) \<le> dynmem_end s"
proof -
  let ?sz = "max PTR_SIZE (unat (move_item_size s))"
  let ?s1 = "s\<lparr>move_item_size := of_nat ?sz\<rparr>"
  have sz: "?sz < 256" "0 < ?sz" using unat_bounds(1) [of "move_item_size s"] by (auto simp: PTR_SIZE_def)
  then have u: "unat (of_nat ?sz :: u8) = ?sz" by (simp add: unat_of_nat)
  have ini: "move_queue_setup PTR_SIZE s = (Inr \<lparr>mq_first = None, mq_last = None\<rparr>, ?s1)"
    using fin by (auto simp: move_queue_setup_def run_simps PTR_SIZE_def max_def)
  obtain k q where kq: "alloc_count ?sz 4096 (dynmem_end s) 0 (alloc_end s) = (k, q)" by fastforce
  have "alloc_end s \<le> dynmem_end s" using room by linarith
  from alloc_count_props [OF le0 this kq]
  have K: "k \<le> 4096" "q = alloc_end s + k * ?sz" "q \<le> dynmem_end s" "k = 4096 \<or> dynmem_end s < q + ?sz"
    by (simp_all only: diff_zero conj_absorb) blast+
  have k0: "k \<noteq> 0"
  proof
    assume "k = 0"
    with K(2,4) room show False by simp
  qed
  let ?s2 = "?s1\<lparr>alloc_end := alloc_end s + ALIGN (q - alloc_end s) PTR_SIZE, move_list := Some (alloc_end s),
    move_count := of_nat k\<rparr>"
  have mc: "unat (of_nat k :: u16) = k" using K by (simp add: unat_of_nat)
  then have mc0: "(of_nat k :: u16) \<noteq> 0" using k0 by (metis unat_0)
  have ch: "alloc_chunks ?sz 4096 ?s1
     = (Inr (alloc_end s, of_nat k), ?s1\<lparr>alloc_end := alloc_end s + ALIGN (q - alloc_end s) PTR_SIZE\<rparr>)"
    using kq k0 K by (simp add: alloc_chunks_def run_simps alloc_chunk_ok)
  obtain h where h: "move_reset ?s2 = (Inr (), ?s2\<lparr>mnext := h, move_free_list := Some (alloc_end s)\<rparr>)"
      "free_nodes (?s2\<lparr>mnext := h, move_free_list := Some (alloc_end s)\<rparr>) (pool_nodes ?s2)"
    using move_reset_run [of ?s2 "alloc_end s"] mc0 sz u by auto
  let ?t = "?s2\<lparr>mnext := h, move_free_list := Some (alloc_end s)\<rparr>"
  have "move_finalize s = (Inr (), ?t)"
    using fin ini ch h(1) u by (simp add: move_finalize_def run_simps)
  moreover have "pool_nodes ?t = pool_nodes ?s2" by (simp add: pool_nodes_def)
  ultimately show ?thesis using h(2) K mc u mc0 by (intro exI [of _ ?t]) (simp add: is_finalized_def)
qed

section \<open>The table of object ids\<close>

definition oid_table :: "'s base_scheme \<Rightarrow> oid_s list \<Rightarrow> bool" where
  "oid_table s tab \<longleftrightarrow> oids s = Some tab \<and> length tab = unat (oid_count s)"

text \<open>The objects of a type with their ids, in the order of the ids.\<close>

definition objects_from :: "oid_s list \<Rightarrow> oid_type \<Rightarrow> nat \<Rightarrow> (u8 \<times> nat option) list" where
  "objects_from tab ty i = map (\<lambda>j. (of_nat j, o_data (tab ! j))) (filter (\<lambda>j. o_type (tab ! j) = Some ty) [i..<length tab])"

lemma objects_from_unfold:
  "i < length tab \<Longrightarrow> objects_from tab ty i =
     (if o_type (tab ! i) = Some ty then (of_nat i, o_data (tab ! i)) # objects_from tab ty (Suc i)
      else objects_from tab ty (Suc i))"
  by (simp add: objects_from_def upt_conv_Cons)

lemma objects_from_end: "length tab \<le> i \<Longrightarrow> objects_from tab ty i = []"
  by (simp add: objects_from_def)

lemma objects_from_Cons:
  assumes "objects_from tab ty i = (oid, d) # xs" "length tab \<le> 255"
  shows "i \<le> unat oid \<and> unat oid < length tab \<and> xs = objects_from tab ty (Suc (unat oid))"
  using assms
proof (induction "length tab - i" arbitrary: i)
  case 0
  then show ?case by (simp add: objects_from_end)
next
  case (Suc k)
  then have l: "i < length tab" "k = length tab - Suc i" by auto
  then have u: "unat (of_nat i :: u8) = i" using Suc.prems(2) by (simp add: unat_of_nat)
  show ?case
  proof (cases "o_type (tab ! i) = Some ty")
    case True
    then show ?thesis using Suc.prems l u by (auto simp: objects_from_unfold)
  next
    case False
    then have "objects_from tab ty (Suc i) = (oid, d) # xs" using Suc.prems(1) l by (simp add: objects_from_unfold)
    from Suc.hyps(1) [OF l(2) this Suc.prems(2)] show ?thesis by auto
  qed
qed

lemma oid_table_len: "oid_table s tab \<Longrightarrow> length tab \<le> 255"
  using unat_bounds(1) [of "oid_count s"] by (simp add: oid_table_def)

text \<open>The search of \<open>oid_next\<close> finds the first object behind the given id.\<close>

lemma oid_search_objects:
  assumes "length tab = unat cnt"
  shows "oid_search tab cnt ty oid =
    (case objects_from tab ty (unat (oid + 1)) of [] \<Rightarrow> None | x # _ \<Rightarrow> Some x)"
  using assms
proof (induction tab cnt ty oid rule: oid_search.induct)
  case (1 tab cnt ty oid)
  let ?o = "oid + 1"
  show ?case
  proof (cases "cnt \<le> ?o")
    case True
    then have "length tab \<le> unat ?o" using 1 by (simp add: word_le_nat_alt)
    then show ?thesis using True by (simp add: oid_search.simps [of tab cnt ty oid] objects_from_end)
  next
    case False
    then have l: "unat ?o < length tab" using 1 by (simp add: word_le_nat_alt not_le)
    then have "unat ?o < 255" using 1(2) unat_bounds(1) [of cnt] by linarith
    then have suc: "unat (?o + 1) = Suc (unat ?o)" using u8_succ [of ?o] by simp
    show ?thesis
    proof (cases "o_type (tab ! unat ?o) = Some ty")
      case True
      then show ?thesis using False l
        by (simp add: oid_search.simps [of tab cnt ty oid] Let_def objects_from_unfold [OF l])
    next
      case ne: False
      have "oid_search tab cnt ty ?o = (case objects_from tab ty (unat (?o + 1)) of [] \<Rightarrow> None | x # _ \<Rightarrow> Some x)"
        using 1 False ne by simp
      then show ?thesis using False ne l suc
        by (simp add: oid_search.simps [of tab cnt ty oid] Let_def objects_from_unfold [OF l])
    qed
  qed
qed

lemma oid_next_run:
  assumes "oid_table s tab"
  shows "oid_next oid ty s = (Inr (case objects_from tab ty (unat (oid + 1)) of [] \<Rightarrow> None | x # _ \<Rightarrow> Some x), s)"
proof (cases "oid + 1 \<ge> oid_count s")
  case True
  then have "length tab \<le> unat (oid + 1)" using assms by (simp add: oid_table_def word_le_nat_alt)
  then show ?thesis using True by (simp add: oid_next_def run_simps objects_from_end)
next
  case False
  then show ?thesis using assms oid_search_objects [of tab "oid_count s"]
    by (simp add: oid_next_def run_simps oid_table_def deref_def)
qed

text \<open>What the macro is meant to do: the body runs for each object in turn.\<close>

fun for_objects :: "(u8 \<Rightarrow> nat \<Rightarrow> ('s, unit) cmd) \<Rightarrow> (u8 \<times> nat option) list \<Rightarrow> ('s, unit) cmd" where
  "for_objects body [] = ret ()"
| "for_objects body ((oid, d) # xs) = (case d of None \<Rightarrow> ret () | Some a \<Rightarrow> mseq (body oid a) (for_objects body xs))"

lemma objects_from_sub: "set (objects_from tab ty i) \<subseteq> set (objects_from tab ty 0)"
  by (auto simp: objects_from_def)

lemma foreach_oid_from:
  assumes tab: "\<And>s. P s \<Longrightarrow> oid_table s tab"
    and keep: "\<And>oid a s t. (oid, Some a) \<in> set (objects_from tab ty 0) \<Longrightarrow> P s \<Longrightarrow> body oid a s = (Inr (), t) \<Longrightarrow> P t"
    and nodiv: "\<And>oid a s. (oid, Some a) \<in> set (objects_from tab ty 0) \<Longrightarrow> P s \<Longrightarrow> fst (body oid a s) \<noteq> Inl Diverge"
    and "P s"
  shows "cloop (\<lambda>pos. mbind (oid_next pos ty) (\<lambda>r.
     case r of
       None \<Rightarrow> ret (Inr ())
     | Some (pos', None) \<Rightarrow> ret (Inr ())
     | Some (pos', Some data) \<Rightarrow> mseq (body pos' data) (ret (Inl pos')))) pos s
   = for_objects body (objects_from tab ty (unat (pos + 1))) s \<and>
   fst (for_objects body (objects_from tab ty (unat (pos + 1))) s) \<noteq> Inl Diverge"
    (is "cloop ?B pos s = _ \<and> _")
  using \<open>P s\<close>
proof (induction "length (objects_from tab ty (unat (pos + 1)))" arbitrary: pos s rule: less_induct)
  case less
  note nx = oid_next_run [OF tab [OF less.prems], of pos ty]
  have len: "length tab \<le> 255" using tab [OF less.prems] by (rule oid_table_len)
  show ?case
  proof (cases "objects_from tab ty (unat (pos + 1))")
    case Nil
    then show ?thesis using nx by (simp add: cloop_return mbind_def)
  next
    case (Cons x xs)
    obtain oid d where x: "x = (oid, d)" by (cases x)
    have "unat oid < length tab" "xs = objects_from tab ty (Suc (unat oid))"
      using objects_from_Cons [of tab ty _ oid d xs] Cons x len by auto
    then have xs: "xs = objects_from tab ty (unat (oid + 1))" using len u8_succ [of oid] by simp
    have mem: "(oid, d) \<in> set (objects_from tab ty 0)"
      using objects_from_sub [of tab ty "unat (pos + 1)"] Cons x by auto
    show ?thesis
    proof (cases d)
      case None
      then show ?thesis using nx by (simp add: Cons x cloop_return mbind_def)
    next
      case (Some a)
      obtain r t where b: "body oid a s = (r, t)" by (cases "body oid a s")
      show ?thesis
      proof (cases r)
        case (Inl e)
        then show ?thesis using nodiv [OF _ less.prems, of oid a] mem b Some nx
          by (simp add: Cons x cloop_abort run_simps)
      next
        case (Inr u)
        then have t: "P t" using keep [OF _ less.prems] mem Some b by simp
        have IH: "cloop ?B oid t = for_objects body xs t" "fst (for_objects body xs t) \<noteq> Inl Diverge"
          using less.hyps [of oid t] t Cons xs by auto
        have "?B pos s = (Inr (Inl oid), t)" using b Inr Some nx by (simp add: Cons x run_simps)
        then have "cloop ?B pos s = cloop ?B oid t" using IH by (intro cloop_step) auto
        moreover have "for_objects body (objects_from tab ty (unat (pos + 1))) s = for_objects body xs t"
          using b Inr Some by (simp add: Cons x mseq_Inr)
        ultimately show ?thesis using IH by metis
      qed
    qed
  qed
qed

lemma foreach_oid_objects:
  assumes "\<And>s. P s \<Longrightarrow> oid_table s tab"
    and "\<And>oid a s t. (oid, Some a) \<in> set (objects_from tab ty 0) \<Longrightarrow> P s \<Longrightarrow> body oid a s = (Inr (), t) \<Longrightarrow> P t"
    and "\<And>oid a s. (oid, Some a) \<in> set (objects_from tab ty 0) \<Longrightarrow> P s \<Longrightarrow> fst (body oid a s) \<noteq> Inl Diverge"
    and "P s"
  shows "foreach_oid ty body s = for_objects body (objects_from tab ty 0) s"
  using foreach_oid_from [where P = P and pos = "- 1" and body = body and ty = ty, OF assms] by (simp add: foreach_oid_def)

text \<open>A loop over objects is sound if its body is, under an invariant that fixes the table.\<close>

lemma sound_for_objects:
  assumes "\<And>oid a. (oid, Some a) \<in> set xs \<Longrightarrow> sound P (body oid a)"
  shows "sound P (for_objects body xs)"
  using assms
proof (induction xs)
  case (Cons x xs)
  obtain oid d where x: "x = (oid, d)" by (cases x)
  show ?case
  proof (cases d)
    case None
    then show ?thesis by (simp add: x sound_def)
  next
    case (Some a)
    then have "sound P (body oid a)" "sound P (for_objects body xs)" using Cons x by auto
    then show ?thesis by (simp add: x Some sound_intros)
  qed
qed (simp add: sound_def)

lemma sound_foreach_oid:
  assumes "\<And>oid a. (oid, Some a) \<in> set (objects_from tab ty 0) \<Longrightarrow> sound P (body oid a)"
    and "\<And>s. P s \<Longrightarrow> oid_table s tab"
  shows "sound P (foreach_oid ty body)"
proof (rule soundI)
  fix s assume "P s"
  have "foreach_oid ty body s = for_objects body (objects_from tab ty 0) s"
  proof (rule foreach_oid_objects [where P = P, OF assms(2) _ _ \<open>P s\<close>])
    fix oid a s t assume m: "(oid, Some a) \<in> set (objects_from tab ty 0)" and s: "P s"
    show "body oid a s = (Inr (), t) \<Longrightarrow> P t" "fst (body oid a s) \<noteq> Inl Diverge"
      using soundD [OF assms(1) [OF m] s] by (auto simp: ok_exit_def)
  qed
  then show "ok_exit (fst (foreach_oid ty body s)) \<and> P (snd (foreach_oid ty body s))"
    using soundD [OF sound_for_objects [of "objects_from tab ty 0" P body, OF assms(1)] \<open>P s\<close>] by simp
qed

lemma oid_entry_run: "oid_table s tab \<Longrightarrow> unat oid < length tab \<Longrightarrow> oid_entry oid s = (Inr (tab ! unat oid), s)"
  by (simp add: oid_entry_def oid_table_def run_simps deref_def)

lemma oid_table_less: "oid_table s tab \<Longrightarrow> oid < oid_count s \<longleftrightarrow> unat oid < length tab"
  by (simp add: oid_table_def word_less_nat_alt)

lemma oid_lookup_hit:
  assumes "oid_table s tab" "unat oid < length tab" "o_type (tab ! unat oid) = Some ty"
  shows "oid_lookup func oid ty s = (Inr (o_data (tab ! unat oid)), s)"
  using assms oid_table_less [OF assms(1), of oid] oid_entry_run [OF assms(1,2)]
  by (simp add: oid_lookup_def Let_def run_simps not_le [symmetric])

lemma oid_lookup_miss:
  assumes "oid_table s tab" "\<not> (unat oid < length tab \<and> o_type (tab ! unat oid) = Some ty)"
  shows "fst (oid_lookup func oid ty s) = Inl (Shutdown ''Invalid oid type'')"
  using assms oid_table_less [OF assms(1), of oid] oid_entry_run [OF assms(1), of oid]
  by (auto simp: oid_lookup_def Let_def run_simps not_le [symmetric] shutdown_run)

lemma set_oid_sel [simp]: "oid_count (set_oid oid f s) = oid_count s" "alloc_end (set_oid oid f s) = alloc_end s"
  "dynmem_end (set_oid oid f s) = dynmem_end s" "move_count (set_oid oid f s) = move_count s"
  by (simp_all add: set_oid_def)

lemma set_oid_table: "oid_table s tab \<Longrightarrow> oid_table (set_oid oid f s) (tab[unat oid := f (tab ! unat oid)])"
  by (simp add: oid_table_def set_oid_def)

lemma set_oid_twice: "oid_table s tab \<Longrightarrow> unat oid < length tab \<Longrightarrow>
   set_oid oid g (set_oid oid f s) = set_oid oid (g \<circ> f) s"
  by (simp add: oid_table_def set_oid_def)

text \<open>Allocating an object: the entry is free and the memory suffices.\<close>

lemma oid_alloc_run:
  assumes "oid_table s tab" "unat oid < length tab" "o_type (tab ! unat oid) = None" "\<not> is_finalized s"
    and "alloc_end s + sz mod 2 ^ 16 \<le> dynmem_end s"
  shows "oid_alloc oid ty sz s = (Inr (alloc_end s),
     (set_oid oid (\<lambda>_. \<lparr>o_type = Some ty, o_data = Some (alloc_end s)\<rparr>) s)
       \<lparr>alloc_end := alloc_end s + ALIGN (sz mod 2 ^ 16) PTR_SIZE\<rparr>)"
proof -
  let ?s1 = "set_oid oid (\<lambda>e. e\<lparr>o_type := Some ty\<rparr>) s"
  have c: "\<not> oid_count s \<le> oid" using oid_table_less [OF assms(1), of oid] assms(2) by (simp add: not_le)
  have a: "alloc_chunk (sz mod 2 ^ 16) ?s1
     = (Inr (alloc_end s), ?s1\<lparr>alloc_end := alloc_end s + ALIGN (sz mod 2 ^ 16) PTR_SIZE\<rparr>)"
    using assms(5) by (simp add: alloc_chunk_ok)
  have "set_oid oid (\<lambda>e. e\<lparr>o_data := Some (alloc_end s)\<rparr>) (?s1\<lparr>alloc_end := v\<rparr>)
      = (set_oid oid (\<lambda>_. \<lparr>o_type = Some ty, o_data = Some (alloc_end s)\<rparr>) s)\<lparr>alloc_end := v\<rparr>" for v
    using assms(1,2) by (cases "tab ! unat oid") (simp add: set_oid_def oid_table_def)
  then show ?thesis using c a oid_entry_run [OF assms(1,2)] assms(3,4)
    by (simp add: oid_alloc_def Let_def run_simps)
qed

text \<open>An allocation that fails for lack of memory leaves the type, without data, in the table.\<close>

lemma oid_alloc_fail:
  assumes "oid_table s tab" "unat oid < length tab" "o_type (tab ! unat oid) = None" "o_data (tab ! unat oid) = None"
    and "\<not> is_finalized s" "\<not> alloc_end s + sz mod 2 ^ 16 \<le> dynmem_end s"
  shows "\<exists>t. oid_alloc oid ty sz s = (Inl (Shutdown ''alloc_chunk failed''), t)
    \<and> oid_table t (tab[unat oid := \<lparr>o_type = Some ty, o_data = None\<rparr>])"
proof -
  let ?s1 = "set_oid oid (\<lambda>e. e\<lparr>o_type := Some ty\<rparr>) s"
  have c: "\<not> oid_count s \<le> oid" using oid_table_less [OF assms(1), of oid] assms(2) by (simp add: not_le)
  have e: "(tab ! unat oid)\<lparr>o_type := Some ty\<rparr> = \<lparr>o_type = Some ty, o_data = None\<rparr>" using assms(4) by simp
  have "oid_alloc oid ty sz s = (Inl (Shutdown ''alloc_chunk failed''), snd (shutdown ''alloc_chunk'' ''alloc_chunk failed'' ?s1))"
    using c oid_entry_run [OF assms(1,2)] assms(3,5,6)
    by (simp add: oid_alloc_def Let_def run_simps alloc_chunk_fail shutdown_run)
  moreover have "oid_table (snd (shutdown ''alloc_chunk'' ''alloc_chunk failed'' ?s1)) (tab[unat oid := \<lparr>o_type = Some ty, o_data = None\<rparr>])"
    using set_oid_table [OF assms(1), of oid "\<lambda>e. e\<lparr>o_type := Some ty\<rparr>"] by (simp add: shutdown_run oid_table_def e)
  ultimately show ?thesis by blast
qed

lemma for_objects_stop: "for_objects body (xs @ (oid, None) # ys) = for_objects body xs"
proof (induction xs)
  case (Cons x xs)
  then show ?case by (cases x) (auto split: option.split simp del: ret_run)
qed simp

section \<open>Load statistics\<close>

lemma DIV_ROUND_UP_nat:
  assumes "unat n + 255 < 2 ^ 32"
  shows "unat (DIV_ROUND_UP n SUMSQ_BASE) = (unat n + 255) div 256"
proof -
  have e: "n + 256 - 1 = n + 255" by simp
  have "unat (n + 255) = unat n + 255" using assms by (simp add: unat_plus_if')
  moreover have "unat (256 :: u32) = 256" by simp
  ultimately show ?thesis unfolding DIV_ROUND_UP_def SUMSQ_BASE_def e unat_div by metis
qed

lemma add_saturates:
  "(if a + x < (a :: u32) then 0xffffffff else a + x) = of_nat (min (2 ^ 32 - 1) (unat a + unat x))"
proof (cases "unat a + unat x < 2 ^ 32")
  case True
  then have "unat (a + x) = unat a + unat x" by (simp add: unat_plus_if')
  then show ?thesis using True by (simp add: word_less_nat_alt min_def word_unat_eq_iff)
next
  case False
  have "unat (a + x) < unat a" using False unat_bounds(3) [of x] by (simp add: unat_plus_if')
  then show ?thesis using False by (simp add: word_less_nat_alt min_def)
qed

text \<open>
  The sum of squares of task times is exact up to the rounding of each term and saturates: the new
  value is the old one plus the rounded square of the difference (computed in two ranges so that no
  intermediate product overflows), cut off at 2^32 - 1; it never wraps.\<close>

theorem stats_nextsumsq_exact:
  "unat (stats_nextsumsq sumsq diff) = min (2 ^ 32 - 1) (unat sumsq +
     (if unat diff \<le> 0xffff then (unat diff * unat diff + 255) div 256
      else if unat diff \<le> 0xfffff then (unat diff + 255) div 256 * unat diff else 2 ^ 32))"
proof -
  have u: "unat (of_nat (min (2 ^ 32 - 1) k) :: u32) = min (2 ^ 32 - 1) k" for k
    by (simp add: unat_of_nat min_def)
  consider "unat diff \<le> 0xffff" | "\<not> unat diff \<le> 0xffff" "unat diff \<le> 0xfffff" | "\<not> unat diff \<le> 0xfffff" by blast
  then show ?thesis
  proof cases
    case 1
    have q: "unat diff * unat diff \<le> 0xffff * 0xffff" using 1 by (intro mult_le_mono) auto
    then have m: "unat (diff * diff) = unat diff * unat diff" by (simp add: unat_mult_lem [THEN iffD1])
    have "unat (DIV_ROUND_UP (diff * diff) SUMSQ_BASE) = (unat diff * unat diff + 255) div 256"
      using q m by (subst DIV_ROUND_UP_nat) auto
    then show ?thesis using 1 u add_saturates [of sumsq "DIV_ROUND_UP (diff * diff) SUMSQ_BASE"]
      by (simp add: stats_nextsumsq_def word_le_nat_alt Let_def)
  next
    case 2
    have d: "unat (DIV_ROUND_UP diff SUMSQ_BASE) = (unat diff + 255) div 256"
      using 2 by (subst DIV_ROUND_UP_nat) auto
    have "(unat diff + 255) div 256 * unat diff \<le> 4096 * 0xfffff" using 2 by (intro mult_le_mono) auto
    then have m: "unat (DIV_ROUND_UP diff SUMSQ_BASE * diff) = (unat diff + 255) div 256 * unat diff"
      by (subst unat_mult_lem [THEN iffD1]) (simp_all add: d)
    then show ?thesis using 2 u add_saturates [of sumsq "DIV_ROUND_UP diff SUMSQ_BASE * diff"]
      by (simp add: stats_nextsumsq_def word_le_nat_alt Let_def)
  next
    case 3
    have "\<not> (0xffffffff :: u32) < sumsq" using unat_bounds(3) [of sumsq] by (simp add: word_less_nat_alt)
    then show ?thesis using 3 by (simp add: stats_nextsumsq_def word_le_nat_alt Let_def)
  qed
qed

section \<open>Properties\<close>

text \<open>
  The state before initialisation, with the 20 KiB memory pool of \<open>src/src/generic/alloc.c\<close> at an address.
\<close>

definition base_static :: base where
  "base_static = comm.extend comm_static \<lparr>dynmem_start = 4096, dynmem_end = 4096 + 20 * 1024, alloc_end = 4096,
     move_free_list = None, move_list = None, move_count = 0, move_item_size = 0, mnext = (\<lambda>_. None), oids = None,
     oid_count = 0, config_crc = 0, stats_send_time = 0, stats_send_time_high = 0, stats_count = 0, stats_sum = 0,
     stats_sumsq = 0\<rparr>"

lemmas base_static_simps = base_static_def comm_static_def sched_static_def board_at_rest_def comm.extend_def
  sched.extend_def hw.extend_def

lemma chunks_within_bounds:
  "chunks_within lo hi as szs \<Longrightarrow> k < length as \<Longrightarrow> length szs = length as \<and> lo \<le> as ! k \<and> as ! k + szs ! k \<le> hi"
proof (induction lo hi as szs arbitrary: k rule: chunks_within.induct)
  case (2 lo hi a as sz szs)
  show ?case
  proof (cases k)
    case 0
    then show ?thesis using 2 by (cases as; cases szs) auto
  next
    case (Suc k')
    then show ?thesis using "2.IH" [of k'] "2.prems" by auto
  qed
qed auto

lemma chunks_within_nth:
  assumes "chunks_within lo hi as szs" "i < j" "j < length as"
  shows "length szs = length as \<and> lo \<le> as ! i \<and> as ! i + szs ! i \<le> as ! j \<and> as ! j + szs ! j \<le> hi"
  using assms
proof (induction lo hi as szs arbitrary: i j rule: chunks_within.induct)
  case (2 lo hi a as sz szs)
  obtain j' where j: "j = Suc j'" using "2.prems" by (cases j) auto
  show ?case
  proof (cases i)
    case 0
    then show ?thesis using "2.prems" chunks_within_bounds [of "a + sz" hi as szs j'] j by auto
  next
    case (Suc i')
    then show ?thesis using "2.prems" "2.IH" [of i' j'] j by auto
  qed
qed auto

text \<open>
  Memory chunks never overlap and stay inside the pool: in every sequence of successful
  allocations an earlier chunk ends before a later one begins, and the later one ends before the end of
  the pool.\<close>

theorem alloc_chunk_disjoint:
  assumes "alloc_all szs s = (Inr as, t)" "i < j" "j < length as"
  shows "length szs = length as \<and> alloc_end s \<le> as ! i \<and> as ! i + szs ! i \<le> as ! j
    \<and> as ! j + szs ! j \<le> dynmem_end s"
  using alloc_all_chunks [OF assms(1)] assms(2,3) by (rule chunks_within_nth)

theorem alloc_chunk_disjoint_witness:
  "\<exists>as t. alloc_all [5, 6] base_static = (Inr as, t) \<and> as ! 0 + 5 \<le> as ! 1 \<and> as ! 1 + 6 \<le> dynmem_end base_static"
proof -
  let ?r = "alloc_all [5, 6] base_static"
  have r: "?r = (Inr [4096, 4104], snd ?r)"
    by (simp add: alloc_chunk_def run_simps base_static_simps ALIGN_def PTR_SIZE_def)
  show ?thesis using alloc_chunk_disjoint [OF r, of 0 1] r by (auto intro!: exI [of _ "[4096, 4104]"])
qed

text \<open>
  Finalising a configuration that leaves room for a node makes a complete pool of at most 4096
  move nodes: all of them are on the free list, they do not overlap, each is at least a pointer long, and
  they lie in unused memory.\<close>

theorem move_finalize_pool:
  assumes "\<not> is_finalized s" "alloc_end s + max PTR_SIZE (unat (move_item_size s)) \<le> dynmem_end s"
  shows "\<exists>t. move_finalize s = (Inr (), t) \<and> is_finalized t \<and> unat (move_count t) \<le> 4096
    \<and> free_nodes t (pool_nodes t) \<and> PTR_SIZE \<le> unat (move_item_size t)
    \<and> chunks_within (alloc_end s) (dynmem_end s) (pool_nodes t)
        (replicate (unat (move_count t)) (unat (move_item_size t)))"
proof -
  obtain t where t: "move_finalize s = (Inr (), t)" "is_finalized t" "unat (move_count t) \<le> 4096"
      "unat (move_item_size t) = max PTR_SIZE (unat (move_item_size s))" "move_list t = Some (alloc_end s)"
      "free_nodes t (pool_nodes t)" "alloc_end s + unat (move_count t) * unat (move_item_size t) \<le> dynmem_end s"
    using move_finalize_run [OF assms] by blast
  then have "chunks_within (alloc_end s) (dynmem_end s) (pool_nodes t)
        (replicate (unat (move_count t)) (unat (move_item_size t)))"
    using pool_nodes_chunks [of t "dynmem_end s"] by simp
  with t show ?thesis by auto
qed

theorem move_finalize_pool_witness: "\<exists>t. move_finalize base_static = (Inr (), t) \<and> free_nodes t (pool_nodes t)"
  using move_finalize_pool [of base_static] by (auto simp: is_finalized_def base_static_simps PTR_SIZE_def)

text \<open>
  C10: A move queue is first-in first-out: nodes pushed to a queue are popped after the ones already
  there, in the order they were pushed.\<close>

theorem move_queue_fifo:
  assumes "queue_nodes s mh xs" "distinct (xs @ ns)"
  shows "\<exists>mh' t. push_all move_queue_push ns mh s = (Inr mh', t) \<and> queue_nodes t mh' (xs @ ns)
    \<and> pop_all move_queue_pop (length xs + length ns) mh' t = (Inr (xs @ ns), t)"
  using mq.first_in_first_out [OF assms] by metis

theorem move_queue_fifo_witness:
  "\<exists>mh' t. push_all move_queue_push [40, 20, 30] \<lparr>mq_first = None, mq_last = None\<rparr> base_static = (Inr mh', t)
    \<and> pop_all move_queue_pop 3 mh' t = (Inr [40, 20, 30], t)"
  using move_queue_fifo [of base_static "\<lparr>mq_first = None, mq_last = None\<rparr>" "[]" "[40, 20, 30]"]
  by (auto simp: queue_nodes_def numeral_3_eq_3)

lemma for_objects_foldr:
  "\<forall>x\<in>set xs. snd x \<noteq> None \<Longrightarrow> for_objects body xs = foldr (\<lambda>(oid, d). mseq (body oid (the d))) xs (ret ())"
  by (induction xs) (auto simp del: ret_run)

text \<open>
  The loop over the objects of a type is the plain iteration: if no object of the type lacks its
  data and the body keeps the table and returns, the body runs exactly once for each object of the type,
  in the order of the ids.\<close>

theorem foreach_oid_visits:
  assumes "oid_table s tab"
    and "\<And>oid a s t. oid_table s tab \<Longrightarrow> body oid a s = (Inr (), t) \<Longrightarrow> oid_table t tab"
    and "\<And>oid a s. oid_table s tab \<Longrightarrow> fst (body oid a s) \<noteq> Inl Diverge"
    and "\<forall>e\<in>set tab. o_type e = Some ty \<longrightarrow> o_data e \<noteq> None"
  shows "foreach_oid ty body s =
    foldr (\<lambda>(oid, d). mseq (body oid (the d))) (objects_from tab ty 0) (ret ()) s"
proof -
  have "foreach_oid ty body s = for_objects body (objects_from tab ty 0) s"
    by (rule foreach_oid_objects [where P = "\<lambda>s. oid_table s tab"]) (use assms in auto)
  moreover have "\<forall>x\<in>set (objects_from tab ty 0). snd x \<noteq> None"
    using assms(4) by (auto simp: objects_from_def)
  ultimately show ?thesis by (simp add: for_objects_foldr)
qed

definition example_oids :: "oid_s list" where
  "example_oids = [\<lparr>o_type = Some Oid_stepper, o_data = Some 5000\<rparr>, \<lparr>o_type = None, o_data = None\<rparr>,
     \<lparr>o_type = Some Oid_stepper, o_data = Some 6000\<rparr>, \<lparr>o_type = Some Oid_trsync, o_data = Some 7000\<rparr>]"

theorem foreach_oid_visits_witness:
  "config_crc (snd (foreach_oid Oid_stepper (\<lambda>oid a. modify (\<lambda>s. s\<lparr>config_crc := config_crc s * 100 + ucast oid + 1\<rparr>))
     (base_static\<lparr>oids := Some example_oids, oid_count := 4\<rparr>))) = 103"
proof -
  let ?b = "\<lambda>oid (a :: nat). modify (\<lambda>s :: base. s\<lparr>config_crc := config_crc s * 100 + ucast (oid :: u8) + 1\<rparr>)"
  let ?s = "base_static\<lparr>oids := Some example_oids, oid_count := 4\<rparr>"
  have "objects_from example_oids Oid_stepper 0 = [(0, Some 5000), (2, Some 6000)]"
    by (simp add: objects_from_def example_oids_def upt_conv_Cons)
  moreover have "foreach_oid Oid_stepper ?b ?s =
      foldr (\<lambda>(oid, d). mseq (?b oid (the d))) (objects_from example_oids Oid_stepper 0) (ret ()) ?s"
    by (rule foreach_oid_visits) (auto simp: oid_table_def example_oids_def)
  ultimately show ?thesis by (simp add: run_simps base_static_simps)
qed

text \<open>
  An object that was allocated can be looked up, under its type only: after \<open>oid_alloc\<close> the
  lookup with the same id and type returns the new chunk, with another type it shuts down, and the result
  of every lookup of another id is what it was.\<close>

theorem oid_alloc_lookup:
  assumes "oid_table s tab" "unat oid < length tab" "o_type (tab ! unat oid) = None" "\<not> is_finalized s"
    and "alloc_end s + sz mod 2 ^ 16 \<le> dynmem_end s"
  shows "\<exists>t. oid_alloc oid ty sz s = (Inr (alloc_end s), t)
    \<and> oid_lookup func oid ty t = (Inr (Some (alloc_end s)), t)
    \<and> (ty' \<noteq> ty \<longrightarrow> fst (oid_lookup func oid ty' t) = Inl (Shutdown ''Invalid oid type''))
    \<and> (oid' \<noteq> oid \<longrightarrow> fst (oid_lookup func oid' ty' t) = fst (oid_lookup func oid' ty' s))"
proof -
  let ?e = "\<lparr>o_type = Some ty, o_data = Some (alloc_end s)\<rparr>"
  let ?t = "(set_oid oid (\<lambda>_. ?e) s)\<lparr>alloc_end := alloc_end s + ALIGN (sz mod 2 ^ 16) PTR_SIZE\<rparr>"
  let ?tab = "tab[unat oid := ?e]"
  have t: "oid_table ?t ?tab"
    using set_oid_table [OF assms(1), of oid "\<lambda>_. ?e"] by (simp add: oid_table_def)
  have "fst (oid_lookup func oid' ty' ?t) = fst (oid_lookup func oid' ty' s)" if "oid' \<noteq> oid"
  proof -
    have ne: "unat oid \<noteq> unat oid'" using that by (simp add: word_unat_eq_iff)
    show ?thesis
    proof (cases "unat oid' < length tab \<and> o_type (tab ! unat oid') = Some ty'")
      case True
      then show ?thesis using ne oid_lookup_hit [OF t, of oid' ty' func] oid_lookup_hit [OF assms(1), of oid' ty' func] by simp
    next
      case False
      then show ?thesis using ne oid_lookup_miss [OF t, of oid' ty' func] oid_lookup_miss [OF assms(1), of oid' ty' func] by simp
    qed
  qed
  then show ?thesis using oid_alloc_run [OF assms] oid_lookup_hit [OF t, of oid ty func] oid_lookup_miss [OF t, of oid ty' func] assms(2)
    by (intro exI [of _ ?t]) auto
qed

theorem oid_alloc_lookup_witness:
  "\<exists>t. oid_alloc 1 Oid_counter 44 (base_static\<lparr>oids := Some example_oids, oid_count := 4\<rparr>) = (Inr 4096, t)
    \<and> oid_lookup ''f'' 1 Oid_counter t = (Inr (Some 4096), t)"
  using oid_alloc_lookup [of "base_static\<lparr>oids := Some example_oids, oid_count := 4\<rparr>" example_oids 1 44 Oid_counter "''f''"]
  by (auto simp: oid_table_def is_finalized_def base_static_simps example_oids_def)

text \<open>
  C37: An allocation that fails for lack of memory hides objects from the shutdown handlers: \<open>oid_alloc\<close> sets
  the type of the entry before it allocates, so the entry keeps the type without data, and every later loop
  over the objects of that type, such as the ones that stop outputs on shutdown, ends there and never
  reaches the objects with higher ids.\<close>

theorem failed_alloc_hides_objects:
  assumes "oid_table s tab" "unat oid < length tab" "o_type (tab ! unat oid) = None" "o_data (tab ! unat oid) = None"
    and "\<not> is_finalized s" "\<not> alloc_end s + sz mod 2 ^ 16 \<le> dynmem_end s"
    and keep: "\<And>oid a s t tab. oid_table s tab \<Longrightarrow> body oid a s = (Inr (), t) \<Longrightarrow> oid_table t tab"
    and nodiv: "\<And>oid a s. fst (body oid a s) \<noteq> Inl Diverge"
  shows "\<exists>t. oid_alloc oid ty sz s = (Inl (Shutdown ''alloc_chunk failed''), t)
    \<and> foreach_oid ty body t = for_objects body (objects_from (take (unat oid) tab) ty 0) t"
proof -
  let ?tab = "tab[unat oid := \<lparr>o_type = Some ty, o_data = None\<rparr>]"
  obtain t where t: "oid_alloc oid ty sz s = (Inl (Shutdown ''alloc_chunk failed''), t)" "oid_table t ?tab"
    using oid_alloc_fail [OF assms(1-6)] by blast
  have "foreach_oid ty body t = for_objects body (objects_from ?tab ty 0) t"
    by (rule foreach_oid_objects [where P = "\<lambda>s. oid_table s ?tab"]) (use t(2) keep nodiv in blast)+
  moreover have "objects_from ?tab ty 0 = objects_from (take (unat oid) tab) ty 0 @ (oid, None) # objects_from ?tab ty (Suc (unat oid))"
  proof -
    obtain k where "length tab = unat oid + Suc k" using assms(2) less_iff_Suc_add by auto
    then have u: "[0..<length tab] = [0..<unat oid] @ unat oid # [Suc (unat oid)..<length tab]"
      using upt_add_eq_append [of 0 "unat oid" "Suc k"] upt_conv_Cons [of "unat oid" "unat oid + Suc k"]
      by (simp del: upt_Suc)
    have "map (\<lambda>j. (of_nat j :: u8, o_data (?tab ! j))) (filter (\<lambda>j. o_type (?tab ! j) = Some ty) [0..<unat oid])
        = map (\<lambda>j. (of_nat j, o_data (take (unat oid) tab ! j))) (filter (\<lambda>j. o_type (take (unat oid) tab ! j) = Some ty) [0..<unat oid])"
      by (intro map_cong filter_cong) auto
    then show ?thesis using assms(2) by (simp add: objects_from_def u min_absorb2)
  qed
  ultimately show ?thesis using t(1) by (auto simp: for_objects_stop)
qed

theorem failed_alloc_hides_objects_witness:
  "\<exists>t. oid_alloc 1 Oid_stepper 72 (base_static\<lparr>oids := Some example_oids, oid_count := 4, alloc_end := 24570\<rparr>)
      = (Inl (Shutdown ''alloc_chunk failed''), t)
    \<and> foreach_oid Oid_stepper (\<lambda>oid a. modify (\<lambda>s. s\<lparr>config_crc := ucast oid\<rparr>)) t
      = for_objects (\<lambda>oid a. modify (\<lambda>s. s\<lparr>config_crc := ucast oid\<rparr>)) [(0, Some 5000)] t"
proof -
  let ?s = "base_static\<lparr>oids := Some example_oids, oid_count := 4, alloc_end := 24570\<rparr>"
  let ?b = "\<lambda>oid (a :: nat). modify (\<lambda>s :: base. s\<lparr>config_crc := ucast (oid :: u8)\<rparr>)"
  have "\<exists>t. oid_alloc 1 Oid_stepper 72 ?s = (Inl (Shutdown ''alloc_chunk failed''), t)
    \<and> foreach_oid Oid_stepper ?b t = for_objects ?b (objects_from (take (unat (1 :: u8)) example_oids) Oid_stepper 0) t"
    by (rule failed_alloc_hides_objects)
      (auto simp: oid_table_def is_finalized_def base_static_simps example_oids_def)
  moreover have "objects_from (take (unat (1 :: u8)) example_oids) Oid_stepper 0 = [(0, Some 5000)]"
    by (simp add: objects_from_def example_oids_def)
  ultimately show ?thesis by simp
qed

end
