(* ===== verification/Trsync.thy ===== *)
theory Trsync
  imports Basecmd Sched_Timers
begin

text \<open>
  Synchronised triggers, \<open>src/src/trsync.c\<close>.  A \<open>struct trsync\<close> is an object at an address; its
  two timers are \<open>Obj_timer\<close> 0 (report) and 1 (expire) of that address.  A \<open>struct trsync_signal\<close>
  is named by the address of the object that contains it, its callback by a value of
  \<open>signal_fn\<close>; what callbacks do is an argument of the functions that call them.
\<close>

section \<open>State\<close>

datatype signal_fn = Stepper_stop

record trsync_signal =
  tss_next :: "nat option"
  tss_func :: "signal_fn option"

record trsync_s =
  ts_report_ticks :: u32
  ts_signals :: "nat option"
  ts_flags :: u8
  ts_trigger_reason :: u8
  ts_expire_reason :: u8

record trs = base +
  trsyncs :: "nat \<Rightarrow> trsync_s"
  tsignals :: "nat \<Rightarrow> trsync_signal"

definition TSF_CAN_TRIGGER :: u8 where "TSF_CAN_TRIGGER = 1"
definition TSF_REPORT :: u8 where "TSF_REPORT = 4"

abbreviation report_time :: "nat \<Rightarrow> tptr" where "report_time ts \<equiv> Obj_timer ts 0"
abbreviation expire_time :: "nat \<Rightarrow> tptr" where "expire_time ts \<equiv> Obj_timer ts 1"

definition set_ts :: "nat \<Rightarrow> (trsync_s \<Rightarrow> trsync_s) \<Rightarrow> 's trs_scheme \<Rightarrow> 's trs_scheme" where
  "set_ts a f s = s\<lparr>trsyncs := (trsyncs s)(a := f (trsyncs s a))\<rparr>"

definition set_tss :: "nat \<Rightarrow> (trsync_signal \<Rightarrow> trsync_signal) \<Rightarrow> 's trs_scheme \<Rightarrow> 's trs_scheme" where
  "set_tss a f s = s\<lparr>tsignals := (tsignals s)(a := f (tsignals s a))\<rparr>"

text \<open>What \<open>memset\<close> leaves of a new object.\<close>

definition zero_timer :: "tptr \<Rightarrow> 's sched_scheme \<Rightarrow> 's sched_scheme" where
  "zero_timer p s = s\<lparr>timers := (timers s)(p := \<lparr>t_next = None, t_func = None, t_wake = 0\<rparr>)\<rparr>"

definition zero_trsync :: trsync_s where
  "zero_trsync = \<lparr>ts_report_ticks = 0, ts_signals = None, ts_flags = 0, ts_trigger_reason = 0, ts_expire_reason = 0\<rparr>"

definition SIZEOF_trsync :: nat where "SIZEOF_trsync = 36"

section \<open>Triggering\<close>

text \<open>One round of the loop that dispatches the signals.\<close>

definition trsync_signal_one ::
  "(signal_fn \<Rightarrow> nat \<Rightarrow> u8 \<Rightarrow> ('s trs_scheme, unit) cmd) \<Rightarrow> nat \<Rightarrow> u8 \<Rightarrow> ('s trs_scheme, unit) cmd" where
  "trsync_signal_one call ts reason =
     mbind (mbind (gets (\<lambda>s. ts_signals (trsyncs s ts))) deref) (\<lambda>tss.
     mbind (gets (\<lambda>s. tss_func (tsignals s tss))) (\<lambda>func.
     mseq (modify (\<lambda>s. set_ts ts (\<lambda>t. t\<lparr>ts_signals := tss_next (tsignals s tss)\<rparr>) s)) (
     mseq (modify (set_tss tss (\<lambda>t. t\<lparr>tss_next := None, tss_func := None\<rparr>))) (
     case func of None \<Rightarrow> fail (Fault ''null function'') | Some f \<Rightarrow> call f tss reason))))"

definition trsync_do_trigger ::
  "(signal_fn \<Rightarrow> nat \<Rightarrow> u8 \<Rightarrow> ('s trs_scheme, unit) cmd) \<Rightarrow> nat \<Rightarrow> u8 \<Rightarrow> ('s trs_scheme, unit) cmd" where
  "trsync_do_trigger call ts reason =
     mbind (gets (\<lambda>s. ts_flags (trsyncs s ts))) (\<lambda>flags.
     if flags AND TSF_CAN_TRIGGER = 0 then ret ()
     else mseq (modify (set_ts ts (\<lambda>t. t\<lparr>ts_trigger_reason := reason,
                  ts_flags := (flags AND NOT TSF_CAN_TRIGGER) OR TSF_REPORT\<rparr>))) (
          mseq (cwhile (\<lambda>s. ts_signals (trsyncs s ts) \<noteq> None) (trsync_signal_one call ts reason))
          (sched_wake_task Trsync_wake)))"

definition trsync_expire_event ::
  "(signal_fn \<Rightarrow> nat \<Rightarrow> u8 \<Rightarrow> ('s trs_scheme, unit) cmd) \<Rightarrow> nat \<Rightarrow> ('s trs_scheme, sf) cmd" where
  "trsync_expire_event call ts =
     mbind (gets (\<lambda>s. ts_expire_reason (trsyncs s ts))) (\<lambda>r.
     mseq (trsync_do_trigger call ts r) (ret SF_DONE))"

definition trsync_report_event :: "nat \<Rightarrow> ('s trs_scheme, sf) cmd" where
  "trsync_report_event ts =
     mseq (modify (set_ts ts (\<lambda>t. t\<lparr>ts_flags := ts_flags t OR TSF_REPORT\<rparr>))) (
     mseq (sched_wake_task Trsync_wake) (
     mseq (modify (\<lambda>s. set_wake (report_time ts) (waketime s (report_time ts) + ts_report_ticks (trsyncs s ts)) s))
     (ret SF_RESCHEDULE)))"

section \<open>Commands\<close>

definition command_config_trsync :: "u32 list \<Rightarrow> ('s trs_scheme, unit) cmd" where
  "command_config_trsync args = mbind (oid_alloc (ucast (args ! 0)) Oid_trsync SIZEOF_trsync) (\<lambda>ts.
     mseq (modify (\<lambda>s. set_ts ts (\<lambda>_. zero_trsync) (zero_timer (expire_time ts) (zero_timer (report_time ts) s)))) (
     mseq (modify (set_func (report_time ts) (Some Trsync_report_event)))
     (modify (set_func (expire_time ts) (Some Trsync_expire_event)))))"

definition trsync_oid_lookup :: "u8 \<Rightarrow> ('s trs_scheme, nat) cmd" where
  "trsync_oid_lookup oid = mbind (oid_lookup ''trsync_oid_lookup'' oid Oid_trsync) deref"

definition trsync_add_signal :: "nat \<Rightarrow> nat \<Rightarrow> signal_fn option \<Rightarrow> ('s trs_scheme, unit) cmd" where
  "trsync_add_signal ts tss func = mbind (gets (\<lambda>s. tss_func (tsignals s tss))) (\<lambda>old.
     if old \<noteq> None \<or> func = None then shutdown ''trsync_add_signal'' ''Can't add signal that is already active''
     else mseq (modify (\<lambda>s. set_tss tss (\<lambda>t. t\<lparr>tss_func := func, tss_next := ts_signals (trsyncs s ts)\<rparr>) s))
       (modify (set_ts ts (\<lambda>t. t\<lparr>ts_signals := Some tss\<rparr>))))"

text \<open>The loop of \<open>trsync_clear\<close> over the registered signals.\<close>

definition trsync_clear_signals :: "nat option \<Rightarrow> ('s trs_scheme, unit) cmd" where
  "trsync_clear_signals = cloop (\<lambda>tss. case tss of
       None \<Rightarrow> ret (Inr ())
     | Some a \<Rightarrow> mbind (gets (\<lambda>s. tss_next (tsignals s a))) (\<lambda>next.
         mseq (modify (set_tss a (\<lambda>t. t\<lparr>tss_func := None, tss_next := None\<rparr>))) (ret (Inl next))))"

definition trsync_clear :: "nat \<Rightarrow> ('s trs_scheme, unit) cmd" where
  "trsync_clear ts = mseq (sched_del_timer (report_time ts)) (
     mseq (sched_del_timer (expire_time ts)) (
     mseq (mbind (gets (\<lambda>s. ts_signals (trsyncs s ts))) trsync_clear_signals)
     (modify (set_ts ts (\<lambda>t. t\<lparr>ts_signals := None, ts_flags := 0, ts_trigger_reason := 0, ts_expire_reason := 0\<rparr>)))))"

definition command_trsync_start :: "u32 list \<Rightarrow> ('s trs_scheme, unit) cmd" where
  "command_trsync_start args = mbind (trsync_oid_lookup (ucast (args ! 0))) (\<lambda>ts.
     mseq (trsync_clear ts) (
     mseq (modify (set_ts ts (\<lambda>t. t\<lparr>ts_flags := TSF_CAN_TRIGGER\<rparr>))) (
     mseq (modify (set_wake (report_time ts) (args ! 1))) (
     mseq (modify (set_ts ts (\<lambda>t. t\<lparr>ts_report_ticks := args ! 2\<rparr>))) (
     mseq (mwhen (args ! 2 \<noteq> 0) (sched_add_timer ''command_trsync_start'' (report_time ts)))
     (modify (set_ts ts (\<lambda>t. t\<lparr>ts_expire_reason := ucast (args ! 3)\<rparr>))))))))"

definition command_trsync_set_timeout :: "u32 list \<Rightarrow> ('s trs_scheme, unit) cmd" where
  "command_trsync_set_timeout args = mbind (trsync_oid_lookup (ucast (args ! 0))) (\<lambda>ts.
     mbind (gets (\<lambda>s. ts_flags (trsyncs s ts))) (\<lambda>flags.
     mwhen (flags AND TSF_CAN_TRIGGER \<noteq> 0)
       (mseq (sched_del_timer (expire_time ts)) (
        mseq (modify (set_wake (expire_time ts) (args ! 1)))
        (sched_add_timer ''command_trsync_set_timeout'' (expire_time ts))))))"

definition trsync_report :: "u8 \<Rightarrow> u8 \<Rightarrow> u8 \<Rightarrow> u32 \<Rightarrow> ('s trs_scheme, unit) cmd" where
  "trsync_report oid flags reason clock =
     sendf ''trsync_state oid=%c can_trigger=%c trigger_reason=%c clock=%u''
       [U (ucast oid), U (bool32 (flags AND TSF_CAN_TRIGGER \<noteq> 0)), U (ucast reason), U clock]"

definition command_trsync_trigger ::
  "(signal_fn \<Rightarrow> nat \<Rightarrow> u8 \<Rightarrow> ('s trs_scheme, unit) cmd) \<Rightarrow> u32 list \<Rightarrow> ('s trs_scheme, unit) cmd" where
  "command_trsync_trigger call args =
     (let oid = ucast (args ! 0) in
      mbind (trsync_oid_lookup oid) (\<lambda>ts.
      mseq (trsync_do_trigger call ts (ucast (args ! 1))) (
      mseq (sched_del_timer (report_time ts)) (
      mseq (sched_del_timer (expire_time ts)) (
      mseq (modify (set_ts ts (\<lambda>t. t\<lparr>ts_flags := 0\<rparr>))) (
      mbind (gets (\<lambda>s. ts_trigger_reason (trsyncs s ts))) (\<lambda>r.
      trsync_report oid 0 r 0)))))))"

text \<open>The body of the loop of \<open>trsync_task\<close>.\<close>

definition trsync_task_one :: "u8 \<Rightarrow> nat \<Rightarrow> ('s trs_scheme, unit) cmd" where
  "trsync_task_one oid ts = mbind (gets (\<lambda>s. ts_flags (trsyncs s ts))) (\<lambda>flags0.
     if flags0 AND TSF_REPORT = 0 then ret ()
     else mbind timer_read_time (\<lambda>time.
       mbind (gets (\<lambda>s. ts_trigger_reason (trsyncs s ts))) (\<lambda>reason.
       mbind (gets (\<lambda>s. ts_flags (trsyncs s ts))) (\<lambda>flags.
       mseq (modify (set_ts ts (\<lambda>t. t\<lparr>ts_flags := flags AND NOT TSF_REPORT\<rparr>)))
       (trsync_report oid flags reason time)))))"

definition trsync_task :: "('s trs_scheme, unit) cmd" where
  "trsync_task = mbind (sched_check_wake Trsync_wake) (\<lambda>w.
     mwhen w (foreach_oid Oid_trsync trsync_task_one))"

definition trsync_shutdown :: "('s trs_scheme, unit) cmd" where
  "trsync_shutdown = foreach_oid Oid_trsync (\<lambda>oid ts. trsync_clear ts)"

section \<open>The list of signals\<close>

abbreviation sig_next :: "'s trs_scheme \<Rightarrow> nat \<Rightarrow> nat option" where
  "sig_next s \<equiv> \<lambda>a. tss_next (tsignals s a)"

text \<open>The signals registered with a trigger, the last one first.\<close>

definition signals_of :: "'s trs_scheme \<Rightarrow> nat \<Rightarrow> nat list \<Rightarrow> bool" where
  "signals_of s ts xs \<longleftrightarrow> lseg (sig_next s) (ts_signals (trsyncs s ts)) xs None
     \<and> (\<forall>a\<in>set xs. tss_func (tsignals s a) \<noteq> None)"

lemma set_ts_sel [simp]:
  "trsyncs (set_ts a f s) = (trsyncs s)(a := f (trsyncs s a))" "tsignals (set_ts a f s) = tsignals s"
  "timers (set_ts a f s) = timers s" "timer_list (set_ts a f s) = timer_list s"
  "oids (set_ts a f s) = oids s" "oid_count (set_ts a f s) = oid_count s"
  by (simp_all add: set_ts_def)

lemma set_tss_sel [simp]:
  "tsignals (set_tss a f s) = (tsignals s)(a := f (tsignals s a))" "trsyncs (set_tss a f s) = trsyncs s"
  "timers (set_tss a f s) = timers s" "timer_list (set_tss a f s) = timer_list s"
  "oids (set_tss a f s) = oids s" "oid_count (set_tss a f s) = oid_count s"
  by (simp_all add: set_tss_def)

lemma sched_wake_task_run [simp]:
  "sched_wake_task w s = (Inr (), s\<lparr>tasks_status := TS_REQUESTED, wakes := (wakes s)(w := True)\<rparr>)"
  by (simp add: sched_wake_task_def sched_wake_tasks_def run_simps)

lemma trsync_add_signal_run:
  assumes "signals_of s ts xs" "tss_func (tsignals s a) = None" "a \<notin> set xs"
  shows "\<exists>s'. trsync_add_signal ts a (Some f) s = (Inr (), s') \<and> signals_of s' ts (a # xs)"
proof -
  let ?s = "set_ts ts (\<lambda>t. t\<lparr>ts_signals := Some a\<rparr>)
     (set_tss a (\<lambda>t. t\<lparr>tss_func := Some f, tss_next := ts_signals (trsyncs s ts)\<rparr>) s)"
  have "trsync_add_signal ts a (Some f) s = (Inr (), ?s)"
    using assms by (simp add: trsync_add_signal_def run_simps)
  moreover have "lseg (sig_next ?s) (ts_signals (trsyncs s ts)) xs None = lseg (sig_next s) (ts_signals (trsyncs s ts)) xs None"
    using assms(3) by (intro lseg_cong) auto
  ultimately show ?thesis using assms by (auto simp: signals_of_def)
qed

section \<open>The interface of signal handlers\<close>

text \<open>
  What a trigger relies on.  Handling the signal of an object \<open>a\<close> returns, brings \<open>a\<close> into its stopped state
  and leaves every stopped object stopped; it does not touch the triggers.
\<close>

locale signal_handler =
  fixes inv :: "'s trs_scheme \<Rightarrow> bool" and obj :: "nat \<Rightarrow> bool" and stopped :: "nat \<Rightarrow> 's trs_scheme \<Rightarrow> bool"
    and handler :: "signal_fn \<Rightarrow> nat \<Rightarrow> u8 \<Rightarrow> ('s trs_scheme, unit) cmd"
  assumes handler_law: "inv s \<Longrightarrow> obj a \<Longrightarrow> \<exists>s'. handler f a r s = (Inr (), s') \<and> inv s' \<and> stopped a s'
      \<and> (\<forall>b. stopped b s \<longrightarrow> stopped b s') \<and> trsyncs s' = trsyncs s \<and> tsignals s' = tsignals s"
    and blind: "inv (s\<lparr>trsyncs := v\<rparr>) = inv s" "inv (s\<lparr>tsignals := u\<rparr>) = inv s"
      "inv (s\<lparr>tasks_status := i, wakes := w\<rparr>) = inv s"
      "stopped a (s\<lparr>trsyncs := v\<rparr>) = stopped a s" "stopped a (s\<lparr>tsignals := u\<rparr>) = stopped a s"
      "stopped a (s\<lparr>tasks_status := i, wakes := w\<rparr>) = stopped a s"
begin

lemma blind_set: "inv (set_ts a f s) = inv s" "inv (set_tss a g s) = inv s"
  "stopped b (set_ts a f s) = stopped b s" "stopped b (set_tss a g s) = stopped b s"
  by (simp_all add: set_ts_def set_tss_def blind)

lemma signal_one:
  assumes "inv s" "signals_of s ts (a # xs)" "obj a"
  shows "\<exists>s'. trsync_signal_one handler ts r s = (Inr (), s') \<and> inv s' \<and> signals_of s' ts xs \<and> stopped a s'
    \<and> (\<forall>b. stopped b s \<longrightarrow> stopped b s') \<and> tsignals s' = (tsignals s)(a := \<lparr>tss_next = None, tss_func = None\<rparr>)
    \<and> (\<exists>n. trsyncs s' ts = (trsyncs s ts)\<lparr>ts_signals := n\<rparr>)"
proof -
  let ?s = "set_tss a (\<lambda>t. t\<lparr>tss_next := None, tss_func := None\<rparr>) (set_ts ts (\<lambda>t. t\<lparr>ts_signals := tss_next (tsignals s a)\<rparr>) s)"
  from assms obtain f where f: "tss_func (tsignals s a) = Some f" by (auto simp: signals_of_def)
  have "inv ?s" using assms(1) by (simp add: blind_set)
  then obtain s' where h: "handler f a r ?s = (Inr (), s')" "inv s'" "stopped a s'" "\<forall>b. stopped b ?s \<longrightarrow> stopped b s'"
      "trsyncs s' = trsyncs ?s" "tsignals s' = tsignals ?s"
    using handler_law [OF _ assms(3)] by blast
  have na: "a \<notin> set xs" using assms(2) lseg_distinct [of "sig_next s" _ "a # xs"] by (auto simp: signals_of_def)
  have "trsync_signal_one handler ts r s = (Inr (), s')"
    using assms(2) h(1) f by (simp add: trsync_signal_one_def run_simps signals_of_def deref_def)
  moreover have "lseg (sig_next s') (tss_next (tsignals s a)) xs None = lseg (sig_next s) (tss_next (tsignals s a)) xs None"
    using na by (intro lseg_cong) (auto simp: h(6))
  then have "signals_of s' ts xs" using assms(2) na by (auto simp: signals_of_def h(5,6))
  ultimately show ?thesis using h by (auto simp: blind_set intro!: exI [of _ s'])
qed

lemma signal_loop:
  "inv s \<Longrightarrow> signals_of s ts xs \<Longrightarrow> \<forall>a\<in>set xs. obj a \<Longrightarrow>
   \<exists>s'. cwhile (\<lambda>s. ts_signals (trsyncs s ts) \<noteq> None) (trsync_signal_one handler ts r) s = (Inr (), s') \<and> inv s'
     \<and> trsyncs s' ts = (trsyncs s ts)\<lparr>ts_signals := None\<rparr> \<and> (\<forall>a\<in>set xs. stopped a s' \<and> tss_func (tsignals s' a) = None)
     \<and> (\<forall>b. stopped b s \<longrightarrow> stopped b s') \<and> (\<forall>b. b \<notin> set xs \<longrightarrow> tsignals s' b = tsignals s b)"
proof (induction xs arbitrary: s)
  case Nil
  then have "ts_signals (trsyncs s ts) = None" by (simp add: signals_of_def)
  then show ?case using Nil by (auto simp: cwhile_done intro!: exI [of _ s])
next
  case (Cons a xs)
  then obtain t where t: "trsync_signal_one handler ts r s = (Inr (), t)" "inv t" "signals_of t ts xs" "stopped a t"
      "\<forall>b. stopped b s \<longrightarrow> stopped b t" "tsignals t = (tsignals s)(a := \<lparr>tss_next = None, tss_func = None\<rparr>)"
      "\<exists>n. trsyncs t ts = (trsyncs s ts)\<lparr>ts_signals := n\<rparr>"
    using signal_one [of s ts a xs r] by auto
  have na: "a \<notin> set xs" using Cons.prems(2) lseg_distinct [of "sig_next s" _ "a # xs"] by (auto simp: signals_of_def)
  obtain s' where s': "cwhile (\<lambda>s. ts_signals (trsyncs s ts) \<noteq> None) (trsync_signal_one handler ts r) t = (Inr (), s')" "inv s'"
      "trsyncs s' ts = (trsyncs t ts)\<lparr>ts_signals := None\<rparr>" "\<forall>a\<in>set xs. stopped a s' \<and> tss_func (tsignals s' a) = None"
      "\<forall>b. stopped b t \<longrightarrow> stopped b s'" "\<forall>b. b \<notin> set xs \<longrightarrow> tsignals s' b = tsignals t b"
    using Cons.IH [of t] t Cons.prems by auto
  have "ts_signals (trsyncs s ts) \<noteq> None" using Cons.prems(2) by (simp add: signals_of_def)
  then have "cwhile (\<lambda>s. ts_signals (trsyncs s ts) \<noteq> None) (trsync_signal_one handler ts r) s = (Inr (), s')"
    using cwhile_step [of "\<lambda>s. ts_signals (trsyncs s ts) \<noteq> None" s "trsync_signal_one handler ts r" t] t(1) s'(1) by simp
  moreover have "trsyncs s' ts = (trsyncs s ts)\<lparr>ts_signals := None\<rparr>" using t(7) s'(3) by auto
  moreover have "tss_func (tsignals s' a) = None" using s'(6) na t(6) by simp
  ultimately show ?case using s' t by (intro exI [of _ s']) auto
qed

text \<open>A trigger handles every signal exactly once; the next one finds nothing to do.\<close>

lemma do_trigger:
  assumes "inv s" "signals_of s ts xs" "\<forall>a\<in>set xs. obj a" "ts_flags (trsyncs s ts) AND TSF_CAN_TRIGGER \<noteq> 0"
  obtains s' where "trsync_do_trigger handler ts r s = (Inr (), s')" "inv s'" "\<forall>a\<in>set xs. stopped a s'"
    "signals_of s' ts []" "\<forall>a\<in>set xs. tss_func (tsignals s' a) = None" "ts_trigger_reason (trsyncs s' ts) = r"
    "ts_flags (trsyncs s' ts) AND TSF_REPORT \<noteq> 0" "wakes s' Trsync_wake"
    "\<And>r'. trsync_do_trigger handler ts r' s' = (Inr (), s')"
proof -
  let ?f = "(ts_flags (trsyncs s ts) AND NOT TSF_CAN_TRIGGER) OR TSF_REPORT"
  let ?s = "set_ts ts (\<lambda>t. t\<lparr>ts_trigger_reason := r, ts_flags := ?f\<rparr>) s"
  have "inv ?s" "signals_of ?s ts xs" using assms by (simp_all add: blind_set signals_of_def)
  then obtain t where t: "cwhile (\<lambda>s. ts_signals (trsyncs s ts) \<noteq> None) (trsync_signal_one handler ts r) ?s = (Inr (), t)" "inv t"
     "trsyncs t ts = (trsyncs ?s ts)\<lparr>ts_signals := None\<rparr>" "\<forall>a\<in>set xs. stopped a t \<and> tss_func (tsignals t a) = None"
    using signal_loop [of ?s ts xs r] assms(3) by blast
  let ?t = "t\<lparr>tasks_status := TS_REQUESTED, wakes := (wakes t)(Trsync_wake := True)\<rparr>"
  have "trsync_do_trigger handler ts r s = (Inr (), ?t)"
    using assms(4) t(1) by (simp add: trsync_do_trigger_def run_simps)
  moreover have "?f AND TSF_CAN_TRIGGER = 0" "?f AND TSF_REPORT \<noteq> 0"
    unfolding or_flag by (rule flag_cleared) (simp_all add: TSF_CAN_TRIGGER_def TSF_REPORT_def)
  moreover have "inv ?t" "\<forall>a\<in>set xs. stopped a ?t" using t by (simp_all add: blind)
  ultimately show thesis using t
    by (intro that [of ?t]) (auto simp: signals_of_def trsync_do_trigger_def run_simps)
qed

end

text \<open>The triggers before any of them is configured.\<close>

definition trs_static :: trs where
  "trs_static = base.extend base_static \<lparr>trsyncs = (\<lambda>_. \<lparr>ts_report_ticks = 0, ts_signals = None, ts_flags = 0,
     ts_trigger_reason = 0, ts_expire_reason = 0\<rparr>), tsignals = (\<lambda>_. \<lparr>tss_next = None, tss_func = None\<rparr>)\<rparr>"

lemmas trs_static_simps = base_static_simps trs_static_def base.extend_def

end
