(* ===== verification/Stepper.thy ===== *)
theory Stepper
  imports Trsync
begin

text \<open>
  Stepper drivers, \<open>src/src/stepper.c\<close>.  The compile-time options that select the step function
  are a record \<open>step_config\<close>: \<open>edge\<close> is HAVE_EDGE_OPTIMIZATION, \<open>avr\<close> is HAVE_AVR_OPTIMIZATION,
  \<open>hack\<close> is CONFIG_INLINE_STEPPER_HACK; HAVE_SINGLE_SCHEDULE is set with either optimisation.
  The contents of a \<open>struct stepper_move\<close> are the store \<open>moves\<close>, keyed by the address of the
  move node.
\<close>

section \<open>State\<close>

record step_config =
  edge :: bool
  avr :: bool
  hack :: bool

definition HAVE_SINGLE_SCHEDULE :: "step_config \<Rightarrow> bool" where
  "HAVE_SINGLE_SCHEDULE c \<longleftrightarrow> edge c \<or> avr c"

record stepper_move =
  m_interval :: u32
  m_add :: u16
  m_count :: u16
  m_flags :: u8

record stepper_s =
  sp_interval :: u32
  sp_add :: u16
  sp_count :: u32
  sp_next_step_time :: u32
  sp_step_pulse_ticks :: u32
  sp_step_pin :: u32
  sp_dir_pin :: u32
  sp_position :: u32
  sp_mq :: move_queue_head
  sp_flags :: u8

record steppers = trs +
  steppers :: "nat \<Rightarrow> stepper_s"
  moves :: "nat \<Rightarrow> stepper_move"

definition MF_DIR :: u8 where "MF_DIR = 1"
definition POSITION_BIAS :: u32 where "POSITION_BIAS = 0x40000000"
definition SF_LAST_DIR :: u8 where "SF_LAST_DIR = 1"
definition SF_NEXT_DIR :: u8 where "SF_NEXT_DIR = 2"
definition SF_INVERT_STEP :: u8 where "SF_INVERT_STEP = 4"
definition SF_NEED_RESET :: u8 where "SF_NEED_RESET = 8"
definition SF_SINGLE_SCHED :: u8 where "SF_SINGLE_SCHED = 16"
definition SF_HAVE_ADD :: u8 where "SF_HAVE_ADD = 32"

lemmas stepper_flags = MF_DIR_def SF_LAST_DIR_def SF_NEXT_DIR_def SF_INVERT_STEP_def SF_NEED_RESET_def
  SF_SINGLE_SCHED_def SF_HAVE_ADD_def

definition SIZEOF_stepper :: nat where "SIZEOF_stepper = 72"
definition SIZEOF_stepper_move :: nat where "SIZEOF_stepper_move = 16"

abbreviation step_time :: "nat \<Rightarrow> tptr" where "step_time a \<equiv> Obj_timer a 0"

definition set_sp :: "nat \<Rightarrow> (stepper_s \<Rightarrow> stepper_s) \<Rightarrow> 's steppers_scheme \<Rightarrow> 's steppers_scheme" where
  "set_sp a f s = s\<lparr>steppers := (steppers s)(a := f (steppers s a))\<rparr>"

definition zero_stepper :: stepper_s where
  "zero_stepper = \<lparr>sp_interval = 0, sp_add = 0, sp_count = 0, sp_next_step_time = 0, sp_step_pulse_ticks = 0,
     sp_step_pin = 0, sp_dir_pin = 0, sp_position = 0, sp_mq = \<lparr>mq_first = None, mq_last = None\<rparr>, sp_flags = 0\<rparr>"

text \<open>The sign-extended addition of the \<open>int16_t add\<close> to a 32 bit interval.\<close>

definition add16 :: "u32 \<Rightarrow> u16 \<Rightarrow> u32" where
  "add16 x a = x + scast a"

definition single_sched :: "step_config \<Rightarrow> stepper_s \<Rightarrow> bool" where
  "single_sched c sp \<longleftrightarrow> HAVE_SINGLE_SCHEDULE c \<and> sp_flags sp AND SF_SINGLE_SCHED \<noteq> 0"

section \<open>Stepping\<close>

text \<open>The part of \<open>stepper_load_next\<close> that copies a move into the stepper.\<close>

definition stepper_load_move :: "step_config \<Rightarrow> nat \<Rightarrow> stepper_move \<Rightarrow> ('s steppers_scheme, unit) cmd" where
  "stepper_load_move c a m =
     mseq (modify (set_sp a (\<lambda>sp. sp\<lparr>sp_add := m_add m, sp_interval := add16 (m_interval m) (m_add m)\<rparr>))) (
     mseq (mbind (gets (\<lambda>s. single_sched c (steppers s a))) (\<lambda>single.
       if single then
         mseq (modify (\<lambda>s. set_wake (step_time a) (waketime s (step_time a) + m_interval m) s)) (
         mseq (mwhen (avr c) (modify (set_sp a (\<lambda>sp. sp\<lparr>sp_flags := (if m_add m \<noteq> 0
                   then sp_flags sp OR SF_HAVE_ADD else sp_flags sp AND NOT SF_HAVE_ADD)\<rparr>))))
         (modify (set_sp a (\<lambda>sp. sp\<lparr>sp_count := ucast (m_count m)\<rparr>))))
       else
         mseq (modify (set_sp a (\<lambda>sp. sp\<lparr>sp_next_step_time := sp_next_step_time sp + m_interval m\<rparr>))) (
         mseq (modify (\<lambda>s. set_wake (step_time a) (sp_next_step_time (steppers s a)) s))
         (modify (set_sp a (\<lambda>sp. sp\<lparr>sp_count := ucast (m_count m) * 2\<rparr>))))))
     (if m_flags m AND MF_DIR \<noteq> 0 then
        mseq (modify (set_sp a (\<lambda>sp. sp\<lparr>sp_position := - sp_position sp + ucast (m_count m)\<rparr>)))
          (mbind (gets (\<lambda>s. sp_dir_pin (steppers s a))) gpio_out_toggle_noirq)
      else modify (set_sp a (\<lambda>sp. sp\<lparr>sp_position := sp_position sp + ucast (m_count m)\<rparr>))))"

definition stepper_load_next :: "step_config \<Rightarrow> nat \<Rightarrow> ('s steppers_scheme, sf) cmd" where
  "stepper_load_next c a = mbind (gets (\<lambda>s. sp_mq (steppers s a))) (\<lambda>mq.
     if move_queue_empty mq then
       mseq (modify (set_sp a (\<lambda>sp. sp\<lparr>sp_count := 0\<rparr>))) (ret SF_DONE)
     else
       mbind (move_queue_pop mq) (\<lambda>(mn, mq').
       mseq (modify (set_sp a (\<lambda>sp. sp\<lparr>sp_mq := mq'\<rparr>))) (
       mbind (gets (\<lambda>s. moves s mn)) (\<lambda>m.
       mseq (stepper_load_move c a m) (
       mseq (move_free mn) (ret SF_RESCHEDULE))))))"

definition stepper_event_edge :: "step_config \<Rightarrow> nat \<Rightarrow> ('s steppers_scheme, sf) cmd" where
  "stepper_event_edge c a =
     mseq (mbind (gets (\<lambda>s. sp_step_pin (steppers s a))) gpio_out_toggle_noirq) (
     mbind (gets (\<lambda>s. sp_count (steppers s a) - 1)) (\<lambda>cnt.
     if cnt \<noteq> 0 then
       mseq (modify (set_sp a (\<lambda>sp. sp\<lparr>sp_count := cnt\<rparr>))) (
       mseq (modify (\<lambda>s. set_wake (step_time a) (waketime s (step_time a) + sp_interval (steppers s a)) s)) (
       mseq (modify (set_sp a (\<lambda>sp. sp\<lparr>sp_interval := add16 (sp_interval sp) (sp_add sp)\<rparr>)))
       (ret SF_RESCHEDULE)))
     else stepper_load_next c a))"

text \<open>The AVR variant counts in the low 16 bits of \<open>count\<close> only (a little-endian machine).\<close>

definition set_low16 :: "u32 \<Rightarrow> u16 \<Rightarrow> u32" where
  "set_low16 x v = (x AND 0xffff0000) OR ucast v"

definition stepper_event_avr :: "step_config \<Rightarrow> nat \<Rightarrow> ('s steppers_scheme, sf) cmd" where
  "stepper_event_avr c a =
     (let toggle = mbind (gets (\<lambda>s. sp_step_pin (steppers s a))) gpio_out_toggle_noirq in
      mseq toggle (
      mbind (gets (\<lambda>s. ucast (sp_count (steppers s a)) - 1 :: u16)) (\<lambda>cnt.
      if cnt \<noteq> 0 then
        mseq (modify (set_sp a (\<lambda>sp. sp\<lparr>sp_count := set_low16 (sp_count sp) cnt\<rparr>))) (
        mseq (modify (\<lambda>s. set_wake (step_time a) (waketime s (step_time a) + sp_interval (steppers s a)) s)) (
        mseq toggle (
        mseq (modify (set_sp a (\<lambda>sp. if sp_flags sp AND SF_HAVE_ADD \<noteq> 0
                then sp\<lparr>sp_interval := add16 (sp_interval sp) (sp_add sp)\<rparr> else sp)))
        (ret SF_RESCHEDULE))))
      else
        mbind (stepper_load_next c a) (\<lambda>r. mseq toggle (ret r)))))"

text \<open>The label \<open>reschedule_min\<close> of \<open>stepper_event_full\<close>.\<close>

definition reschedule_min :: "nat \<Rightarrow> u32 \<Rightarrow> ('s steppers_scheme, sf) cmd" where
  "reschedule_min a t = mseq (modify (set_wake (step_time a) t)) (ret SF_RESCHEDULE)"

definition stepper_event_full :: "step_config \<Rightarrow> nat \<Rightarrow> ('s steppers_scheme, sf) cmd" where
  "stepper_event_full c a =
     mseq (mbind (gets (\<lambda>s. sp_step_pin (steppers s a))) gpio_out_toggle_noirq) (
     mbind timer_read_time (\<lambda>curtime.
     mbind (gets (\<lambda>s. curtime + sp_step_pulse_ticks (steppers s a))) (\<lambda>min_next_time.
     mseq (modify (set_sp a (\<lambda>sp. sp\<lparr>sp_count := sp_count sp - 1\<rparr>))) (
     mbind (gets (\<lambda>s. sp_count (steppers s a))) (\<lambda>cnt.
     if cnt AND 1 \<noteq> 0 then reschedule_min a min_next_time
     else if cnt \<noteq> 0 then
       mseq (modify (set_sp a (\<lambda>sp. sp\<lparr>sp_next_step_time := sp_next_step_time sp + sp_interval sp,
               sp_interval := add16 (sp_interval sp) (sp_add sp)\<rparr>))) (
       mbind (gets (\<lambda>s. sp_next_step_time (steppers s a))) (\<lambda>nst.
       if timer_is_before nst min_next_time then reschedule_min a min_next_time
       else mseq (modify (set_wake (step_time a) nst)) (ret SF_RESCHEDULE)))
     else
       mbind (stepper_load_next c a) (\<lambda>r.
       mbind (gets (\<lambda>s. waketime s (step_time a))) (\<lambda>wt.
       if r = SF_DONE \<or> \<not> timer_is_before wt min_next_time then ret r
       else mbind (gets (\<lambda>s. timer_from_us s 1000)) (\<lambda>ms.
         if sint (wt - min_next_time) < sint (- ms) then shutdown ''stepper_event_full'' ''Stepper too far in past''
         else reschedule_min a min_next_time))))))))"

definition stepper_event :: "step_config \<Rightarrow> nat \<Rightarrow> ('s steppers_scheme, sf) cmd" where
  "stepper_event c a = (if edge c then stepper_event_edge c a
     else if avr c then stepper_event_avr c a else stepper_event_full c a)"

section \<open>Commands\<close>

definition AVR_STEP_INSNS :: u32 where "AVR_STEP_INSNS = 40"

definition command_config_stepper :: "step_config \<Rightarrow> u32 list \<Rightarrow> ('s steppers_scheme, unit) cmd" where
  "command_config_stepper c args = mbind (oid_alloc (ucast (args ! 0)) Oid_stepper SIZEOF_stepper) (\<lambda>a.
     let invert_step = sint (args ! 3) in
     mseq (modify (\<lambda>s. set_sp a (\<lambda>_. zero_stepper)
        (set_tss a (\<lambda>_. \<lparr>tss_next = None, tss_func = None\<rparr>) (zero_timer (step_time a) s)))) (
     mseq (modify (set_sp a (\<lambda>sp. sp\<lparr>sp_flags := (if invert_step > 0 then SF_INVERT_STEP else 0)\<rparr>))) (
     mbind (gets (\<lambda>s. sp_flags (steppers s a))) (\<lambda>fl.
     mbind (gpio_out_setup (args ! 1) (ucast (fl AND SF_INVERT_STEP))) (\<lambda>sp_pin.
     mseq (modify (set_sp a (\<lambda>sp. sp\<lparr>sp_step_pin := sp_pin\<rparr>))) (
     mbind (gpio_out_setup (args ! 2) 0) (\<lambda>d_pin.
     mseq (modify (set_sp a (\<lambda>sp. sp\<lparr>sp_dir_pin := d_pin, sp_position := - POSITION_BIAS,
             sp_step_pulse_ticks := args ! 4\<rparr>))) (
     mbind (move_queue_setup SIZEOF_stepper_move) (\<lambda>mq.
     mseq (modify (set_sp a (\<lambda>sp. sp\<lparr>sp_mq := mq\<rparr>)))
     (let single = modify (set_sp a (\<lambda>sp. sp\<lparr>sp_flags := sp_flags sp OR SF_SINGLE_SCHED\<rparr>));
          full = modify (set_func (step_time a) (Some Stepper_event_full))
      in if edge c then (if args ! 4 = 0 \<and> invert_step < 0 then single else full)
         else if avr c then (if args ! 4 \<le> AVR_STEP_INSNS then single else full)
         else mwhen (\<not> hack c) full))))))))))"

definition stepper_oid_lookup :: "u8 \<Rightarrow> ('s steppers_scheme, nat) cmd" where
  "stepper_oid_lookup oid = mbind (oid_lookup ''stepper_oid_lookup'' oid Oid_stepper) deref"

definition set_move :: "nat \<Rightarrow> stepper_move \<Rightarrow> 's steppers_scheme \<Rightarrow> 's steppers_scheme" where
  "set_move n m s = s\<lparr>moves := (moves s)(n := m)\<rparr>"

text \<open>Adding a filled move to the queue of a stepper.\<close>

definition stepper_push :: "nat \<Rightarrow> nat \<Rightarrow> ('s steppers_scheme, unit) cmd" where
  "stepper_push a n = mbind (gets (\<lambda>s. sp_mq (steppers s a))) (\<lambda>mq.
     mbind (move_queue_push n mq) (\<lambda>(_, mq'). modify (set_sp a (\<lambda>sp. sp\<lparr>sp_mq := mq'\<rparr>))))"

definition command_queue_step :: "step_config \<Rightarrow> u32 list \<Rightarrow> ('s steppers_scheme, unit) cmd" where
  "command_queue_step c args = mbind (stepper_oid_lookup (ucast (args ! 0))) (\<lambda>a.
     mbind move_alloc (\<lambda>n.
     let cnt = ucast (args ! 2) :: u16 in
     mseq (modify (\<lambda>s. set_move n ((moves s n)\<lparr>m_interval := args ! 1, m_count := cnt\<rparr>) s)) (
     if cnt = 0 then shutdown ''command_queue_step'' ''Invalid count parameter''
     else
       mbind (gets (\<lambda>s. sp_flags (steppers s a))) (\<lambda>flags0.
       let turn = (flags0 AND SF_LAST_DIR \<noteq> 0) \<noteq> (flags0 AND SF_NEXT_DIR \<noteq> 0);
           flags = (if turn then flags0 XOR SF_LAST_DIR else flags0)
       in mseq (modify (\<lambda>s. set_move n ((moves s n)\<lparr>m_add := ucast (args ! 3),
                 m_flags := (if turn then MF_DIR else 0)\<rparr>) s)) (
       mbind (gets (\<lambda>s. sp_count (steppers s a))) (\<lambda>active.
       if active \<noteq> 0 then
         mseq (modify (set_sp a (\<lambda>sp. sp\<lparr>sp_flags := flags\<rparr>))) (stepper_push a n)
       else if flags AND SF_NEED_RESET \<noteq> 0 then move_free n
       else
         mseq (modify (set_sp a (\<lambda>sp. sp\<lparr>sp_flags := flags\<rparr>))) (
         mseq (stepper_push a n) (
         mseq (stepper_load_next c a)
         (sched_add_timer ''command_queue_step'' (step_time a))))))))))"

definition command_set_next_step_dir :: "u32 list \<Rightarrow> ('s steppers_scheme, unit) cmd" where
  "command_set_next_step_dir args = mbind (stepper_oid_lookup (ucast (args ! 0))) (\<lambda>a.
     let nextdir = (if args ! 1 \<noteq> 0 then SF_NEXT_DIR else 0)
     in modify (set_sp a (\<lambda>sp. sp\<lparr>sp_flags := (sp_flags sp AND NOT SF_NEXT_DIR) OR nextdir\<rparr>)))"

definition command_reset_step_clock :: "u32 list \<Rightarrow> ('s steppers_scheme, unit) cmd" where
  "command_reset_step_clock args = mbind (stepper_oid_lookup (ucast (args ! 0))) (\<lambda>a.
     mbind (gets (\<lambda>s. sp_count (steppers s a))) (\<lambda>cnt.
     if cnt \<noteq> 0 then shutdown ''command_reset_step_clock'' ''Can't reset time when stepper active''
     else mseq (modify (set_wake (step_time a) (args ! 1)))
       (modify (set_sp a (\<lambda>sp. sp\<lparr>sp_next_step_time := args ! 1,
          sp_flags := sp_flags sp AND NOT SF_NEED_RESET\<rparr>)))))"

definition stepper_get_position :: "step_config \<Rightarrow> stepper_s \<Rightarrow> u32" where
  "stepper_get_position c sp =
     (let position = (if single_sched c sp then sp_position sp - sp_count sp
                      else sp_position sp - sp_count sp div 2)
      in if position AND 0x80000000 \<noteq> 0 then - position else position)"

definition command_stepper_get_position :: "step_config \<Rightarrow> u32 list \<Rightarrow> ('s steppers_scheme, unit) cmd" where
  "command_stepper_get_position c args =
     (let oid = ucast (args ! 0) in
      mbind (stepper_oid_lookup oid) (\<lambda>a.
      mbind (gets (\<lambda>s. stepper_get_position c (steppers s a))) (\<lambda>position.
      sendf ''stepper_position oid=%c pos=%i'' [U (ucast oid), U (position - POSITION_BIAS)])))"

text \<open>The loop of \<open>stepper_stop\<close> that frees the queued moves.\<close>

definition stepper_free_moves :: "nat \<Rightarrow> ('s steppers_scheme, unit) cmd" where
  "stepper_free_moves a = cwhile (\<lambda>s. \<not> move_queue_empty (sp_mq (steppers s a)))
     (mbind (gets (\<lambda>s. sp_mq (steppers s a))) (\<lambda>mq.
      mbind (move_queue_pop mq) (\<lambda>(mn, mq').
      mseq (modify (set_sp a (\<lambda>sp. sp\<lparr>sp_mq := mq'\<rparr>))) (move_free mn))))"

definition stepper_stop :: "step_config \<Rightarrow> nat \<Rightarrow> ('s steppers_scheme, unit) cmd" where
  "stepper_stop c a = mseq (sched_del_timer (step_time a)) (
     mseq (modify (set_wake (step_time a) 0)) (
     mseq (modify (set_sp a (\<lambda>sp. sp\<lparr>sp_next_step_time := 0\<rparr>))) (
     mseq (modify (set_sp a (\<lambda>sp. sp\<lparr>sp_position := - stepper_get_position c sp\<rparr>))) (
     mseq (modify (set_sp a (\<lambda>sp. sp\<lparr>sp_count := 0,
             sp_flags := (sp_flags sp AND (SF_INVERT_STEP OR SF_SINGLE_SCHED)) OR SF_NEED_RESET\<rparr>))) (
     mseq (mbind (gets (\<lambda>s. sp_dir_pin (steppers s a))) (\<lambda>p. gpio_out_write p 0)) (
     mseq (mbind (gets (\<lambda>s. steppers s a)) (\<lambda>sp.
       mwhen (\<not> (edge c \<and> sp_flags sp AND SF_SINGLE_SCHED \<noteq> 0))
         (gpio_out_write (sp_step_pin sp) (ucast (sp_flags sp AND SF_INVERT_STEP)))))
     (stepper_free_moves a)))))))"

text \<open>The interpretation of the callbacks of signals.\<close>

definition signal_call :: "step_config \<Rightarrow> signal_fn \<Rightarrow> nat \<Rightarrow> u8 \<Rightarrow> ('s steppers_scheme, unit) cmd" where
  "signal_call c f tss reason = (case f of Stepper_stop \<Rightarrow> stepper_stop c tss)"

definition command_stepper_stop_on_trigger :: "u32 list \<Rightarrow> ('s steppers_scheme, unit) cmd" where
  "command_stepper_stop_on_trigger args = mbind (stepper_oid_lookup (ucast (args ! 0))) (\<lambda>a.
     mbind (trsync_oid_lookup (ucast (args ! 1))) (\<lambda>ts.
     trsync_add_signal ts a (Some Stepper_stop)))"

definition stepper_shutdown :: "step_config \<Rightarrow> ('s steppers_scheme, unit) cmd" where
  "stepper_shutdown c = foreach_oid Oid_stepper (\<lambda>i a.
     mseq (modify (set_sp a (\<lambda>sp. sp\<lparr>sp_mq := move_queue_clear (sp_mq sp)\<rparr>))) (stepper_stop c a))"

section \<open>Stopping a stepper\<close>

lemma set_sp_sel [simp]:
  "steppers (set_sp a f s) = (steppers s)(a := f (steppers s a))" "moves (set_sp a f s) = moves s"
  "mnext (set_sp a f s) = mnext s" "move_free_list (set_sp a f s) = move_free_list s"
  "timers (set_sp a f s) = timers s" "timer_list (set_sp a f s) = timer_list s" "last_insert (set_sp a f s) = last_insert s"
  "trsyncs (set_sp a f s) = trsyncs s" "tsignals (set_sp a f s) = tsignals s"
  "clk (set_sp a f s) = clk s" "clk_n (set_sp a f s) = clk_n s"
  by (simp_all add: set_sp_def)

lemma set_sp_twice: "set_sp a f (set_sp a g s) = set_sp a (f \<circ> g) s"
  by (simp add: set_sp_def)

text \<open>The loop that frees the moves of a queue returns all of them to the pool.\<close>

lemma stepper_free_moves_run:
  assumes "queue_nodes s (sp_mq (steppers s a)) xs" "free_nodes s F" "set xs \<inter> set F = {}"
  shows "\<exists>h fl mq. let s' = set_sp a (\<lambda>sp. sp\<lparr>sp_mq := mq\<rparr>) (s\<lparr>mnext := h, move_free_list := fl\<rparr>)
     in stepper_free_moves a s = (Inr (), s') \<and> move_queue_empty mq \<and> free_nodes s' (rev xs @ F)
      \<and> (\<forall>p. p \<notin> set xs \<longrightarrow> h p = mnext s p)"
  using assms
proof (induction xs arbitrary: s F)
  case Nil
  then have "move_queue_empty (sp_mq (steppers s a))" by (simp add: queue_nodes_empty)
  then have "stepper_free_moves a s = (Inr (), s)" by (simp add: stepper_free_moves_def cwhile_done)
  moreover have "set_sp a (\<lambda>sp. sp\<lparr>sp_mq := sp_mq (steppers s a)\<rparr>) (s\<lparr>mnext := mnext s, move_free_list := move_free_list s\<rparr>) = s"
    by (simp add: set_sp_def)
  ultimately show ?case using Nil \<open>move_queue_empty _\<close>
    by (intro exI [of _ "mnext s"] exI [of _ "move_free_list s"] exI [of _ "sp_mq (steppers s a)"]) (simp only: Let_def rev.simps append_Nil, simp)
next
  case (Cons x xs)
  let ?mq = "(sp_mq (steppers s a))\<lparr>mq_first := mnext s x\<rparr>"
  let ?t = "(set_mnext x (move_free_list s) (set_sp a (\<lambda>sp. sp\<lparr>sp_mq := ?mq\<rparr>) s))\<lparr>move_free_list := Some x\<rparr>"
  have d: "x \<notin> set xs" using queue_nodes_distinct [OF Cons.prems(1)] by simp
  have body: "mbind (gets (\<lambda>s. sp_mq (steppers s a))) (\<lambda>mq.
      mbind (move_queue_pop mq) (\<lambda>(mn, mq').
      mseq (modify (set_sp a (\<lambda>sp. sp\<lparr>sp_mq := mq'\<rparr>))) (move_free mn))) s = (Inr (), ?t)"
    using move_queue_pop_run(1) [OF Cons.prems(1)] by (simp add: run_simps move_free_run)
  have q: "queue_nodes ?t (sp_mq (steppers ?t a)) xs"
    using move_queue_pop_run(2) [OF Cons.prems(1)] d by (simp add: queue_nodes_def set_mnext_def)
  have f: "free_nodes ?t (x # F)"
    using Cons.prems(2,3) by (simp add: free_nodes_def set_mnext_def)
  have "set xs \<inter> set (x # F) = {}" using Cons.prems(3) d by auto
  from Cons.IH [OF q f this] obtain h fl mq where
    "let s' = set_sp a (\<lambda>sp. sp\<lparr>sp_mq := mq\<rparr>) (?t\<lparr>mnext := h, move_free_list := fl\<rparr>)
     in stepper_free_moves a ?t = (Inr (), s') \<and> move_queue_empty mq \<and> free_nodes s' (rev xs @ x # F)
      \<and> (\<forall>p. p \<notin> set xs \<longrightarrow> h p = mnext ?t p)" by blast
  then have IH: "stepper_free_moves a ?t = (Inr (), set_sp a (\<lambda>sp. sp\<lparr>sp_mq := mq\<rparr>) (?t\<lparr>mnext := h, move_free_list := fl\<rparr>))"
     "move_queue_empty mq" "free_nodes (set_sp a (\<lambda>sp. sp\<lparr>sp_mq := mq\<rparr>) (?t\<lparr>mnext := h, move_free_list := fl\<rparr>)) (rev xs @ x # F)"
     "\<forall>p. p \<notin> set xs \<longrightarrow> h p = mnext ?t p" unfolding Let_def by blast+
  have e: "set_sp a (\<lambda>sp. sp\<lparr>sp_mq := mq\<rparr>) (?t\<lparr>mnext := h, move_free_list := fl\<rparr>)
      = set_sp a (\<lambda>sp. sp\<lparr>sp_mq := mq\<rparr>) (s\<lparr>mnext := h, move_free_list := fl\<rparr>)"
    by (simp add: set_sp_def set_mnext_def)
  have "\<not> move_queue_empty (sp_mq (steppers s a))" using queue_nodes_empty [OF Cons.prems(1)] by simp
  then have "stepper_free_moves a s = stepper_free_moves a ?t"
    unfolding stepper_free_moves_def using body IH(1) [unfolded stepper_free_moves_def]
    by (intro cwhile_step) auto
  then show ?case using IH e by (intro exI [of _ h] exI [of _ fl] exI [of _ mq]) (auto simp: Let_def)
qed

text \<open>What stopping leaves of a stepper.\<close>

definition stopped_stepper :: "step_config \<Rightarrow> stepper_s \<Rightarrow> stepper_s" where
  "stopped_stepper c sp = sp\<lparr>sp_next_step_time := 0, sp_position := - stepper_get_position c sp, sp_count := 0,
     sp_flags := (sp_flags sp AND (SF_INVERT_STEP OR SF_SINGLE_SCHED)) OR SF_NEED_RESET\<rparr>"

lemma get_position_next_step: "stepper_get_position c (sp\<lparr>sp_next_step_time := v\<rparr>) = stepper_get_position c sp"
  by (simp add: stepper_get_position_def single_sched_def)

lemma stepper_stop_tail:
  assumes "sched_del_timer (step_time a) s = (Inr (), s1)"
  shows "\<exists>od lg. stepper_stop c a s = stepper_free_moves a
    ((set_sp a (stopped_stepper c) (set_wake (step_time a) 0 s1))\<lparr>gpio_odr := od, gpio_log := lg\<rparr>)"
  using assms
  by (simp add: stepper_stop_def run_simps gpio_out_write_def set_sp_def set_wake_def stopped_stepper_def get_position_next_step)
    blast

text \<open>
  The steppers at the addresses \<open>A\<close> and the pool: the free list and the queues are disjoint.
\<close>

definition stepper_pool :: "nat set \<Rightarrow> 's steppers_scheme \<Rightarrow> (nat \<Rightarrow> nat list) \<Rightarrow> nat list \<Rightarrow> bool" where
  "stepper_pool A s Q F \<longleftrightarrow> free_nodes s F \<and> (\<forall>a\<in>A. queue_nodes s (sp_mq (steppers s a)) (Q a)
     \<and> set (Q a) \<inter> set F = {} \<and> (\<forall>b\<in>A. a \<noteq> b \<longrightarrow> set (Q a) \<inter> set (Q b) = {}))"

definition stepper_inv :: "u32 \<Rightarrow> nat set \<Rightarrow> 's steppers_scheme \<Rightarrow> bool" where
  "stepper_inv b A s \<longleftrightarrow> (\<exists>ts. timer_inv b s ts) \<and> (\<exists>Q F. stepper_pool A s Q F)"

definition is_stopped :: "nat \<Rightarrow> 's steppers_scheme \<Rightarrow> bool" where
  "is_stopped a s \<longleftrightarrow> sp_count (steppers s a) = 0 \<and> move_queue_empty (sp_mq (steppers s a))
     \<and> sp_flags (steppers s a) AND SF_NEED_RESET \<noteq> 0 \<and> step_time a \<notin> scheduled s"

lemma stopped_stepper_sel [simp]:
  "sp_count (stopped_stepper c sp) = 0" "sp_mq (stopped_stepper c sp) = sp_mq sp"
  "sp_flags (stopped_stepper c sp) AND SF_NEED_RESET = SF_NEED_RESET"
  "sp_position (stopped_stepper c sp) = - stepper_get_position c sp"
  by (simp_all add: stopped_stepper_def or_flag)

lemma stepper_stop_ok:
  assumes ti: "timer_inv b s ts" and po: "stepper_pool A s Q F" and a: "a \<in> A"
  shows "\<exists>s' ts' mq. stepper_stop c a s = (Inr (), s') \<and> timer_inv b s' ts'
    \<and> stepper_pool A s' (Q(a := [])) (rev (Q a) @ F)
    \<and> steppers s' = (steppers s)(a := (stopped_stepper c (steppers s a))\<lparr>sp_mq := mq\<rparr>) \<and> move_queue_empty mq
    \<and> scheduled s' = scheduled s - {step_time a} \<and> trsyncs s' = trsyncs s \<and> tsignals s' = tsignals s"
proof -
  have ut: "user_timer (step_time a)" by (simp add: user_timer_def)
  obtain s1 ts1 where d: "sched_del_timer (step_time a) s = (Inr (), s1)" "timer_inv b s1 ts1"
      "pending ts1 = removeAll (step_time a) (pending ts)"
    by (rule del_timer_inv [OF ti ut])
  have "step_time a \<notin> set (pending ts1)" unfolding d(3) by simp
  then have nt: "step_time a \<notin> set ts1" by (simp add: pending_def)
  obtain T l i where s1: "s1 = s\<lparr>timers := T, timer_list := l, last_insert := i\<rparr>"
    using del_timer_shape [OF d(1)] by blast
  obtain od lg where stop: "stepper_stop c a s = stepper_free_moves a
      ((set_sp a (stopped_stepper c) (set_wake (step_time a) 0 s1))\<lparr>gpio_odr := od, gpio_log := lg\<rparr>)"
    using stepper_stop_tail [OF d(1)] by blast
  define s2 where "s2 = (set_sp a (stopped_stepper c) (set_wake (step_time a) 0 s1))\<lparr>gpio_odr := od, gpio_log := lg\<rparr>"
  have f2: "mnext s2 = mnext s" "move_free_list s2 = move_free_list s" "trsyncs s2 = trsyncs s" "tsignals s2 = tsignals s"
      "steppers s2 = (steppers s)(a := stopped_stepper c (steppers s a))"
    by (simp_all add: s2_def s1 set_sp_def set_wake_def)
  have pa: "free_nodes s F" "queue_nodes s (sp_mq (steppers s a)) (Q a)" "set (Q a) \<inter> set F = {}"
    using po a by (simp_all add: stepper_pool_def)
  have q2: "queue_nodes s2 (sp_mq (steppers s2 a)) (Q a)" "free_nodes s2 F"
    using pa f2 by (simp_all add: queue_nodes_def free_nodes_def)
  obtain h fl mq where "let s' = set_sp a (\<lambda>sp. sp\<lparr>sp_mq := mq\<rparr>) (s2\<lparr>mnext := h, move_free_list := fl\<rparr>)
     in stepper_free_moves a s2 = (Inr (), s') \<and> move_queue_empty mq \<and> free_nodes s' (rev (Q a) @ F)
      \<and> (\<forall>p. p \<notin> set (Q a) \<longrightarrow> h p = mnext s2 p)"
    using stepper_free_moves_run [OF q2 pa(3)] by blast
  moreover define s3 where "s3 = set_sp a (\<lambda>sp. sp\<lparr>sp_mq := mq\<rparr>) (s2\<lparr>mnext := h, move_free_list := fl\<rparr>)"
  ultimately have r: "stepper_stop c a s = (Inr (), s3)" "move_queue_empty mq" "free_nodes s3 (rev (Q a) @ F)"
      "\<forall>p. p \<notin> set (Q a) \<longrightarrow> h p = mnext s p"
    by (simp_all add: Let_def stop s2_def [symmetric] f2)
  have f3: "mnext s3 = h" "trsyncs s3 = trsyncs s" "tsignals s3 = tsignals s"
      "steppers s3 = (steppers s)(a := (stopped_stepper c (steppers s a))\<lparr>sp_mq := mq\<rparr>)"
    by (simp_all add: s3_def f2)
  have t3: "timers s3 = timers (set_wake (step_time a) 0 s1)" "timer_list s3 = timer_list s1" "last_insert s3 = last_insert s1"
    by (simp_all add: s3_def s2_def set_wake_def)
  have i3: "timer_inv b s3 ts1"
    using timer_inv_set_wake [OF d(2) ut nt, of 0] t3 timer_inv_cong [of s3 "set_wake (step_time a) 0 s1"] by simp
  have "stepper_pool A s3 (Q(a := [])) (rev (Q a) @ F)"
    unfolding stepper_pool_def
  proof (intro conjI ballI impI)
    fix x y assume x: "x \<in> A"
    show "queue_nodes s3 (sp_mq (steppers s3 x)) ((Q(a := [])) x)"
    proof (cases "x = a")
      case True
      then show ?thesis using r(2) by (simp add: queue_nodes_def f3 move_queue_empty_def)
    next
      case False
      then have "set (Q x) \<inter> set (Q a) = {}" "queue_nodes s (sp_mq (steppers s x)) (Q x)"
        using po a x by (auto simp: stepper_pool_def)
      moreover from this have "lseg h (mq_first (sp_mq (steppers s x))) (Q x) None
          = lseg (mnext s) (mq_first (sp_mq (steppers s x))) (Q x) None"
        using r(4) by (intro lseg_cong) auto
      ultimately show ?thesis using False by (simp add: queue_nodes_def f3)
    qed
    show "set ((Q(a := [])) x) \<inter> set (rev (Q a) @ F) = {}" using po a x by (auto simp: stepper_pool_def)
    assume "y \<in> A" "x \<noteq> y"
    then show "set ((Q(a := [])) x) \<inter> set ((Q(a := [])) y) = {}" using po x by (simp add: stepper_pool_def)
  qed (rule r(3))
  moreover have "scheduled s3 = scheduled s - {step_time a}"
  proof -
    have "tchain s ts" "tchain s3 ts1" using ti i3 by (simp_all add: timer_inv_def)
    then show ?thesis using d(3) by (auto simp: scheduled_pending)
  qed
  ultimately show ?thesis using r(1,2) i3 f3 by blast
qed

interpretation stepper_signals: signal_handler "stepper_inv b A" "\<lambda>a. a \<in> A" is_stopped "signal_call c" for b A c
proof
  fix s :: "'a steppers_scheme" and a f r
  assume i: "stepper_inv b A s" and a: "a \<in> A"
  obtain ts Q F where tp: "timer_inv b s ts" "stepper_pool A s Q F" using i by (auto simp: stepper_inv_def)
  obtain s' ts' mq where s': "stepper_stop c a s = (Inr (), s')" "timer_inv b s' ts'"
      "stepper_pool A s' (Q(a := [])) (rev (Q a) @ F)"
      "steppers s' = (steppers s)(a := (stopped_stepper c (steppers s a))\<lparr>sp_mq := mq\<rparr>)" "move_queue_empty mq"
      "scheduled s' = scheduled s - {step_time a}" "trsyncs s' = trsyncs s" "tsignals s' = tsignals s"
    using stepper_stop_ok [OF tp a] by blast
  have nz: "SF_NEED_RESET \<noteq> 0" by (simp add: SF_NEED_RESET_def)
  have "is_stopped a s'" using s'(4-6) nz by (simp add: is_stopped_def)
  moreover have "\<forall>x. is_stopped x s \<longrightarrow> is_stopped x s'" using s'(4-6) nz by (simp add: is_stopped_def)
  moreover have "stepper_inv b A s'" using s'(2,3) by (auto simp: stepper_inv_def)
  ultimately show "\<exists>s'. signal_call c f a r s = (Inr (), s') \<and> stepper_inv b A s' \<and> is_stopped a s'
      \<and> (\<forall>b. is_stopped b s \<longrightarrow> is_stopped b s') \<and> trsyncs s' = trsyncs s \<and> tsignals s' = tsignals s"
    using s'(1,7,8) by (cases f) (simp add: signal_call_def)
qed (simp_all add: stepper_inv_def stepper_pool_def is_stopped_def queue_nodes_def free_nodes_def
    timer_inv_def tchain_def torder_def scheduled_def)

section \<open>Stepping\<close>

text \<open>Running the event of a timer a number of times, as long as it asks to be rescheduled.\<close>

fun run_events :: "('s, sf) cmd \<Rightarrow> nat \<Rightarrow> ('s, unit) cmd" where
  "run_events ev 0 = ret ()"
| "run_events ev (Suc n) = mbind ev (\<lambda>r. if r = SF_DONE then fail (Fault ''done'') else run_events ev n)"

lemma run_events_add: "run_events ev (m + n) s = mseq (run_events ev m) (run_events ev n) s"
  by (induction m arbitrary: s) (auto simp: run_simps split: prod.splits sum.splits)

text \<open>The time of the \<open>k\<close>-th step of a move after its first one, for an interval and its increment.\<close>

definition step_offset :: "u32 \<Rightarrow> u16 \<Rightarrow> nat \<Rightarrow> u32" where
  "step_offset interval add k = of_nat k * interval + of_nat (k * (k - 1) div 2) * scast add"

lemma step_offset_Suc: "step_offset i a (Suc k) = step_offset i a k + (i + of_nat k * scast a)"
proof -
  have "Suc k * (Suc k - 1) div 2 = k * (k - 1) div 2 + k"
    by (cases k) (simp_all add: algebra_simps)
  then show ?thesis by (simp add: step_offset_def algebra_simps)
qed

text \<open>An event of the regular step function in the middle of a move: a step, or an unstep that times the next step.\<close>

lemma full_step:
  assumes "sp_count (steppers s a) = x + 1" "x \<noteq> 0"
  shows "\<exists>s'. stepper_event_full c a s = (Inr SF_RESCHEDULE, s')
    \<and> gpio_log s' = gpio_log s @ [(sp_step_pin (steppers s a), \<not> gpio_odr s (sp_step_pin (steppers s a)))]
    \<and> gpio_odr s' = (gpio_odr s)(sp_step_pin (steppers s a) := \<not> gpio_odr s (sp_step_pin (steppers s a)))
    \<and> steppers s' = (steppers s)(a := (let sp = steppers s a in
        if odd x then sp\<lparr>sp_count := x\<rparr>
        else sp\<lparr>sp_count := x, sp_next_step_time := sp_next_step_time sp + sp_interval sp,
               sp_interval := add16 (sp_interval sp) (sp_add sp)\<rparr>))"
  using assms
  by (cases "odd x")
    (simp_all add: stepper_event_full_def run_simps gpio_out_toggle_noirq_def set_sp_def set_wake_def
      reschedule_min_def and_one_eq mod_2_eq_odd Let_def)

lemma full_step_pair:
  assumes "sp_count (steppers s a) = 2 * of_nat (Suc n)" "0 < n" "n < 2 ^ 16"
  shows "\<exists>s'. run_events (stepper_event_full c a) 2 s = (Inr (), s') \<and> gpio_odr s' = gpio_odr s
    \<and> gpio_log s' = gpio_log s @ [(sp_step_pin (steppers s a), \<not> gpio_odr s (sp_step_pin (steppers s a))),
         (sp_step_pin (steppers s a), gpio_odr s (sp_step_pin (steppers s a)))]
    \<and> steppers s' = (steppers s)(a := (let sp = steppers s a in sp\<lparr>sp_count := 2 * of_nat n,
        sp_next_step_time := sp_next_step_time sp + sp_interval sp, sp_interval := add16 (sp_interval sp) (sp_add sp)\<rparr>))"
proof -
  let ?sp = "steppers s a"
  have n: "(2 * of_nat n :: u32) \<noteq> 0"
  proof -
    have "(of_nat (2 * n) :: u32) \<noteq> 0"
      using assms(2,3) by (simp add: word_of_nat_eq_0_iff nat_dvd_not_less del: of_nat_mult)
    then show ?thesis by simp
  qed
  have n1: "(2 * of_nat n + 1 :: u32) \<noteq> 0"
    using odd_one by (metis even_mult_iff even_numeral even_plus_one_iff even_zero)
  have c1: "sp_count ?sp = (2 * of_nat n + 1) + 1" using assms(1) by (simp add: algebra_simps)
  obtain s1 where s1: "stepper_event_full c a s = (Inr SF_RESCHEDULE, s1)"
     "gpio_log s1 = gpio_log s @ [(sp_step_pin ?sp, \<not> gpio_odr s (sp_step_pin ?sp))]"
     "gpio_odr s1 = (gpio_odr s)(sp_step_pin ?sp := \<not> gpio_odr s (sp_step_pin ?sp))"
     "steppers s1 = (steppers s)(a := ?sp\<lparr>sp_count := 2 * of_nat n + 1\<rparr>)"
    using full_step [OF c1 n1, of c] by (auto simp: Let_def)
  let ?sp1 = "steppers s1 a"
  have c2: "sp_count ?sp1 = 2 * of_nat n + 1" by (simp add: s1)
  obtain s2 where s2: "stepper_event_full c a s1 = (Inr SF_RESCHEDULE, s2)"
     "gpio_log s2 = gpio_log s1 @ [(sp_step_pin ?sp1, \<not> gpio_odr s1 (sp_step_pin ?sp1))]"
     "gpio_odr s2 = (gpio_odr s1)(sp_step_pin ?sp1 := \<not> gpio_odr s1 (sp_step_pin ?sp1))"
     "steppers s2 = (steppers s1)(a := ?sp1\<lparr>sp_count := 2 * of_nat n, sp_next_step_time := sp_next_step_time ?sp1 + sp_interval ?sp1,
               sp_interval := add16 (sp_interval ?sp1) (sp_add ?sp1)\<rparr>)"
    using full_step [OF c2 n, of c] by (auto simp: Let_def)
  have "run_events (stepper_event_full c a) 2 s = (Inr (), s2)"
    using s1(1) s2(1) by (simp add: numeral_2_eq_2 run_simps)
  then show ?thesis using s1 s2 by (auto simp: Let_def)
qed

text \<open>The regular step function makes one pulse per step and times the steps of a move quadratically.\<close>

lemma full_steps:
  assumes "sp_count (steppers s a) = 2 * of_nat n" "k < n" "n < 2 ^ 16"
  shows "\<exists>s'. run_events (stepper_event_full c a) (2 * k) s = (Inr (), s') \<and> gpio_odr s' = gpio_odr s
    \<and> gpio_log s' = gpio_log s @ concat (replicate k [(sp_step_pin (steppers s a), \<not> gpio_odr s (sp_step_pin (steppers s a))),
         (sp_step_pin (steppers s a), gpio_odr s (sp_step_pin (steppers s a)))])
    \<and> steppers s' = (steppers s)(a := (let sp = steppers s a in sp\<lparr>sp_count := 2 * of_nat (n - k),
        sp_next_step_time := sp_next_step_time sp + step_offset (sp_interval sp) (sp_add sp) k,
        sp_interval := sp_interval sp + of_nat k * scast (sp_add sp)\<rparr>))"
  using assms
proof (induction k)
  case 0
  then have "steppers s a\<lparr>sp_count := 2 * of_nat n\<rparr> = steppers s a" by (cases "steppers s a") simp
  then show ?case by (simp add: step_offset_def Let_def)
next
  case (Suc k)
  let ?sp = "steppers s a"
  obtain s1 where s1: "run_events (stepper_event_full c a) (2 * k) s = (Inr (), s1)" "gpio_odr s1 = gpio_odr s"
     "gpio_log s1 = gpio_log s @ concat (replicate k [(sp_step_pin ?sp, \<not> gpio_odr s (sp_step_pin ?sp)),
         (sp_step_pin ?sp, gpio_odr s (sp_step_pin ?sp))])"
     "steppers s1 = (steppers s)(a := ?sp\<lparr>sp_count := 2 * of_nat (n - k),
        sp_next_step_time := sp_next_step_time ?sp + step_offset (sp_interval ?sp) (sp_add ?sp) k,
        sp_interval := sp_interval ?sp + of_nat k * scast (sp_add ?sp)\<rparr>)"
    using Suc.IH [unfolded Let_def] Suc.prems Suc_lessD by blast
  have c: "sp_count (steppers s1 a) = 2 * of_nat (Suc (n - Suc k))" "0 < n - Suc k" "n - Suc k < 2 ^ 16"
    using Suc.prems by (auto simp: s1 Suc_diff_Suc simp del: of_nat_Suc)
  obtain s2 where s2: "run_events (stepper_event_full c a) 2 s1 = (Inr (), s2)" "gpio_odr s2 = gpio_odr s1"
     "gpio_log s2 = gpio_log s1 @ [(sp_step_pin ?sp, \<not> gpio_odr s (sp_step_pin ?sp)), (sp_step_pin ?sp, gpio_odr s (sp_step_pin ?sp))]"
     "steppers s2 = (steppers s1)(a := (steppers s1 a)\<lparr>sp_count := 2 * of_nat (n - Suc k),
        sp_next_step_time := sp_next_step_time (steppers s1 a) + sp_interval (steppers s1 a),
        sp_interval := add16 (sp_interval (steppers s1 a)) (sp_add (steppers s1 a))\<rparr>)"
    using full_step_pair [OF c, of c] by (auto simp: Let_def s1(2,4))
  have run: "run_events (stepper_event_full c a) (2 * Suc k) s = (Inr (), s2)"
    using run_events_add [of "stepper_event_full c a" "2 * k" 2 s] s1(1) s2(1) by (simp add: run_simps)
  have conc: "concat (replicate (Suc k) x) = concat (replicate k x) @ x" for x :: "(u32 \<times> bool) list"
    by (induction k) simp_all
  have log: "gpio_log s2 = gpio_log s @ concat (replicate (Suc k) [(sp_step_pin ?sp, \<not> gpio_odr s (sp_step_pin ?sp)),
         (sp_step_pin ?sp, gpio_odr s (sp_step_pin ?sp))])"
    by (simp only: s2(3) s1(3) conc append_assoc)
  have st: "steppers s2 = (steppers s)(a := ?sp\<lparr>sp_count := 2 * of_nat (n - Suc k),
        sp_next_step_time := sp_next_step_time ?sp + step_offset (sp_interval ?sp) (sp_add ?sp) (Suc k),
        sp_interval := sp_interval ?sp + of_nat (Suc k) * scast (sp_add ?sp)\<rparr>)"
    by (simp add: s2(4) s1(4) step_offset_Suc add16_def algebra_simps)
  show ?case unfolding Let_def using run log st s1(2) s2(2) by auto
qed

text \<open>Loading a move for the regular step function.\<close>

definition loaded_stepper :: "stepper_move \<Rightarrow> stepper_s \<Rightarrow> stepper_s" where
  "loaded_stepper m sp = sp\<lparr>sp_add := m_add m, sp_interval := add16 (m_interval m) (m_add m),
     sp_next_step_time := sp_next_step_time sp + m_interval m, sp_count := ucast (m_count m) * 2,
     sp_position := (if m_flags m AND MF_DIR \<noteq> 0 then - sp_position sp else sp_position sp) + ucast (m_count m)\<rparr>"

lemma single_sched_upd [simp]:
  "single_sched c (sp\<lparr>sp_add := v, sp_interval := u\<rparr>) = single_sched c sp"
  "single_sched c (sp\<lparr>sp_mq := mq\<rparr>) = single_sched c sp"
  by (simp_all add: single_sched_def)

lemma load_move_full:
  assumes "\<not> single_sched c (steppers s a)"
  shows "stepper_load_move c a m s = (if m_flags m AND MF_DIR \<noteq> 0 then gpio_out_toggle_noirq (sp_dir_pin (steppers s a)) else ret ())
     (set_sp a (loaded_stepper m) (set_wake (step_time a) (sp_next_step_time (steppers s a) + m_interval m) s))"
  using assms
  by (simp add: stepper_load_move_def run_simps set_sp_def set_wake_def loaded_stepper_def)

lemma load_next_full:
  assumes "queue_nodes s (sp_mq (steppers s a)) (n # q)" "\<not> single_sched c (steppers s a)"
    and "sp_dir_pin (steppers s a) \<noteq> sp_step_pin (steppers s a)"
  obtains s' mq where "stepper_load_next c a s = (Inr SF_RESCHEDULE, s')"
    "gpio_odr s' (sp_step_pin (steppers s a)) = gpio_odr s (sp_step_pin (steppers s a))"
    "gpio_log s' = gpio_log s @ (if m_flags (moves s n) AND MF_DIR \<noteq> 0
       then [(sp_dir_pin (steppers s a), \<not> gpio_odr s (sp_dir_pin (steppers s a)))] else [])"
    "steppers s' = (steppers s)(a := loaded_stepper (moves s n) ((steppers s a)\<lparr>sp_mq := mq\<rparr>))"
    "move_queue_empty mq \<longleftrightarrow> q = []"
proof -
  let ?mq = "(sp_mq (steppers s a))\<lparr>mq_first := mnext s n\<rparr>"
  let ?s = "set_sp a (\<lambda>sp. sp\<lparr>sp_mq := ?mq\<rparr>) s"
  have 1: "\<not> move_queue_empty (sp_mq (steppers s a))" using queue_nodes_empty [OF assms(1)] by simp
  have ns: "\<not> single_sched c (steppers ?s a)" using assms(2) by simp
  define s1 where "s1 = set_sp a (loaded_stepper (moves s n)) (set_wake (step_time a) (sp_next_step_time (steppers s a) + m_interval (moves s n)) ?s)"
  define s2 where "s2 = snd ((if m_flags (moves s n) AND MF_DIR \<noteq> 0 then gpio_out_toggle_noirq (sp_dir_pin (steppers s a)) else ret ()) s1)"
  have "stepper_load_next c a s = (Inr SF_RESCHEDULE, snd (move_free n s2))"
    unfolding s1_def s2_def using 1
    by (simp add: stepper_load_next_def run_simps move_queue_pop_run(1) [OF assms(1)]
        load_move_full [OF ns] move_free_run gpio_out_toggle_noirq_def)
  moreover have "steppers s1 = (steppers s)(a := loaded_stepper (moves s n) ((steppers s a)\<lparr>sp_mq := ?mq\<rparr>))"
    "gpio_odr s1 = gpio_odr s" "gpio_log s1 = gpio_log s"
    by (simp_all add: s1_def set_wake_def set_sp_def)
  moreover have "move_queue_empty ?mq \<longleftrightarrow> q = []"
    using queue_nodes_empty [OF move_queue_pop_run(2) [OF assms(1)]] .
  ultimately show thesis using assms(3)
    by (intro that [of "snd (move_free n s2)" ?mq])
      (auto simp: s2_def move_free_run gpio_out_toggle_noirq_def set_mnext_def)
qed

lemma loaded_stepper_sel [simp]:
  "sp_step_pin (loaded_stepper m sp) = sp_step_pin sp" "sp_dir_pin (loaded_stepper m sp) = sp_dir_pin sp"
  "sp_mq (loaded_stepper m sp) = sp_mq sp" "sp_flags (loaded_stepper m sp) = sp_flags sp"
  "sp_add (loaded_stepper m sp) = m_add m" "sp_interval (loaded_stepper m sp) = add16 (m_interval m) (m_add m)"
  "sp_next_step_time (loaded_stepper m sp) = sp_next_step_time sp + m_interval m"
  "sp_count (loaded_stepper m sp) = ucast (m_count m) * 2"
  by (simp_all add: loaded_stepper_def)

lemma step_offset_loaded: "i + step_offset (add16 i a) a k = step_offset i a (Suc k)"
proof -
  have "Suc k * (Suc k - 1) div 2 = k * (k - 1) div 2 + k"
    by (cases k) (simp_all add: algebra_simps)
  then show ?thesis by (simp add: step_offset_def add16_def algebra_simps)
qed

lemma half_count: "k \<le> 2 ^ 16 \<Longrightarrow> (2 * of_nat k :: u32) div 2 = of_nat k"
proof -
  assume k: "k \<le> 2 ^ 16"
  have "int (2 * k) div 2 = int k" by simp
  then have "(of_nat (2 * k) :: u32) div of_nat 2 = of_nat k"
    using k by (subst word_div_def) (simp add: unsigned_of_nat take_bit_nat_eq_self del: of_nat_mult)
  then show ?thesis by simp
qed

text \<open>Loading a move and running the regular step function \<open>2 k\<close> times.\<close>

lemma move_steps:
  assumes q: "queue_nodes s (sp_mq (steppers s a)) (n # q)" "\<not> single_sched c (steppers s a)"
    and d: "sp_dir_pin (steppers s a) \<noteq> sp_step_pin (steppers s a)" and k: "k < unat (m_count (moves s n))"
  shows "\<exists>s' mq. let sp = steppers s a; m = moves s n; p = sp_step_pin sp; cnt = unat (m_count m) in
    mseq (stepper_load_next c a) (run_events (stepper_event_full c a) (2 * k)) s = (Inr (), s')
    \<and> gpio_odr s' p = gpio_odr s p
    \<and> gpio_log s' = gpio_log s @ (if m_flags m AND MF_DIR \<noteq> 0 then [(sp_dir_pin sp, \<not> gpio_odr s (sp_dir_pin sp))] else [])
        @ concat (replicate k [(p, \<not> gpio_odr s p), (p, gpio_odr s p)])
    \<and> steppers s' = (steppers s)(a := (loaded_stepper m (sp\<lparr>sp_mq := mq\<rparr>))\<lparr>sp_count := 2 * of_nat (cnt - k),
        sp_next_step_time := sp_next_step_time sp + step_offset (m_interval m) (m_add m) (Suc k),
        sp_interval := add16 (m_interval m) (m_add m) + of_nat k * scast (m_add m)\<rparr>)
    \<and> (move_queue_empty mq \<longleftrightarrow> q = [])"
proof -
  let ?sp = "steppers s a" and ?m = "moves s n" and ?p = "sp_step_pin (steppers s a)"
  let ?cnt = "unat (m_count (moves s n))"
  obtain s1 mq where s1: "stepper_load_next c a s = (Inr SF_RESCHEDULE, s1)" "gpio_odr s1 ?p = gpio_odr s ?p"
      "gpio_log s1 = gpio_log s @ (if m_flags ?m AND MF_DIR \<noteq> 0 then [(sp_dir_pin ?sp, \<not> gpio_odr s (sp_dir_pin ?sp))] else [])"
      "steppers s1 = (steppers s)(a := loaded_stepper ?m (?sp\<lparr>sp_mq := mq\<rparr>))" "move_queue_empty mq \<longleftrightarrow> q = []"
    by (rule load_next_full [OF q d])
  have c: "sp_count (steppers s1 a) = 2 * of_nat ?cnt" by (simp add: s1(4))
  have "?cnt < 2 ^ 16" using unsigned_less [of "m_count ?m", where 'a = nat] by simp
  then obtain s2 where s2: "run_events (stepper_event_full c a) (2 * k) s1 = (Inr (), s2)" "gpio_odr s2 = gpio_odr s1"
      "gpio_log s2 = gpio_log s1 @ concat (replicate k [(sp_step_pin (steppers s1 a), \<not> gpio_odr s1 (sp_step_pin (steppers s1 a))),
         (sp_step_pin (steppers s1 a), gpio_odr s1 (sp_step_pin (steppers s1 a)))])"
      "steppers s2 = (steppers s1)(a := (steppers s1 a)\<lparr>sp_count := 2 * of_nat (?cnt - k),
        sp_next_step_time := sp_next_step_time (steppers s1 a) + step_offset (sp_interval (steppers s1 a)) (sp_add (steppers s1 a)) k,
        sp_interval := sp_interval (steppers s1 a) + of_nat k * scast (sp_add (steppers s1 a))\<rparr>)"
    using full_steps [OF c k, of c] unfolding Let_def by blast
  have "mseq (stepper_load_next c a) (run_events (stepper_event_full c a) (2 * k)) s = (Inr (), s2)"
    by (simp add: run_simps s1(1) s2(1))
  moreover have "steppers s2 = (steppers s)(a := (loaded_stepper ?m (?sp\<lparr>sp_mq := mq\<rparr>))\<lparr>sp_count := 2 * of_nat (?cnt - k),
        sp_next_step_time := sp_next_step_time ?sp + step_offset (m_interval ?m) (m_add ?m) (Suc k),
        sp_interval := add16 (m_interval ?m) (m_add ?m) + of_nat k * scast (m_add ?m)\<rparr>)"
    by (simp add: s2(4) s1(4) add.assoc step_offset_loaded)
  moreover have "gpio_log s2 = gpio_log s @ (if m_flags ?m AND MF_DIR \<noteq> 0 then [(sp_dir_pin ?sp, \<not> gpio_odr s (sp_dir_pin ?sp))] else [])
        @ concat (replicate k [(?p, \<not> gpio_odr s ?p), (?p, gpio_odr s ?p)])"
    using s2(3) s1(2-4) by simp
  ultimately show ?thesis unfolding Let_def using s1(2,5) s2(2) by metis
qed

text \<open>The steppers before any of them is configured.\<close>

definition steppers_static :: steppers where
  "steppers_static = trs.extend trs_static \<lparr>steppers = (\<lambda>_. zero_stepper),
     moves = (\<lambda>_. \<lparr>m_interval = 0, m_add = 0, m_count = 0, m_flags = 0\<rparr>)\<rparr>"

lemmas steppers_static_simps = trs_static_simps steppers_static_def trs.extend_def

section \<open>Properties\<close>


definition example_stepper :: steppers where
  "example_stepper = steppers_static\<lparr>steppers := (\<lambda>_. zero_stepper)(5000 := zero_stepper\<lparr>sp_step_pin := 1, sp_dir_pin := 2,
        sp_next_step_time := 7000, sp_position := - 50, sp_mq := \<lparr>mq_first = Some 6000, mq_last = Some 6000\<rparr>\<rparr>),
      moves := (\<lambda>_. \<lparr>m_interval = 1000, m_add = - 10, m_count = 3, m_flags = MF_DIR\<rparr>)\<rparr>"

definition full_config :: step_config where
  "full_config = \<lparr>edge = False, avr = False, hack = False\<rparr>"

lemma example_stepper_ready:
  "queue_nodes example_stepper (sp_mq (steppers example_stepper 5000)) (6000 # [])"
  "\<not> single_sched full_config (steppers example_stepper 5000)"
  "sp_dir_pin (steppers example_stepper 5000) \<noteq> sp_step_pin (steppers example_stepper 5000)"
  "2 < unat (m_count (moves example_stepper 6000))"
  by (simp_all add: example_stepper_def queue_nodes_def steppers_static_simps single_sched_def HAVE_SINGLE_SCHEDULE_def
      full_config_def)


text \<open>
  C15: A queued move ends: after the last of its \<open>2 count\<close> events, with nothing more queued, the regular step
  function has made exactly \<open>count\<close> pulses and asks not to be called again.\<close>

theorem stepper_move_completes:
  assumes "queue_nodes s (sp_mq (steppers s a)) [n]" "\<not> single_sched c (steppers s a)"
    and "sp_dir_pin (steppers s a) \<noteq> sp_step_pin (steppers s a)" and "0 < m_count (moves s n)"
  shows "\<exists>s'. let sp = steppers s a; m = moves s n; p = sp_step_pin sp; cnt = unat (m_count m) in
    mseq (stepper_load_next c a) (mseq (run_events (stepper_event_full c a) (2 * cnt - 1)) (stepper_event_full c a)) s
      = (Inr SF_DONE, s')
    \<and> gpio_log s' = gpio_log s
        @ (if m_flags m AND MF_DIR \<noteq> 0 then [(sp_dir_pin sp, \<not> gpio_odr s (sp_dir_pin sp))] else [])
        @ concat (replicate cnt [(p, \<not> gpio_odr s p), (p, gpio_odr s p)])
    \<and> sp_count (steppers s' a) = 0 \<and> move_queue_empty (sp_mq (steppers s' a))"
proof -
  let ?sp = "steppers s a" and ?m = "moves s n" and ?p = "sp_step_pin (steppers s a)" and ?ev = "stepper_event_full c a"
  obtain k where k: "unat (m_count ?m) = Suc k" using assms(4) by (cases "unat (m_count ?m)") (auto simp: unat_eq_0 word_neq_0_conv)
  obtain s1 mq where s1: "mseq (stepper_load_next c a) (run_events ?ev (2 * k)) s = (Inr (), s1)"
      "gpio_odr s1 ?p = gpio_odr s ?p"
      "gpio_log s1 = gpio_log s @ (if m_flags ?m AND MF_DIR \<noteq> 0 then [(sp_dir_pin ?sp, \<not> gpio_odr s (sp_dir_pin ?sp))] else [])
        @ concat (replicate k [(?p, \<not> gpio_odr s ?p), (?p, gpio_odr s ?p)])"
      "sp_count (steppers s1 a) = 1 + 1" "sp_mq (steppers s1 a) = mq" "sp_step_pin (steppers s1 a) = ?p" "move_queue_empty mq"
    using move_steps [OF assms(1-3), of k] k by (auto simp: Let_def)
  obtain s2 where s2: "?ev s1 = (Inr SF_RESCHEDULE, s2)" "gpio_log s2 = gpio_log s1 @ [(?p, \<not> gpio_odr s ?p)]"
      "gpio_odr s2 ?p = (\<not> gpio_odr s ?p)" "sp_count (steppers s2 a) = 1" "sp_mq (steppers s2 a) = mq" "sp_step_pin (steppers s2 a) = ?p"
    using full_step [OF s1(4), of c] s1(2,5,6) by (auto simp: Let_def)
  obtain s3 where s3: "?ev s2 = (Inr SF_DONE, s3)" "gpio_log s3 = gpio_log s2 @ [(?p, gpio_odr s ?p)]"
      "sp_count (steppers s3 a) = 0" "move_queue_empty (sp_mq (steppers s3 a))"
    using s2(3-6) s1(7)
    by (simp add: stepper_event_full_def run_simps gpio_out_toggle_noirq_def set_sp_def stepper_load_next_def)
  have e: "2 * unat (m_count ?m) - 1 = 2 * k + 1" "Suc k = k + 1" using k by simp_all
  have c: "concat (replicate (Suc k) x) = concat (replicate k x) @ x" for x :: "(u32 \<times> bool) list"
    by (induction k) simp_all
  obtain t u where t: "stepper_load_next c a s = (Inr t, u)" "run_events ?ev (2 * k) u = (Inr (), s1)"
    using s1(1) by (auto simp: run_simps split: sum.splits prod.splits)
  have "mseq (run_events ?ev (2 * k + 1)) ?ev u = (Inr SF_DONE, s3)"
    using run_events_add [of ?ev "2 * k" 1 u] t(2) s2(1) s3(1) by (simp add: run_simps)
  then have "mseq (stepper_load_next c a) (mseq (run_events ?ev (2 * unat (m_count ?m) - 1)) ?ev) s = (Inr SF_DONE, s3)"
    unfolding e(1) by (simp add: mseq_Inr [of "stepper_load_next c a" s t u, OF t(1)] del: run_events.simps)
  then show ?thesis unfolding Let_def k c using s3 s2(2) s1(3) k by (intro exI [of _ s3]) simp
qed

theorem stepper_move_completes_witness:
  "\<exists>s'. mseq (stepper_load_next full_config 5000) (mseq (run_events (stepper_event_full full_config 5000) 5)
      (stepper_event_full full_config 5000)) example_stepper = (Inr SF_DONE, s')
    \<and> gpio_log s' = [(2, True), (1, True), (1, False), (1, True), (1, False), (1, True), (1, False)]"
proof -
  have r: "concat (replicate 3 xs) = xs @ xs @ xs" for xs :: "(u32 \<times> bool) list" by (simp add: numeral_3_eq_3)
  have m: "0 < m_count (moves example_stepper 6000)" "unat (m_count (moves example_stepper 6000)) = 3"
    by (simp_all add: example_stepper_def)
  show ?thesis
    using stepper_move_completes [OF example_stepper_ready(1-3) m(1)] unfolding Let_def m(2)
    by (elim ex_forward) (simp add: r MF_DIR_def example_stepper_def steppers_static_simps)
qed

lemma get_position_stopped: "stepper_get_position c (stopped_stepper c sp) = stepper_get_position c sp"
proof -
  define p where "p = (if single_sched c sp then sp_position sp - sp_count sp else sp_position sp - sp_count sp div 2)"
  define q where "q = stepper_get_position c sp"
  have q: "q = (if 2 ^ 31 \<le> unat p then - p else p)"
    unfolding q_def stepper_get_position_def p_def [symmetric] Let_def sign_bit ..
  have m: "unat (- x :: u32) = (if x = 0 then 0 else 2 ^ 32 - unat x)" for x
  proof (cases "x = 0")
    case False
    have "(of_nat (2 ^ 32) :: u32) = 0" by simp
    then have "- x = of_nat (2 ^ 32 - unat x)" using unat_bounds(3) [of x] by (subst of_nat_diff) simp_all
    then show ?thesis using False unat_bounds(3) [of x] unat_gt_0 [of x]
      by (simp only: unsigned_of_nat if_False) (simp add: take_bit_nat_eq_self)
  qed simp
  have "stepper_get_position c (stopped_stepper c sp) = (if 2 ^ 31 \<le> unat (- q) then q else - q)"
  proof -
    have "sp_position (stopped_stepper c sp) - sp_count (stopped_stepper c sp) div 2 = - q"
      "sp_position (stopped_stepper c sp) - sp_count (stopped_stepper c sp) = - q" by (simp_all add: q_def)
    then show ?thesis unfolding stepper_get_position_def [of c "stopped_stepper c sp"] Let_def sign_bit by simp
  qed
  also have "\<dots> = q" using unat_bounds(3) [of p] unfolding q by (auto simp: m)
  finally show ?thesis unfolding q_def .
qed

text \<open>
  C9: Stopping a stepper keeps its position.  \<open>stepper_stop\<close> returns; the position that is reported is the one
  before; every queued move is back on the free list of the pool, whose lists stay disjoint; the step timer is no
  longer scheduled; the stepper asks for a new step clock.\<close>

theorem stepper_stop_safe:
  assumes "timer_inv b s ts" "stepper_pool A s Q F" "a \<in> A"
  shows "\<exists>s' ts'. stepper_stop c a s = (Inr (), s') \<and> timer_inv b s' ts'
    \<and> stepper_pool A s' (Q(a := [])) (rev (Q a) @ F) \<and> is_stopped a s'
    \<and> stepper_get_position c (steppers s' a) = stepper_get_position c (steppers s a)
    \<and> scheduled s' = scheduled s - {step_time a}"
proof -
  have nz: "SF_NEED_RESET \<noteq> 0" by (simp add: SF_NEED_RESET_def)
  have mq: "stepper_get_position c (sp\<lparr>sp_mq := mq\<rparr>) = stepper_get_position c sp" for sp mq
    by (simp add: stepper_get_position_def)
  obtain s' ts' mq where "stepper_stop c a s = (Inr (), s')" "timer_inv b s' ts'"
      "stepper_pool A s' (Q(a := [])) (rev (Q a) @ F)"
      "steppers s' = (steppers s)(a := (stopped_stepper c (steppers s a))\<lparr>sp_mq := mq\<rparr>)" "move_queue_empty mq"
      "scheduled s' = scheduled s - {step_time a}"
    using stepper_stop_ok [OF assms] by blast
  moreover from this(4-6) have "is_stopped a s'" by (simp add: is_stopped_def nz)
  moreover have "stepper_get_position c (steppers s' a) = stepper_get_position c (steppers s a)"
    using calculation(4) by (simp add: mq get_position_stopped)
  ultimately show ?thesis by blast
qed

lemma example_stepper_inv:
  "timer_inv 0 example_stepper [Periodic_timer, Sentinel_timer]"
  "stepper_pool {5000} example_stepper (\<lambda>_. [6000]) []"
proof -
  have "timer_inv 0 example_stepper [Periodic_timer, Sentinel_timer] = timer_inv 0 sched_static [Periodic_timer, Sentinel_timer]"
    by (simp add: timer_inv_def tchain_def torder_def example_stepper_def steppers_static_simps)
  then show "timer_inv 0 example_stepper [Periodic_timer, Sentinel_timer]" using static_inv by simp
  show "stepper_pool {5000} example_stepper (\<lambda>_. [6000]) []"
    by (simp add: stepper_pool_def free_nodes_def queue_nodes_def example_stepper_def steppers_static_simps)
qed

theorem stepper_stop_safe_witness:
  "\<exists>s'. stepper_stop full_config 5000 example_stepper = (Inr (), s') \<and> free_nodes s' [6000]
    \<and> stepper_get_position full_config (steppers s' 5000) = 50"
  using stepper_stop_safe [OF example_stepper_inv, of 5000 full_config]
  by (auto simp: stepper_pool_def stepper_get_position_def Let_def example_stepper_def zero_stepper_def)

text \<open>
  C3: A trigger stops the machine.  When an armed trigger fires, for an end stop, a timeout or a host command, it
  returns and every stepper that was registered with it is stopped: no step is left queued or scheduled and no later
  move runs before a clock reset.  Every signal is unregistered, the reason is recorded for the report, and firing
  the trigger again changes nothing.\<close>

theorem trigger_stops_steppers:
  assumes "stepper_inv b A s" "signals_of s ts xs" "set xs \<subseteq> A" "ts_flags (trsyncs s ts) AND TSF_CAN_TRIGGER \<noteq> 0"
  shows "\<exists>s'. trsync_do_trigger (signal_call c) ts r s = (Inr (), s') \<and> stepper_inv b A s'
    \<and> (\<forall>a\<in>set xs. is_stopped a s' \<and> tss_func (tsignals s' a) = None) \<and> signals_of s' ts []
    \<and> ts_trigger_reason (trsyncs s' ts) = r \<and> ts_flags (trsyncs s' ts) AND TSF_REPORT \<noteq> 0 \<and> wakes s' Trsync_wake
    \<and> (\<forall>r'. trsync_do_trigger (signal_call c) ts r' s' = (Inr (), s'))"
proof -
  have "\<forall>a\<in>set xs. a \<in> A" using assms(3) by blast
  then show ?thesis
    by (rule stepper_signals.do_trigger [OF assms(1,2) _ assms(4), of c r]) blast
qed

theorem trigger_stops_steppers_witness:
  "\<exists>s'. trsync_do_trigger (signal_call full_config) 7000 3
     (set_ts 7000 (\<lambda>t. t\<lparr>ts_signals := Some 5000, ts_flags := TSF_CAN_TRIGGER\<rparr>)
       (set_tss 5000 (\<lambda>t. t\<lparr>tss_func := Some Stepper_stop\<rparr>) example_stepper)) = (Inr (), s')
     \<and> is_stopped 5000 s' \<and> ts_trigger_reason (trsyncs s' 7000) = 3"
  (is "\<exists>s'. trsync_do_trigger _ _ _ ?s = _ \<and> _")
proof -
  have "stepper_inv 0 {5000} example_stepper" using example_stepper_inv unfolding stepper_inv_def by blast
  then have "stepper_inv 0 {5000} ?s"
    by (simp add: stepper_signals.blind_set)
  moreover have "signals_of ?s 7000 [5000]" "set [5000 :: nat] \<subseteq> {5000}" "ts_flags (trsyncs ?s 7000) AND TSF_CAN_TRIGGER \<noteq> 0"
    by (simp_all add: signals_of_def TSF_CAN_TRIGGER_def example_stepper_def steppers_static_simps)
  ultimately show ?thesis using trigger_stops_steppers [of 0 "{5000}" ?s 7000 "[5000]" full_config 3] by auto
qed

lemma stepper_lookup_run:
  assumes "oid_table s tab" "unat oid < length tab" "tab ! unat oid = \<lparr>o_type = Some Oid_stepper, o_data = Some a\<rparr>"
  shows "stepper_oid_lookup oid s = (Inr a, s)"
  using oid_lookup_hit [OF assms(1,2), of Oid_stepper] assms(3)
  by (simp add: stepper_oid_lookup_def run_simps deref_def)

text \<open>
  No stale move runs after a trigger.  While a stepper is stopped and its clock has not been reset, a valid
  \<open>queue_step\<close> is accepted and dropped: nothing is scheduled, the stepper does not change, and the node taken from
  the pool goes straight back to it.\<close>

theorem queue_step_dropped:
  assumes "oid_table s tab" "unat (ucast (args ! 0) :: u8) < length tab"
    and "tab ! unat (ucast (args ! 0) :: u8) = \<lparr>o_type = Some Oid_stepper, o_data = Some a\<rparr>"
    and "is_stopped a s" "free_nodes s (n # F)" "ucast (args ! 2) \<noteq> (0 :: u16)"
  shows "\<exists>s'. command_queue_step c args s = (Inr (), s') \<and> steppers s' = steppers s \<and> free_nodes s' (n # F)
    \<and> timers s' = timers s \<and> timer_list s' = timer_list s \<and> (\<forall>p. p \<noteq> n \<longrightarrow> mnext s' p = mnext s p)"
proof -
  let ?t = "snd (move_alloc s)"
  have al: "move_alloc s = (Inr n, s\<lparr>move_free_list := mnext s n\<rparr>)" "free_nodes (s\<lparr>move_free_list := mnext s n\<rparr>) F"
    using move_alloc_run [OF assms(5)] .
  have nn: "n \<notin> set F" using assms(5) lseg_distinct [of "mnext s" _ "n # F"] by (auto simp: free_nodes_def)
  have fl: "(x XOR SF_LAST_DIR) AND SF_NEED_RESET = x AND SF_NEED_RESET" for x
  proof -
    have "(x XOR SF_LAST_DIR) AND SF_NEED_RESET = x AND SF_NEED_RESET XOR SF_LAST_DIR AND SF_NEED_RESET"
      by (simp add: bit_eq_iff bit_simps) blast
    then show ?thesis by (simp add: stepper_flags)
  qed
  have "sp_count (steppers s a) = 0" "sp_flags (steppers s a) AND SF_NEED_RESET \<noteq> 0"
    using assms(4) by (simp_all add: is_stopped_def)
  then show ?thesis using assms(6) al(2) nn
    by (simp add: command_queue_step_def run_simps stepper_lookup_run [OF assms(1-3)] al(1) Let_def fl move_free_run
        set_move_def free_nodes_def set_mnext_def)
qed

theorem queue_step_dropped_witness:
  "\<exists>s'. command_queue_step full_config [0, 1000, 5, 0] (steppers_static\<lparr>oids := Some [\<lparr>o_type = Some Oid_stepper, o_data = Some 5000\<rparr>],
      oid_count := 1, move_free_list := Some 6000, steppers := (\<lambda>_. zero_stepper\<lparr>sp_flags := SF_NEED_RESET\<rparr>)\<rparr>) = (Inr (), s')
    \<and> free_nodes s' [6000] \<and> timer_list s' = Periodic_timer"
  (is "\<exists>s'. command_queue_step _ _ ?s = _ \<and> _")
proof -
  have "tchain ?s [Periodic_timer, Sentinel_timer]"
    using static_inv by (simp add: timer_inv_def tchain_def steppers_static_simps)
  then have "is_stopped 5000 ?s"
    by (simp add: scheduled_pending is_stopped_def pending_def zero_stepper_def SF_NEED_RESET_def move_queue_empty_def)
  then show ?thesis
    using queue_step_dropped [of ?s "[\<lparr>o_type = Some Oid_stepper, o_data = Some 5000\<rparr>]" "[0, 1000, 5, 0]" 5000 6000 "[]" full_config]
    by (auto simp: oid_table_def free_nodes_def steppers_static_simps elim!: ex_forward)
qed

end
