(* ===== verification/Endstop.thy ===== *)
theory Endstop
  imports Stepper
begin

text \<open>
  End stops, \<open>src/src/endstop.c\<close>.  The timer of an end stop is \<open>Obj_timer\<close> 0 of its address.  The
  callbacks of the signals that a trigger runs are the argument \<open>call\<close>.
\<close>

section \<open>State\<close>

record endstop_s =
  e_pin :: u32
  e_rest_time :: u32
  e_sample_time :: u32
  e_nextwake :: u32
  e_ts :: "nat option"
  e_flags :: u8
  e_sample_count :: u8
  e_trigger_count :: u8
  e_trigger_reason :: u8

record endstops = steppers +
  endstops :: "nat \<Rightarrow> endstop_s"

definition ESF_PIN_HIGH :: u8 where "ESF_PIN_HIGH = 1"
definition ESF_HOMING :: u8 where "ESF_HOMING = 2"

definition SIZEOF_endstop :: nat where "SIZEOF_endstop = 40"

definition set_es :: "nat \<Rightarrow> (endstop_s \<Rightarrow> endstop_s) \<Rightarrow> 's endstops_scheme \<Rightarrow> 's endstops_scheme" where
  "set_es a f s = s\<lparr>endstops := (endstops s)(a := f (endstops s a))\<rparr>"

definition zero_endstop :: endstop_s where
  "zero_endstop = \<lparr>e_pin = 0, e_rest_time = 0, e_sample_time = 0, e_nextwake = 0, e_ts = None, e_flags = 0,
     e_sample_count = 0, e_trigger_count = 0, e_trigger_reason = 0\<rparr>"

section \<open>Events\<close>

text \<open>The test \<open>(val ? ~flags : flags) & ESF_PIN_HIGH\<close>: the pin does not have the level looked for.\<close>

definition endstop_no_match :: "bool \<Rightarrow> u8 \<Rightarrow> bool" where
  "endstop_no_match val flags \<longleftrightarrow> (if val then NOT flags else flags) AND ESF_PIN_HIGH \<noteq> 0"

definition endstop_oversample_event ::
  "(signal_fn \<Rightarrow> nat \<Rightarrow> u8 \<Rightarrow> ('s endstops_scheme, unit) cmd) \<Rightarrow> nat \<Rightarrow> ('s endstops_scheme, sf) cmd" where
  "endstop_oversample_event call a =
     mbind (gets (\<lambda>s. endstops s a)) (\<lambda>e.
     mbind (gpio_in_read (e_pin e)) (\<lambda>val.
     if endstop_no_match val (e_flags e) then
       mseq (modify (set_func (Obj_timer a 0) (Some Endstop_event))) (
       mseq (modify (set_wake (Obj_timer a 0) (e_nextwake e))) (
       mseq (modify (set_es a (\<lambda>e. e\<lparr>e_trigger_count := e_sample_count e\<rparr>)))
       (ret SF_RESCHEDULE)))
     else
       let cnt = e_trigger_count e - 1 in
       if cnt = 0 then
         mbind (deref (e_ts e)) (\<lambda>ts.
         mseq (trsync_do_trigger call ts (e_trigger_reason e)) (ret SF_DONE))
       else
         mseq (modify (set_es a (\<lambda>e. e\<lparr>e_trigger_count := cnt\<rparr>))) (
         mseq (modify (\<lambda>s. set_wake (Obj_timer a 0) (waketime s (Obj_timer a 0) + e_sample_time e) s))
         (ret SF_RESCHEDULE))))"

definition endstop_event ::
  "(signal_fn \<Rightarrow> nat \<Rightarrow> u8 \<Rightarrow> ('s endstops_scheme, unit) cmd) \<Rightarrow> nat \<Rightarrow> ('s endstops_scheme, sf) cmd" where
  "endstop_event call a =
     mbind (gets (\<lambda>s. endstops s a)) (\<lambda>e.
     mbind (gpio_in_read (e_pin e)) (\<lambda>val.
     mbind (gets (\<lambda>s. waketime s (Obj_timer a 0) + e_rest_time e)) (\<lambda>nextwake.
     if endstop_no_match val (e_flags e) then
       mseq (modify (set_wake (Obj_timer a 0) nextwake)) (ret SF_RESCHEDULE)
     else
       mseq (modify (set_es a (\<lambda>e. e\<lparr>e_nextwake := nextwake\<rparr>))) (
       mseq (modify (set_func (Obj_timer a 0) (Some Endstop_oversample_event)))
       (endstop_oversample_event call a)))))"

section \<open>Commands\<close>

definition command_config_endstop :: "u32 list \<Rightarrow> ('s endstops_scheme, unit) cmd" where
  "command_config_endstop args = mbind (oid_alloc (ucast (args ! 0)) Oid_endstop SIZEOF_endstop) (\<lambda>a.
     mseq (modify (\<lambda>s. set_es a (\<lambda>_. zero_endstop) (zero_timer (Obj_timer a 0) s))) (
     mbind (gpio_in_setup (args ! 1) (sint (args ! 2))) (\<lambda>pin.
     modify (set_es a (\<lambda>e. e\<lparr>e_pin := pin\<rparr>)))))"

definition command_endstop_home :: "u32 list \<Rightarrow> ('s endstops_scheme, unit) cmd" where
  "command_endstop_home args =
     mbind (mbind (oid_lookup ''command_endstop_home'' (ucast (args ! 0)) Oid_endstop) deref) (\<lambda>a.
     mseq (sched_del_timer (Obj_timer a 0)) (
     mseq (modify (set_wake (Obj_timer a 0) (args ! 1))) (
     let sample_count = ucast (args ! 3) in
     mseq (modify (set_es a (\<lambda>e. e\<lparr>e_sample_time := args ! 2, e_sample_count := sample_count\<rparr>))) (
     if sample_count = 0 then modify (set_es a (\<lambda>e. e\<lparr>e_ts := None, e_flags := 0\<rparr>))
     else
       mseq (modify (set_es a (\<lambda>e. e\<lparr>e_rest_time := args ! 4\<rparr>))) (
       mseq (modify (set_func (Obj_timer a 0) (Some Endstop_event))) (
       mseq (modify (set_es a (\<lambda>e. e\<lparr>e_trigger_count := e_sample_count e,
               e_flags := ESF_HOMING OR (if args ! 5 \<noteq> 0 then ESF_PIN_HIGH else 0)\<rparr>))) (
       mbind (trsync_oid_lookup (ucast (args ! 6))) (\<lambda>ts.
       mseq (modify (set_es a (\<lambda>e. e\<lparr>e_ts := Some ts, e_trigger_reason := ucast (args ! 7)\<rparr>)))
       (sched_add_timer ''command_endstop_home'' (Obj_timer a 0))))))))))"

definition command_endstop_query_state :: "u32 list \<Rightarrow> ('s endstops_scheme, unit) cmd" where
  "command_endstop_query_state args =
     (let oid = ucast (args ! 0) in
      mbind (mbind (oid_lookup ''command_endstop_query_state'' oid Oid_endstop) deref) (\<lambda>a.
      mbind (gets (\<lambda>s. endstops s a)) (\<lambda>e.
      mbind (gpio_in_read (e_pin e)) (\<lambda>v.
      sendf ''endstop_state oid=%c homing=%c next_clock=%u pin_value=%c''
        [U (ucast oid), U (bool32 (e_flags e AND ESF_HOMING \<noteq> 0)), U (e_nextwake e), U (bool32 v)]))))"

section \<open>Sampling\<close>

text \<open>The event that the timer of an end stop runs.\<close>

definition endstop_timer ::
  "(signal_fn \<Rightarrow> nat \<Rightarrow> u8 \<Rightarrow> ('s endstops_scheme, unit) cmd) \<Rightarrow> nat \<Rightarrow> ('s endstops_scheme, sf) cmd" where
  "endstop_timer call a = mbind (gets (\<lambda>s. t_func (timers s (Obj_timer a 0)))) (\<lambda>f.
     if f = Some Endstop_event then endstop_event call a
     else if f = Some Endstop_oversample_event then endstop_oversample_event call a
     else fail (Fault ''timer''))"

text \<open>Reading number \<open>i\<close> of the pins shows the level that the end stop looks for.\<close>

definition hit :: "'s endstops_scheme \<Rightarrow> nat \<Rightarrow> nat \<Rightarrow> bool" where
  "hit s a i \<longleftrightarrow> \<not> endstop_no_match (gpio_idr s i (e_pin (endstops s a))) (e_flags (endstops s a))"

text \<open>A homing end stop that has seen \<open>k\<close> matching samples in a row, in the readings just before,
  the first of them no earlier than reading \<open>n0\<close>.\<close>

definition sampling :: "nat \<Rightarrow> nat \<Rightarrow> nat \<Rightarrow> 's endstops_scheme \<Rightarrow> bool" where
  "sampling n0 a k s \<longleftrightarrow> k < unat (e_sample_count (endstops s a))
     \<and> unat (e_trigger_count (endstops s a)) = unat (e_sample_count (endstops s a)) - k
     \<and> t_func (timers s (Obj_timer a 0)) = Some (if k = 0 then Endstop_event else Endstop_oversample_event)
     \<and> n0 + k \<le> idr_n s \<and> (\<forall>i. idr_n s \<le> i + k \<longrightarrow> i < idr_n s \<longrightarrow> hit s a i)"

text \<open>What the events of an end stop do not change.\<close>

definition same_endstop :: "nat \<Rightarrow> 's endstops_scheme \<Rightarrow> 's endstops_scheme \<Rightarrow> bool" where
  "same_endstop a s t \<longleftrightarrow> gpio_idr t = gpio_idr s \<and> trsyncs t = trsyncs s \<and> tsignals t = tsignals s
     \<and> steppers t = steppers s \<and> e_pin (endstops t a) = e_pin (endstops s a) \<and> e_flags (endstops t a) = e_flags (endstops s a)
     \<and> e_sample_count (endstops t a) = e_sample_count (endstops s a) \<and> e_ts (endstops t a) = e_ts (endstops s a)
     \<and> e_trigger_reason (endstops t a) = e_trigger_reason (endstops s a) \<and> idr_n s < idr_n t"

lemma same_endstop_trans: "same_endstop a s t \<Longrightarrow> same_endstop a t u \<Longrightarrow> same_endstop a s u"
  by (auto simp: same_endstop_def)

lemma same_endstop_hit: "same_endstop a s t \<Longrightarrow> hit t a i = hit s a i"
  by (simp add: same_endstop_def hit_def)

text \<open>The event in the middle of a run of samples.\<close>

lemma oversample_run:
  assumes "e_trigger_count (endstops s a) \<noteq> 0"
  shows "endstop_oversample_event call a s =
    (let e = endstops s a; s1 = s\<lparr>idr_n := Suc (idr_n s)\<rparr> in
     if \<not> hit s a (idr_n s) then (Inr SF_RESCHEDULE, set_es a (\<lambda>e. e\<lparr>e_trigger_count := e_sample_count e\<rparr>)
        (set_wake (Obj_timer a 0) (e_nextwake e) (set_func (Obj_timer a 0) (Some Endstop_event) s1)))
     else if e_trigger_count e = 1
       then mbind (deref (e_ts e)) (\<lambda>ts. mseq (trsync_do_trigger call ts (e_trigger_reason e)) (ret SF_DONE)) s1
     else (Inr SF_RESCHEDULE, set_wake (Obj_timer a 0) (waketime s (Obj_timer a 0) + e_sample_time e)
        (set_es a (\<lambda>x. x\<lparr>e_trigger_count := e_trigger_count e - 1\<rparr>) s1)))"
  using assms
  by (auto simp: endstop_oversample_event_def run_simps gpio_in_read_def hit_def Let_def set_es_def)

definition oversampling :: "nat \<Rightarrow> nat \<Rightarrow> nat \<Rightarrow> 's endstops_scheme \<Rightarrow> bool" where
  "oversampling n0 a k s \<longleftrightarrow> k < unat (e_sample_count (endstops s a))
     \<and> unat (e_trigger_count (endstops s a)) = unat (e_sample_count (endstops s a)) - k
     \<and> t_func (timers s (Obj_timer a 0)) = Some Endstop_oversample_event
     \<and> n0 + k \<le> idr_n s \<and> (\<forall>i. idr_n s \<le> i + k \<longrightarrow> i < idr_n s \<longrightarrow> hit s a i)"

text \<open>The last readings were the samples that the end stop asks for, all of them matching.\<close>

definition confirmed :: "nat \<Rightarrow> nat \<Rightarrow> 's endstops_scheme \<Rightarrow> bool" where
  "confirmed n0 a s \<longleftrightarrow> n0 + unat (e_sample_count (endstops s a)) \<le> idr_n s
     \<and> (\<forall>i. idr_n s \<le> i + unat (e_sample_count (endstops s a)) \<longrightarrow> i < idr_n s \<longrightarrow> hit s a i)"

definition endstop_fire ::
  "(signal_fn \<Rightarrow> nat \<Rightarrow> u8 \<Rightarrow> ('s endstops_scheme, unit) cmd) \<Rightarrow> nat \<Rightarrow> ('s endstops_scheme, sf) cmd" where
  "endstop_fire call a s = mbind (deref (e_ts (endstops s a))) (\<lambda>ts.
     mseq (trsync_do_trigger call ts (e_trigger_reason (endstops s a))) (ret SF_DONE)) s"

lemma hit_cong [simp]:
  "hit (s\<lparr>idr_n := n\<rparr>) a i = hit s a i" "hit (set_wake p w s) a i = hit s a i" "hit (set_func p f s) a i = hit s a i"
  "hit (set_es a (\<lambda>e. e\<lparr>e_trigger_count := c\<rparr>) s) a i = hit s a i"
  "hit (set_es a (\<lambda>e. e\<lparr>e_trigger_count := e_sample_count e\<rparr>) s) a i = hit s a i"
  "hit (set_es a (\<lambda>e. e\<lparr>e_nextwake := w\<rparr>) s) a i = hit s a i"
  by (simp_all add: hit_def set_wake_def set_func_def set_es_def)

lemma recent_Suc:
  "(\<forall>i. Suc n \<le> i + Suc k \<longrightarrow> i < Suc n \<longrightarrow> P i) \<longleftrightarrow> P n \<and> (\<forall>i. n \<le> i + k \<longrightarrow> i < n \<longrightarrow> P i)"
  by (auto simp: less_Suc_eq dest: spec [of _ n])

lemma oversample_cases:
  assumes ov: "oversampling n0 a k s"
  obtains t where "\<not> hit s a (idr_n s)" "endstop_oversample_event call a s = (Inr SF_RESCHEDULE, t)"
      "sampling n0 a 0 t" "same_endstop a s t" "idr_n t = Suc (idr_n s)"
  | t where "hit s a (idr_n s)" "Suc k < unat (e_sample_count (endstops s a))"
      "endstop_oversample_event call a s = (Inr SF_RESCHEDULE, t)"
      "sampling n0 a (Suc k) t" "same_endstop a s t" "idr_n t = Suc (idr_n s)"
  | t where "hit s a (idr_n s)" "Suc k = unat (e_sample_count (endstops s a))"
      "endstop_oversample_event call a s = endstop_fire call a t" "confirmed n0 a t" "same_endstop a s t" "t = s\<lparr>idr_n := Suc (idr_n s)\<rparr>"
proof -
  let ?e = "endstops s a"
  have c: "unat (e_trigger_count ?e) = unat (e_sample_count ?e) - k" "k < unat (e_sample_count ?e)"
    using ov by (simp_all add: oversampling_def)
  then have nz: "e_trigger_count ?e \<noteq> 0" by auto
  have one: "e_trigger_count ?e = 1 \<longleftrightarrow> Suc k = unat (e_sample_count ?e)"
    using c by (auto simp: word_unat_eq_iff)
  note run = oversample_run [where call = call, OF nz]
  consider "\<not> hit s a (idr_n s)" | "hit s a (idr_n s)" "Suc k < unat (e_sample_count ?e)" | "hit s a (idr_n s)" "Suc k = unat (e_sample_count ?e)"
    using c by linarith
  then show thesis
  proof cases
    case 1
    show thesis
      by (rule that(1) [OF 1]) (use c 1 ov in \<open>auto simp: run Let_def oversampling_def sampling_def same_endstop_def set_es_def set_wake_def set_func_def\<close>)
  next
    case 2
    have m: "unat (e_trigger_count ?e - 1) = unat (e_sample_count ?e) - Suc k"
      using c nz by (simp add: unat_minus_one)
    have "\<forall>i. Suc (idr_n s) \<le> i + Suc k \<longrightarrow> i < Suc (idr_n s) \<longrightarrow> hit s a i"
      unfolding recent_Suc using ov 2(1) by (simp add: oversampling_def)
    then show thesis
      by (intro that(2) [OF 2])
        (use 2 one m ov in \<open>auto simp: run Let_def sampling_def oversampling_def same_endstop_def set_es_def set_wake_def hit_def\<close>)
  next
    case 3
    have "\<forall>i. Suc (idr_n s) \<le> i + Suc k \<longrightarrow> i < Suc (idr_n s) \<longrightarrow> hit s a i"
      unfolding recent_Suc using ov 3(1) by (simp add: oversampling_def)
    then have "confirmed n0 a (s\<lparr>idr_n := Suc (idr_n s)\<rparr>)" using ov 3(2) by (simp add: confirmed_def oversampling_def)
    then show thesis
      by (intro that(3) [OF 3]) (use 3 one in \<open>auto simp: run Let_def endstop_fire_def same_endstop_def\<close>)
  qed
qed

lemma endstop_timer_cases:
  assumes sa: "sampling n0 a k s"
  obtains t k' where "endstop_timer call a s = (Inr SF_RESCHEDULE, t)" "sampling n0 a k' t" "same_endstop a s t"
      "k' = Suc k \<or> (\<exists>i\<ge>idr_n s. \<not> hit s a i)" "Suc k < unat (e_sample_count (endstops s a)) \<or> (\<exists>i\<ge>idr_n s. \<not> hit s a i)"
  | t where "endstop_timer call a s = endstop_fire call a t" "confirmed n0 a t" "same_endstop a s t"
      "Suc k = unat (e_sample_count (endstops s a))"
proof (cases "k = 0")
  case False
  then have f: "t_func (timers s (Obj_timer a 0)) = Some Endstop_oversample_event" using sa by (simp add: sampling_def)
  then have e: "endstop_timer call a s = endstop_oversample_event call a s" by (simp add: endstop_timer_def run_simps)
  have "oversampling n0 a k s" using sa f by (simp add: sampling_def oversampling_def)
  then show thesis
    by (cases rule: oversample_cases [where call = call]) (use that e in \<open>metis order_refl\<close>)+
next
  case True
  let ?n = "waketime s (Obj_timer a 0) + e_rest_time (endstops s a)"
  let ?s = "set_func (Obj_timer a 0) (Some Endstop_oversample_event) (set_es a (\<lambda>e. e\<lparr>e_nextwake := ?n\<rparr>) (s\<lparr>idr_n := Suc (idr_n s)\<rparr>))"
  have f: "t_func (timers s (Obj_timer a 0)) = Some Endstop_event" using sa True by (simp add: sampling_def)
  have e: "endstop_timer call a s = (if \<not> hit s a (idr_n s) then (Inr SF_RESCHEDULE, set_wake (Obj_timer a 0) ?n (s\<lparr>idr_n := Suc (idr_n s)\<rparr>))
      else endstop_oversample_event call a ?s)"
    using f by (auto simp: endstop_timer_def endstop_event_def run_simps gpio_in_read_def hit_def)
  show thesis
  proof (cases "hit s a (idr_n s)")
    case False
    show thesis
      by (rule that(1) [of "set_wake (Obj_timer a 0) ?n (s\<lparr>idr_n := Suc (idr_n s)\<rparr>)" 0])
        (use e False True sa in \<open>auto simp: sampling_def same_endstop_def set_wake_def\<close>)
  next
    case h: True
    have sm: "same_endstop a s ?s" by (simp add: same_endstop_def set_func_def set_es_def)
    have "oversampling n0 a 0 ?s" using sa True by (simp add: sampling_def oversampling_def set_func_def set_es_def)
    then show thesis
    proof (cases rule: oversample_cases [where call = call])
      case (1 t)
      have "same_endstop a s t" using same_endstop_trans [OF sm 1(4)] .
      moreover have "\<exists>i\<ge>idr_n s. \<not> hit s a i"
        using 1(1) by (intro exI [of _ "Suc (idr_n s)"]) (simp add: hit_def set_func_def set_es_def)
      ultimately show thesis using that(1) [of t 0] 1(2,3) e h by simp
    next
      case (2 t)
      have "same_endstop a s t" using same_endstop_trans [OF sm 2(5)] .
      then show thesis using that(1) [of t "Suc 0"] 2 e h True by (auto simp: set_func_def set_es_def)
    next
      case (3 t)
      have "same_endstop a s t" using same_endstop_trans [OF sm 3(5)] .
      then show thesis using that(2) [of t] 3 e h True by (auto simp: set_func_def set_es_def)
    qed
  qed
qed

lemma endstop_events:
  assumes "sampling n0 a k s" "run_events (endstop_timer call a) n s = (Inr (), t)"
  shows "\<exists>k'. sampling n0 a k' t \<and> (t = s \<or> same_endstop a s t)"
  using assms
proof (induction n arbitrary: s k)
  case 0
  then show ?case by auto
next
  case (Suc n)
  from Suc.prems(1) show ?case
  proof (cases rule: endstop_timer_cases [where call = call])
    case (1 u k')
    then have "run_events (endstop_timer call a) n u = (Inr (), t)" using Suc.prems(2) by (simp add: run_simps)
    then show ?thesis using Suc.IH [OF 1(2)] 1(3) same_endstop_trans by blast
  next
    case (2 u)
    then have False
      using Suc.prems(2) by (auto simp: endstop_fire_def run_simps deref_def split: option.splits prod.splits sum.splits)
    then show ?thesis ..
  qed
qed

section \<open>Properties\<close>

text \<open>
  C6: An end stop filters its pin.  From the moment it is armed, when the event that follows any number of
  rescheduled events ends the sampling, the readings just before the trigger, as many as the configured sample
  count, all showed the level looked for, and that trigger is all the event did: a level that does not last
  never stops a move.\<close>

theorem endstop_trigger_confirmed:
  assumes "sampling (idr_n s) a 0 s" "run_events (endstop_timer call a) n s = (Inr (), t)"
    and "endstop_timer call a t = (Inr SF_DONE, u)"
  shows "\<exists>v. let c = unat (e_sample_count (endstops s a)) in
    endstop_timer call a t = endstop_fire call a v \<and> trsyncs v = trsyncs s \<and> steppers v = steppers s
    \<and> idr_n s + c \<le> idr_n v
    \<and> (\<forall>i\<in>{idr_n v - c..<idr_n v}. \<not> endstop_no_match (gpio_idr s i (e_pin (endstops s a))) (e_flags (endstops s a)))"
proof -
  obtain k where k: "sampling (idr_n s) a k t" "t = s \<or> same_endstop a s t"
    using endstop_events [OF assms(1,2)] by blast
  from k(1) show ?thesis
  proof (cases rule: endstop_timer_cases [where call = call])
    case (1 v k')
    then show ?thesis using assms(3) by simp
  next
    case (2 v)
    then have sm: "same_endstop a s v" using k(2) same_endstop_trans by blast
    then show ?thesis using 2(1,2) same_endstop_hit [OF sm]
      by (intro exI [of _ v]) (auto simp: Let_def confirmed_def same_endstop_def hit_def)
  qed
qed

definition endstops_static :: endstops where
  "endstops_static = steppers.extend steppers_static \<lparr>endstops = (\<lambda>_. zero_endstop)\<rparr>"

lemmas endstops_static_simps = steppers_static_simps endstops_static_def steppers.extend_def

text \<open>An end stop at 8000 that looks for a high level, bound to the trigger at 7000; the pin bounces once.\<close>

definition example_endstop :: endstops where
  "example_endstop = endstops_static\<lparr>endstops := (\<lambda>_. zero_endstop\<lparr>e_pin := 9, e_flags := ESF_HOMING OR ESF_PIN_HIGH,
      e_sample_count := 2, e_trigger_count := 2, e_ts := Some 7000, e_trigger_reason := 1\<rparr>),
    timers := (timers endstops_static)(Obj_timer 8000 0 := \<lparr>t_next = None, t_func = Some Endstop_event, t_wake = 5000\<rparr>),
    gpio_idr := (\<lambda>n _. n \<noteq> 1)\<rparr>"

theorem endstop_trigger_confirmed_witness:
  "\<exists>t v. run_events (endstop_timer (signal_call full_config) 8000) 2 example_endstop = (Inr (), t)
    \<and> endstop_timer (signal_call full_config) 8000 t = endstop_fire (signal_call full_config) 8000 v
    \<and> (\<forall>i\<in>{idr_n v - 2..<idr_n v}. gpio_idr example_endstop i 9)"
proof -
  let ?ev = "endstop_timer (signal_call full_config) 8000"
  let ?r = "run_events ?ev 2 example_endstop"
  have sa: "sampling (idr_n example_endstop) 8000 0 example_endstop"
    by (simp add: sampling_def example_endstop_def endstops_static_simps)
  have r: "?r = (Inr (), snd ?r)"
    by (simp add: numeral_2_eq_2 run_simps endstop_timer_def endstop_event_def endstop_oversample_event_def gpio_in_read_def
        example_endstop_def endstops_static_simps endstop_no_match_def ESF_HOMING_def ESF_PIN_HIGH_def set_es_def set_func_def set_wake_def)
  have d: "?ev (snd ?r) = (Inr SF_DONE, snd (?ev (snd ?r)))"
    by (simp add: numeral_2_eq_2 run_simps endstop_timer_def endstop_event_def endstop_oversample_event_def gpio_in_read_def
        example_endstop_def endstops_static_simps endstop_no_match_def ESF_HOMING_def ESF_PIN_HIGH_def set_es_def set_func_def set_wake_def
        deref_def trsync_do_trigger_def TSF_CAN_TRIGGER_def)
  have c: "unat (e_sample_count (endstops example_endstop 8000)) = 2" "e_pin (endstops example_endstop 8000) = 9"
      "e_flags (endstops example_endstop 8000) = 3"
    by (simp_all add: example_endstop_def ESF_HOMING_def ESF_PIN_HIGH_def)
  obtain v where v: "?ev (snd ?r) = endstop_fire (signal_call full_config) 8000 v"
      "\<forall>i\<in>{idr_n v - 2..<idr_n v}. \<not> endstop_no_match (gpio_idr example_endstop i 9) 3"
    using endstop_trigger_confirmed [OF sa r d] unfolding Let_def c by blast
  have "\<forall>i\<in>{idr_n v - 2..<idr_n v}. gpio_idr example_endstop i 9"
    using v(2) by (auto simp: endstop_no_match_def ESF_PIN_HIGH_def split: if_splits)
  then show ?thesis using r v(1) by blast
qed

lemma stepper_inv_cong [simp]:
  "stepper_inv b A (s\<lparr>idr_n := n\<rparr>) = stepper_inv b A s" "stepper_inv b A (set_func p f s) = stepper_inv b A s"
  "stepper_inv b A (set_es a g s) = stepper_inv b A s"
proof -
  have f: "t_next ((if q = p then (timers s p)\<lparr>t_func := f\<rparr> else timers s q)) = t_next (timers s q)"
    "t_wake ((if q = p then (timers s p)\<lparr>t_func := f\<rparr> else timers s q)) = t_wake (timers s q)" for q by simp_all
  show "stepper_inv b A (s\<lparr>idr_n := n\<rparr>) = stepper_inv b A s" "stepper_inv b A (set_es a g s) = stepper_inv b A s"
    by (simp_all add: stepper_inv_def stepper_pool_def queue_nodes_def free_nodes_def set_es_def timer_inv_def tchain_def torder_def)
  show "stepper_inv b A (set_func p f s) = stepper_inv b A s"
    by (simp add: stepper_inv_def stepper_pool_def queue_nodes_def free_nodes_def set_func_def
      timer_inv_def tchain_def torder_def fun_upd_def f)
qed

text \<open>The event that takes the last sample.\<close>

lemma last_sample:
  assumes sa: "sampling n0 a k s" "Suc k = unat (e_sample_count (endstops s a))"
    and h: "hit s a (idr_n s)" "k = 0 \<longrightarrow> hit s a (Suc (idr_n s))"
  obtains t where "endstop_timer call a s = endstop_fire call a t" "e_ts (endstops t a) = e_ts (endstops s a)"
    "e_trigger_reason (endstops t a) = e_trigger_reason (endstops s a)" "trsyncs t = trsyncs s" "tsignals t = tsignals s"
    "\<And>b A. stepper_inv b A t = stepper_inv b A s"
proof (cases "k = 0")
  case False
  then have f: "t_func (timers s (Obj_timer a 0)) = Some Endstop_oversample_event" using sa by (simp add: sampling_def)
  then have e: "endstop_timer call a s = endstop_oversample_event call a s" by (simp add: endstop_timer_def run_simps)
  have "oversampling n0 a k s" using sa f by (simp add: sampling_def oversampling_def)
  then show thesis
    by (cases rule: oversample_cases [where call = call]) (use that [of "s\<lparr>idr_n := Suc (idr_n s)\<rparr>"] e h sa in auto)
next
  case True
  let ?n = "waketime s (Obj_timer a 0) + e_rest_time (endstops s a)"
  let ?s = "set_func (Obj_timer a 0) (Some Endstop_oversample_event) (set_es a (\<lambda>e. e\<lparr>e_nextwake := ?n\<rparr>) (s\<lparr>idr_n := Suc (idr_n s)\<rparr>))"
  have f: "t_func (timers s (Obj_timer a 0)) = Some Endstop_event" using sa True by (simp add: sampling_def)
  have e: "endstop_timer call a s = endstop_oversample_event call a ?s"
    using f h(1) by (auto simp: endstop_timer_def endstop_event_def run_simps gpio_in_read_def hit_def)
  have i: "idr_n ?s = Suc (idr_n s)" "e_sample_count (endstops ?s a) = e_sample_count (endstops s a)"
      "e_ts (endstops ?s a) = e_ts (endstops s a)" "e_trigger_reason (endstops ?s a) = e_trigger_reason (endstops s a)"
      "trsyncs ?s = trsyncs s" "tsignals ?s = tsignals s"
    by (simp_all add: set_func_def set_es_def)
  have "oversampling n0 a 0 ?s" using sa True by (simp add: sampling_def oversampling_def set_func_def set_es_def)
  then show thesis
  proof (cases rule: oversample_cases [where call = call])
    case (3 t)
    show thesis by (rule that [of t]) (simp_all add: 3 e i)
  qed (use h sa True i in \<open>auto\<close>)
qed

text \<open>
  C5: Homing ends in a stop.  When the reading that completes the samples shows the level looked for, the timer
  event of the end stop ends, and every stepper registered with the trigger of the end stop is stopped, with the
  reason of the end stop recorded for the host.\<close>

theorem homing_stops_steppers:
  assumes "sampling n0 a k s" "Suc k = unat (e_sample_count (endstops s a))"
    and "hit s a (idr_n s)" "k = 0 \<longrightarrow> hit s a (Suc (idr_n s))"
    and "e_ts (endstops s a) = Some ts" "stepper_inv b A s" "signals_of s ts xs" "set xs \<subseteq> A"
    and "ts_flags (trsyncs s ts) AND TSF_CAN_TRIGGER \<noteq> 0"
  shows "\<exists>s'. endstop_timer (signal_call c) a s = (Inr SF_DONE, s') \<and> stepper_inv b A s' \<and> (\<forall>x\<in>set xs. is_stopped x s')
    \<and> ts_trigger_reason (trsyncs s' ts) = e_trigger_reason (endstops s a)"
proof -
  obtain t where t: "endstop_timer (signal_call c) a s = endstop_fire (signal_call c) a t" "e_ts (endstops t a) = e_ts (endstops s a)"
    "e_trigger_reason (endstops t a) = e_trigger_reason (endstops s a)" "trsyncs t = trsyncs s" "tsignals t = tsignals s"
    "\<And>b A. stepper_inv b A t = stepper_inv b A s"
    by (rule last_sample [OF assms(1-4), of "signal_call c"]) blast
  have A: "\<forall>x\<in>set xs. x \<in> A" using assms(8) by blast
  have s: "stepper_inv b A t" "signals_of t ts xs" "ts_flags (trsyncs t ts) AND TSF_CAN_TRIGGER \<noteq> 0"
    using assms t by (simp_all add: signals_of_def)
  obtain s' where s': "trsync_do_trigger (signal_call c) ts (e_trigger_reason (endstops s a)) t = (Inr (), s')" "stepper_inv b A s'"
      "\<forall>x\<in>set xs. is_stopped x s'" "ts_trigger_reason (trsyncs s' ts) = e_trigger_reason (endstops s a)"
    by (rule stepper_signals.do_trigger [OF s(1,2) A s(3)]) blast
  have "endstop_timer (signal_call c) a s = (Inr SF_DONE, s')"
    using s'(1) t assms(5) by (simp add: endstop_fire_def run_simps deref_def)
  then show ?thesis using s' by blast
qed

definition example_homing :: endstops where
  "example_homing = example_endstop\<lparr>steppers := steppers example_stepper, gpio_idr := (\<lambda>_ _. True),
     endstops := (\<lambda>x. (endstops example_endstop x)\<lparr>e_sample_count := 1, e_trigger_count := 1\<rparr>),
     trsyncs := (trsyncs example_endstop)(7000 := \<lparr>ts_report_ticks = 0, ts_signals = Some 5000, ts_flags = TSF_CAN_TRIGGER,
       ts_trigger_reason = 0, ts_expire_reason = 2\<rparr>),
     tsignals := (\<lambda>_. \<lparr>tss_next = None, tss_func = Some Stepper_stop\<rparr>)\<rparr>"

theorem homing_stops_steppers_witness:
  "\<exists>s'. endstop_timer (signal_call full_config) 8000 example_homing = (Inr SF_DONE, s') \<and> is_stopped 5000 s'
    \<and> ts_trigger_reason (trsyncs s' 7000) = 1"
proof -
  have "timer_inv 0 example_homing [Periodic_timer, Sentinel_timer] = timer_inv 0 sched_static [Periodic_timer, Sentinel_timer]"
    by (simp add: timer_inv_def tchain_def torder_def example_homing_def example_endstop_def endstops_static_simps cong: if_cong)
  moreover have "stepper_pool {5000} example_homing (\<lambda>_. [6000]) []"
    by (simp add: stepper_pool_def free_nodes_def queue_nodes_def example_homing_def example_endstop_def example_stepper_def endstops_static_simps)
  ultimately have i: "stepper_inv 0 {5000} example_homing" using static_inv unfolding stepper_inv_def by blast
  have s: "sampling 0 8000 0 example_homing" "Suc 0 = unat (e_sample_count (endstops example_homing 8000))"
     "hit example_homing 8000 (idr_n example_homing)" "(0 :: nat) = 0 \<longrightarrow> hit example_homing 8000 (Suc (idr_n example_homing))"
     "e_ts (endstops example_homing 8000) = Some 7000"
    by (simp_all add: sampling_def hit_def example_homing_def example_endstop_def endstop_no_match_def ESF_HOMING_def ESF_PIN_HIGH_def)
  have t: "signals_of example_homing 7000 [5000]" "set [5000 :: nat] \<subseteq> {5000}"
     "ts_flags (trsyncs example_homing 7000) AND TSF_CAN_TRIGGER \<noteq> 0" "e_trigger_reason (endstops example_homing 8000) = 1"
    by (simp_all add: signals_of_def example_homing_def example_endstop_def TSF_CAN_TRIGGER_def)
  show ?thesis using homing_stops_steppers [OF s i t(1-3), of full_config] unfolding t(4) by auto
qed

end
