(* ===== verification/Gpiocmds.thy ===== *)
theory Gpiocmds
  imports Endstop
begin

text \<open>
  Digital output pins with software PWM, \<open>src/src/gpiocmds.c\<close>, and the pins set at start,
  \<open>src/src/initial_pins.c\<close>.
\<close>

section \<open>State\<close>

record digital_move =
  dm_waketime :: u32
  dm_on_duration :: u32

record digital_out_s =
  d_on_duration :: u32
  d_off_duration :: u32
  d_end_time :: u32
  d_pin :: u32
  d_max_duration :: u32
  d_cycle_time :: u32
  d_mq :: move_queue_head
  d_flags :: u8

record douts = endstops +
  douts :: "nat \<Rightarrow> digital_out_s"
  dmoves :: "nat \<Rightarrow> digital_move"

definition DF_ON :: u8 where "DF_ON = 1"
definition DF_TOGGLING :: u8 where "DF_TOGGLING = 2"
definition DF_CHECK_END :: u8 where "DF_CHECK_END = 4"
definition DF_DEFAULT_ON :: u8 where "DF_DEFAULT_ON = 16"

lemmas digital_flags = DF_ON_def DF_TOGGLING_def DF_CHECK_END_def DF_DEFAULT_ON_def

definition SIZEOF_digital_out :: nat where "SIZEOF_digital_out = 52"
definition SIZEOF_digital_move :: nat where "SIZEOF_digital_move = 12"

definition set_do :: "nat \<Rightarrow> (digital_out_s \<Rightarrow> digital_out_s) \<Rightarrow> 's douts_scheme \<Rightarrow> 's douts_scheme" where
  "set_do a f s = s\<lparr>douts := (douts s)(a := f (douts s a))\<rparr>"

definition zero_dout :: digital_out_s where
  "zero_dout = \<lparr>d_on_duration = 0, d_off_duration = 0, d_end_time = 0, d_pin = 0, d_max_duration = 0,
     d_cycle_time = 0, d_mq = \<lparr>mq_first = None, mq_last = None\<rparr>, d_flags = 0\<rparr>"

section \<open>Events\<close>

definition digital_toggle_event :: "nat \<Rightarrow> ('s douts_scheme, sf) cmd" where
  "digital_toggle_event a =
     mseq (mbind (gets (\<lambda>s. d_pin (douts s a))) gpio_out_toggle_noirq) (
     mseq (modify (set_do a (\<lambda>d. d\<lparr>d_flags := d_flags d XOR DF_ON\<rparr>))) (
     mbind (gets (\<lambda>s. douts s a)) (\<lambda>d.
     mbind (gets (\<lambda>s. waketime s (Obj_timer a 0))) (\<lambda>w0.
     let w = (if d_flags d AND DF_ON \<noteq> 0 then w0 + d_on_duration d else w0 + d_off_duration d)
     in if d_flags d AND DF_CHECK_END \<noteq> 0 \<and> \<not> timer_is_before w (d_end_time d) then
          mseq (modify (set_func (Obj_timer a 0) (Some Digital_load_event))) (
          mseq (modify (set_wake (Obj_timer a 0) (d_end_time d))) (ret SF_RESCHEDULE))
        else mseq (modify (set_wake (Obj_timer a 0) w)) (ret SF_RESCHEDULE)))))"

text \<open>The end time and the flags that follow from an update and the safety limit.\<close>

definition digital_limit :: "digital_out_s \<Rightarrow> u32 \<Rightarrow> u32 \<Rightarrow> u32 \<times> u8" where
  "digital_limit d wt on_duration =
     (let flags = (if on_duration \<noteq> 0 then DF_ON else 0)
      in if flags = 0 \<or> on_duration \<ge> d_cycle_time d then
           (if (flags = 0) \<noteq> (d_flags d AND DF_DEFAULT_ON = 0) \<and> d_max_duration d \<noteq> 0
            then (wt + d_max_duration d, flags OR DF_CHECK_END) else (0, flags))
         else (if d_max_duration d \<noteq> 0
               then (wt + d_max_duration d, (flags OR DF_TOGGLING) OR DF_CHECK_END)
               else (0, flags OR DF_TOGGLING)))"

text \<open>The last part of \<open>digital_load_event\<close>: schedule the next event.\<close>

definition digital_schedule :: "nat \<Rightarrow> u32 \<Rightarrow> u32 \<Rightarrow> u8 \<Rightarrow> ('s douts_scheme, sf) cmd" where
  "digital_schedule a on_duration end_time flags =
     (if flags AND DF_TOGGLING = 0 then
        (if flags AND DF_CHECK_END = 0 then ret SF_DONE
         else mseq (modify (set_wake (Obj_timer a 0) end_time)) (ret SF_RESCHEDULE))
      else mbind (gets (\<lambda>s. waketime s (Obj_timer a 0) + on_duration)) (\<lambda>w.
        if flags AND DF_CHECK_END \<noteq> 0 \<and> \<not> timer_is_before w end_time then
          mseq (modify (set_wake (Obj_timer a 0) end_time)) (ret SF_RESCHEDULE)
        else mseq (modify (set_func (Obj_timer a 0) (Some Digital_toggle_event))) (
          mseq (modify (set_wake (Obj_timer a 0) w)) (
          mseq (modify (set_do a (\<lambda>d. d\<lparr>d_on_duration := on_duration,
                  d_off_duration := d_cycle_time d - on_duration\<rparr>)))
          (ret SF_RESCHEDULE)))))"

definition digital_load_event :: "nat \<Rightarrow> ('s douts_scheme, sf) cmd" where
  "digital_load_event a = mbind (gets (\<lambda>s. d_mq (douts s a))) (\<lambda>mq.
     if move_queue_empty mq then shutdown ''digital_load_event'' ''Missed scheduling of next digital out event''
     else
       mbind (move_queue_pop mq) (\<lambda>(mn, mq').
       mseq (modify (set_do a (\<lambda>d. d\<lparr>d_mq := mq'\<rparr>))) (
       mbind (gets (\<lambda>s. dm_on_duration (dmoves s mn))) (\<lambda>on_duration.
       mbind (gets (\<lambda>s. douts s a)) (\<lambda>d.
       mseq (gpio_out_write (d_pin d) (ucast (if on_duration \<noteq> 0 then DF_ON else 0))) (
       mseq (move_free mn) (
       mbind (gets (\<lambda>s. waketime s (Obj_timer a 0))) (\<lambda>wt.
       let (end0, flags0) = digital_limit d wt on_duration in
       mbind (case move_queue_first mq' of
           None \<Rightarrow> ret (end0, flags0)
         | Some nn \<Rightarrow> mbind (gets (\<lambda>s. dm_waketime (dmoves s nn))) (\<lambda>wake.
             if flags0 AND DF_CHECK_END \<noteq> 0 \<and> timer_is_before end0 wake
             then shutdown ''digital_load_event'' ''Scheduled digital out event will exceed max_duration''
             else ret (wake, flags0 OR DF_CHECK_END))) (\<lambda>(end_time, flags).
       mseq (modify (set_do a (\<lambda>d. d\<lparr>d_end_time := end_time,
               d_flags := flags OR (d_flags d AND DF_DEFAULT_ON)\<rparr>)))
       (digital_schedule a on_duration end_time flags))))))))))"

section \<open>Commands\<close>

definition command_config_digital_out :: "u32 list \<Rightarrow> ('s douts_scheme, unit) cmd" where
  "command_config_digital_out args =
     mbind (gpio_out_setup (args ! 1) (bool32 (args ! 2 \<noteq> 0))) (\<lambda>pin.
     mbind (oid_alloc (ucast (args ! 0)) Oid_digital_out SIZEOF_digital_out) (\<lambda>a.
     mseq (modify (\<lambda>s. set_do a (\<lambda>_. zero_dout) (zero_timer (Obj_timer a 0) s))) (
     mseq (modify (set_do a (\<lambda>d. d\<lparr>d_pin := pin,
             d_flags := (if args ! 2 \<noteq> 0 then DF_ON else 0) OR (if args ! 3 \<noteq> 0 then DF_DEFAULT_ON else 0),
             d_max_duration := args ! 4\<rparr>))) (
     mbind (move_queue_setup SIZEOF_digital_move) (\<lambda>mq.
     modify (set_do a (\<lambda>d. d\<lparr>d_mq := mq\<rparr>)))))))"

definition dout_lookup :: "string \<Rightarrow> u32 \<Rightarrow> ('s douts_scheme, nat) cmd" where
  "dout_lookup func oid = mbind (oid_lookup func (ucast oid) Oid_digital_out) deref"

definition command_set_digital_out_pwm_cycle :: "u32 list \<Rightarrow> ('s douts_scheme, unit) cmd" where
  "command_set_digital_out_pwm_cycle args =
     mbind (dout_lookup ''command_set_digital_out_pwm_cycle'' (args ! 0)) (\<lambda>a.
     mbind (gets (\<lambda>s. d_mq (douts s a))) (\<lambda>mq.
     if \<not> move_queue_empty mq
     then shutdown ''command_set_digital_out_pwm_cycle'' ''Can not set soft pwm cycle ticks while updates pending''
     else modify (set_do a (\<lambda>d. d\<lparr>d_cycle_time := args ! 1\<rparr>))))"

definition command_queue_digital_out :: "u32 list \<Rightarrow> ('s douts_scheme, unit) cmd" where
  "command_queue_digital_out args =
     mbind (dout_lookup ''command_queue_digital_out'' (args ! 0)) (\<lambda>a.
     mbind move_alloc (\<lambda>n.
     let time = args ! 1 in
     mseq (modify (\<lambda>s. s\<lparr>dmoves := (dmoves s)(n := \<lparr>dm_waketime = time, dm_on_duration = args ! 2\<rparr>)\<rparr>)) (
     mbind (gets (\<lambda>s. d_mq (douts s a))) (\<lambda>mq.
     mbind (move_queue_push n mq) (\<lambda>(first_on_queue, mq').
     mseq (modify (set_do a (\<lambda>d. d\<lparr>d_mq := mq'\<rparr>))) (
     if \<not> first_on_queue then ret ()
     else
       mbind (gets (\<lambda>s. douts s a)) (\<lambda>d.
       let flags = d_flags d in
       if flags AND DF_CHECK_END \<noteq> 0 \<and> timer_is_before (d_end_time d) time
       then shutdown ''command_queue_digital_out'' ''Scheduled digital out event will exceed max_duration''
       else
         mseq (modify (set_do a (\<lambda>d. d\<lparr>d_end_time := time, d_flags := flags OR DF_CHECK_END\<rparr>))) (
         mbind (gets (\<lambda>s. waketime s (Obj_timer a 0))) (\<lambda>w.
         if flags AND DF_TOGGLING \<noteq> 0 \<and> timer_is_before w time then ret ()
         else
           mseq (sched_del_timer (Obj_timer a 0)) (
           mseq (modify (set_wake (Obj_timer a 0) time)) (
           mseq (modify (set_func (Obj_timer a 0) (Some Digital_load_event)))
           (sched_add_timer ''command_queue_digital_out'' (Obj_timer a 0)))))))))))))"

definition command_update_digital_out :: "u32 list \<Rightarrow> ('s douts_scheme, unit) cmd" where
  "command_update_digital_out args =
     mbind (dout_lookup ''command_update_digital_out'' (args ! 0)) (\<lambda>a.
     mseq (sched_del_timer (Obj_timer a 0)) (
     mbind (gets (\<lambda>s. douts s a)) (\<lambda>d.
     if \<not> move_queue_empty (d_mq d)
     then shutdown ''command_update_digital_out'' ''update_digital_out not valid with active queue''
     else
       let val = ucast (args ! 1) :: u8; flags = d_flags d; on_flag = (if val \<noteq> 0 then DF_ON else 0) in
       mseq (gpio_out_write (d_pin d) (ucast on_flag)) (
       if (on_flag = 0) \<noteq> (flags AND DF_DEFAULT_ON = 0) \<and> d_max_duration d \<noteq> 0 then
         mbind timer_read_time (\<lambda>now.
         let end_time = now + d_max_duration d in
         mseq (modify (set_do a (\<lambda>d. d\<lparr>d_end_time := end_time\<rparr>))) (
         mseq (modify (set_wake (Obj_timer a 0) end_time)) (
         mseq (modify (set_func (Obj_timer a 0) (Some Digital_load_event))) (
         mseq (modify (set_do a (\<lambda>d. d\<lparr>d_flags := ((flags AND DF_DEFAULT_ON) OR on_flag) OR DF_CHECK_END\<rparr>)))
         (sched_add_timer ''command_update_digital_out'' (Obj_timer a 0))))))
       else modify (set_do a (\<lambda>d. d\<lparr>d_flags := (flags AND DF_DEFAULT_ON) OR on_flag\<rparr>))))))"

definition digital_out_shutdown :: "('s douts_scheme, unit) cmd" where
  "digital_out_shutdown = foreach_oid Oid_digital_out (\<lambda>i a.
     mbind (gets (\<lambda>s. douts s a)) (\<lambda>d.
     mseq (gpio_out_write (d_pin d) (ucast (d_flags d AND DF_DEFAULT_ON)))
     (modify (set_do a (\<lambda>d. d\<lparr>d_flags := (if d_flags d AND DF_DEFAULT_ON \<noteq> 0 then DF_ON OR DF_DEFAULT_ON else 0),
        d_mq := move_queue_clear (d_mq d)\<rparr>)))))"

definition command_set_digital_out :: "u32 list \<Rightarrow> ('s douts_scheme, unit) cmd" where
  "command_set_digital_out args = mbind (gpio_out_setup (args ! 0) (args ! 1)) (\<lambda>_. ret ())"

section \<open>Initial pins\<close>

definition IP_OUT_HIGH :: u8 where "IP_OUT_HIGH = 1"

text \<open>\<open>initial_pins\<close> is the generated table of pins and flags, empty when the option is empty.\<close>

fun initial_pins_setup :: "(u32 \<times> u8) list \<Rightarrow> ('s hw_scheme, unit) cmd" where
  "initial_pins_setup [] = ret ()"
| "initial_pins_setup ((pin, flags) # ips) =
     mbind (gpio_out_setup pin (ucast (flags AND IP_OUT_HIGH))) (\<lambda>_. initial_pins_setup ips)"

section \<open>The safety limit\<close>

text \<open>The event that the timer of a digital output runs.\<close>

definition digital_timer :: "nat \<Rightarrow> ('s douts_scheme, sf) cmd" where
  "digital_timer a = mbind (gets (\<lambda>s. t_func (timers s (Obj_timer a 0)))) (\<lambda>f.
     if f = Some Digital_load_event then digital_load_event a
     else if f = Some Digital_toggle_event then digital_toggle_event a
     else fail (Fault ''timer''))"

text \<open>An output with nothing queued that must be updated by \<open>E\<close>: its next event is due at \<open>E\<close> or is a toggle before it.\<close>

definition guarded :: "nat \<Rightarrow> u32 \<Rightarrow> 's douts_scheme \<Rightarrow> bool" where
  "guarded a E s \<longleftrightarrow> d_end_time (douts s a) = E \<and> d_flags (douts s a) AND DF_CHECK_END \<noteq> 0 \<and> move_queue_empty (d_mq (douts s a))
     \<and> (t_func (timers s (Obj_timer a 0)) = Some Digital_load_event \<and> waketime s (Obj_timer a 0) = E
       \<or> t_func (timers s (Obj_timer a 0)) = Some Digital_toggle_event \<and> timer_is_before (waketime s (Obj_timer a 0)) E)"

lemma xor_other_flag: "m AND k = 0 \<Longrightarrow> (x XOR m) AND k = x AND (k :: 'a::len word)"
proof -
  assume "m AND k = 0"
  moreover have "(x XOR m) AND k = x AND k XOR m AND k" by (simp add: bit_eq_iff bit_simps) blast
  ultimately show ?thesis by simp
qed

lemma digital_toggle_guarded:
  assumes "guarded a E s" "t_func (timers s (Obj_timer a 0)) = Some Digital_toggle_event"
  obtains t where "digital_toggle_event a s = (Inr SF_RESCHEDULE, t)" "guarded a E t"
proof -
  have "(d_flags (douts s a) XOR DF_ON) AND DF_CHECK_END \<noteq> 0"
    using assms(1) by (simp add: guarded_def xor_other_flag digital_flags)
  then show thesis
    using assms that [of "snd (digital_toggle_event a s)"]
    by (auto simp: digital_toggle_event_def run_simps gpio_out_toggle_noirq_def set_do_def set_func_def set_wake_def guarded_def Let_def
        split: if_splits)
qed

lemma digital_timer_guarded:
  assumes "guarded a E s"
  shows "fst (digital_timer a s) = Inl (Shutdown ''Missed scheduling of next digital out event'')
    \<and> waketime s (Obj_timer a 0) = E \<or> (\<exists>t. digital_timer a s = (Inr SF_RESCHEDULE, t) \<and> guarded a E t)"
proof (cases "t_func (timers s (Obj_timer a 0)) = Some Digital_load_event")
  case True
  then show ?thesis using assms
    by (simp add: digital_timer_def run_simps guarded_def digital_load_event_def shutdown_def)
next
  case False
  then have f: "t_func (timers s (Obj_timer a 0)) = Some Digital_toggle_event" using assms by (auto simp: guarded_def)
  obtain t where "digital_toggle_event a s = (Inr SF_RESCHEDULE, t)" "guarded a E t"
    by (rule digital_toggle_guarded [OF assms f])
  then show ?thesis using f by (simp add: digital_timer_def run_simps)
qed

lemma digital_events_guarded:
  assumes "guarded a E s"
  shows "fst (run_events (digital_timer a) n s) = Inl (Shutdown ''Missed scheduling of next digital out event'')
    \<or> (\<exists>t. run_events (digital_timer a) n s = (Inr (), t) \<and> guarded a E t)"
  using assms
proof (induction n arbitrary: s)
  case (Suc n)
  from digital_timer_guarded [OF Suc.prems] show ?case
  proof (elim disjE exE conjE)
    fix t assume "digital_timer a s = (Inr SF_RESCHEDULE, t)" "guarded a E t"
    then show ?thesis using Suc.IH [of t] by (simp add: run_simps)
  next
    assume "fst (digital_timer a s) = Inl (Shutdown ''Missed scheduling of next digital out event'')"
    then show ?thesis by (cases "digital_timer a s") (simp add: run_simps)
  qed
qed simp

lemma digital_limit_active:
  assumes "d_max_duration d \<noteq> 0" "(dur = 0) \<noteq> (d_flags d AND DF_DEFAULT_ON = 0) \<or> (dur \<noteq> 0 \<and> dur < d_cycle_time d)"
  obtains fl where "digital_limit d wt dur = (wt + d_max_duration d, fl)" "fl AND DF_CHECK_END \<noteq> 0"
proof (rule that [of "snd (digital_limit d wt dur)"])
  show "digital_limit d wt dur = (wt + d_max_duration d, snd (digital_limit d wt dur))"
    "snd (digital_limit d wt dur) AND DF_CHECK_END \<noteq> 0"
    using assms by (auto simp: digital_limit_def Let_def digital_flags)
qed

lemma digital_schedule_guarded:
  assumes "fl AND DF_CHECK_END \<noteq> 0" "d_end_time (douts s a) = E" "d_flags (douts s a) AND DF_CHECK_END \<noteq> 0"
    and "move_queue_empty (d_mq (douts s a))" "t_func (timers s (Obj_timer a 0)) = Some Digital_load_event"
  obtains t where "digital_schedule a dur E fl s = (Inr SF_RESCHEDULE, t)" "guarded a E t"
  using assms that [of "snd (digital_schedule a dur E fl s)"]
  by (auto simp: digital_schedule_def run_simps guarded_def set_do_def set_func_def set_wake_def split: if_splits)

lemma digital_load_run:
  assumes q: "queue_nodes s (d_mq (douts s a)) [n]"
    and l: "digital_limit (douts s a) (waketime s (Obj_timer a 0)) (dm_on_duration (dmoves s n)) = (E, fl)"
  obtains t where "digital_load_event a s = digital_schedule a (dm_on_duration (dmoves s n)) E fl t" "timers t = timers s"
    "douts t a = (douts s a)\<lparr>d_mq := (d_mq (douts s a))\<lparr>mq_first := None\<rparr>, d_end_time := E,
       d_flags := fl OR (d_flags (douts s a) AND DF_DEFAULT_ON)\<rparr>"
proof -
  have ne: "\<not> move_queue_empty (d_mq (douts s a))" using queue_nodes_empty [OF q] by simp
  have "queue_nodes s ((d_mq (douts s a))\<lparr>mq_first := mnext s n\<rparr>) []" using move_queue_pop_run(2) [OF q] .
  then have mn: "mnext s n = None" by (simp add: queue_nodes_def)
  have dl: "digital_limit ((douts s a)\<lparr>d_mq := m\<rparr>) w d = digital_limit (douts s a) w d" for m w d
    by (simp add: digital_limit_def)
  show thesis
    using ne mn l that
    by (simp add: digital_load_event_def run_simps move_queue_pop_run(1) [OF q] move_free_run set_mnext_def set_do_def
        gpio_out_write_def move_queue_first_def dl)
qed

lemma digital_load_guarded:
  assumes "queue_nodes s (d_mq (douts s a)) [n]" "d_max_duration (douts s a) \<noteq> 0"
    and "t_func (timers s (Obj_timer a 0)) = Some Digital_load_event"
    and "(dm_on_duration (dmoves s n) = 0) \<noteq> (d_flags (douts s a) AND DF_DEFAULT_ON = 0)
      \<or> dm_on_duration (dmoves s n) \<noteq> 0 \<and> dm_on_duration (dmoves s n) < d_cycle_time (douts s a)"
  obtains t where "digital_load_event a s = (Inr SF_RESCHEDULE, t)"
    "guarded a (waketime s (Obj_timer a 0) + d_max_duration (douts s a)) t"
proof -
  let ?E = "waketime s (Obj_timer a 0) + d_max_duration (douts s a)"
  obtain fl where l: "digital_limit (douts s a) (waketime s (Obj_timer a 0)) (dm_on_duration (dmoves s n)) = (?E, fl)"
      "fl AND DF_CHECK_END \<noteq> 0"
    by (rule digital_limit_active [OF assms(2,4)])
  obtain u where u: "digital_load_event a s = digital_schedule a (dm_on_duration (dmoves s n)) ?E fl u" "timers u = timers s"
    "douts u a = (douts s a)\<lparr>d_mq := (d_mq (douts s a))\<lparr>mq_first := None\<rparr>, d_end_time := ?E,
       d_flags := fl OR (d_flags (douts s a) AND DF_DEFAULT_ON)\<rparr>"
    by (rule digital_load_run [OF assms(1) l(1)])
  have "(fl OR (d_flags (douts s a) AND DF_DEFAULT_ON)) AND DF_CHECK_END = fl AND DF_CHECK_END OR d_flags (douts s a) AND (DF_DEFAULT_ON AND DF_CHECK_END)"
    by (simp add: bit_eq_iff bit_simps) blast
  then have "(fl OR (d_flags (douts s a) AND DF_DEFAULT_ON)) AND DF_CHECK_END \<noteq> 0"
    using l(2) by (simp add: digital_flags)
  then show thesis
    using digital_schedule_guarded [OF l(2), of u a ?E "dm_on_duration (dmoves s n)" thesis] u assms(3) that
    by (simp add: move_queue_empty_def)
qed

section \<open>Properties\<close>


definition douts_static :: douts where
  "douts_static = endstops.extend endstops_static \<lparr>douts = (\<lambda>_. zero_dout), dmoves = (\<lambda>_. \<lparr>dm_waketime = 0, dm_on_duration = 0\<rparr>)\<rparr>"

lemmas douts_static_simps = endstops_static_simps douts_static_def endstops.extend_def

definition example_dout :: douts where
  "example_dout = douts_static\<lparr>douts := (\<lambda>_. zero_dout\<lparr>d_mq := \<lparr>mq_first = Some 6000, mq_last = Some 6000\<rparr>, d_cycle_time := 50,
      d_max_duration := 100\<rparr>), dmoves := (\<lambda>_. \<lparr>dm_waketime = 5000, dm_on_duration = 20\<rparr>),
     timers := (timers douts_static)(Obj_timer 5500 0 := \<lparr>t_next = None, t_func = Some Digital_load_event, t_wake = 5000\<rparr>)\<rparr>"


end
