(* ===== verification/Pwmcmds.thy ===== *)
theory Pwmcmds
  imports Gpiocmds
begin

text \<open>
  Hardware PWM pins, \<open>src/src/pwmcmds.c\<close>.  The PWM peripheral is the log of the duty cycles
  written to it; \<open>pwm_pin_ok\<close> says which pins the board can drive.
\<close>

section \<open>State\<close>

record pwm_move =
  pm_waketime :: u32
  pm_value :: u16

record pwm_out_s =
  p_pin :: u32
  p_max_duration :: u32
  p_default_value :: u16
  p_mq :: move_queue_head

record pwms = douts +
  pwms :: "nat \<Rightarrow> pwm_out_s"
  pmoves :: "nat \<Rightarrow> pwm_move"
  pwm_pin_ok :: "u32 \<Rightarrow> bool"
  pwm_log :: "(u32 \<times> u16) list"

definition SIZEOF_pwm_out :: nat where "SIZEOF_pwm_out = 36"
definition SIZEOF_pwm_move :: nat where "SIZEOF_pwm_move = 12"

definition set_pw :: "nat \<Rightarrow> (pwm_out_s \<Rightarrow> pwm_out_s) \<Rightarrow> 's pwms_scheme \<Rightarrow> 's pwms_scheme" where
  "set_pw a f s = s\<lparr>pwms := (pwms s)(a := f (pwms s a))\<rparr>"

definition zero_pwm :: pwm_out_s where
  "zero_pwm = \<lparr>p_pin = 0, p_max_duration = 0, p_default_value = 0, p_mq = \<lparr>mq_first = None, mq_last = None\<rparr>\<rparr>"

text \<open>The board's interface: writing a duty cycle, and setting a pin up with one.\<close>

definition gpio_pwm_write :: "u32 \<Rightarrow> u16 \<Rightarrow> ('s pwms_scheme, unit) cmd" where
  "gpio_pwm_write pin val = modify (\<lambda>s. s\<lparr>pwm_log := pwm_log s @ [(pin, val)]\<rparr>)"

definition gpio_pwm_setup :: "u32 \<Rightarrow> u32 \<Rightarrow> u16 \<Rightarrow> ('s pwms_scheme, u32) cmd" where
  "gpio_pwm_setup pin cycle_time val = mbind (gets (\<lambda>s. pwm_pin_ok s pin)) (\<lambda>ok.
     if \<not> ok then shutdown ''gpio_pwm_setup'' ''Not a valid PWM pin''
     else mseq (gpio_pwm_write pin val) (ret pin))"

section \<open>Events\<close>

definition pwm_end_event :: "nat \<Rightarrow> ('s pwms_scheme, sf) cmd" where
  "pwm_end_event a = shutdown ''pwm_end_event'' ''Missed scheduling of next hard pwm event''"

definition pwm_event :: "nat \<Rightarrow> ('s pwms_scheme, sf) cmd" where
  "pwm_event a = mbind (gets (\<lambda>s. p_mq (pwms s a))) (\<lambda>mq.
     mbind (move_queue_pop mq) (\<lambda>(mn, mq').
     mseq (modify (set_pw a (\<lambda>p. p\<lparr>p_mq := mq'\<rparr>))) (
     mbind (gets (\<lambda>s. pm_value (pmoves s mn))) (\<lambda>val.
     mbind (gets (\<lambda>s. pwms s a)) (\<lambda>p.
     mseq (gpio_pwm_write (p_pin p) val) (
     mseq (move_free mn) (
     mbind (gets (\<lambda>s. waketime s (Obj_timer a 0))) (\<lambda>wt.
     case move_queue_first mq' of
       None \<Rightarrow>
         if val = p_default_value p \<or> p_max_duration p = 0 then ret SF_DONE
         else mseq (modify (set_wake (Obj_timer a 0) (wt + p_max_duration p))) (
              mseq (modify (set_func (Obj_timer a 0) (Some Pwm_end_event))) (ret SF_RESCHEDULE))
     | Some nn \<Rightarrow>
         mbind (gets (\<lambda>s. pm_waketime (pmoves s nn))) (\<lambda>wake.
         if val \<noteq> p_default_value p \<and> p_max_duration p \<noteq> 0 \<and> timer_is_before (wt + p_max_duration p) wake
         then shutdown ''pwm_event'' ''Scheduled pwm event will exceed max_duration''
         else mseq (modify (set_wake (Obj_timer a 0) wake)) (ret SF_RESCHEDULE))))))))))"

section \<open>Commands\<close>

definition command_config_pwm_out :: "u32 list \<Rightarrow> ('s pwms_scheme, unit) cmd" where
  "command_config_pwm_out args =
     mbind (gpio_pwm_setup (args ! 1) (args ! 2) (ucast (args ! 3))) (\<lambda>pin.
     mbind (oid_alloc (ucast (args ! 0)) Oid_pwm_out SIZEOF_pwm_out) (\<lambda>a.
     mseq (modify (\<lambda>s. set_pw a (\<lambda>_. zero_pwm) (zero_timer (Obj_timer a 0) s))) (
     mseq (modify (set_pw a (\<lambda>p. p\<lparr>p_pin := pin, p_default_value := ucast (args ! 4),
             p_max_duration := args ! 5\<rparr>))) (
     mseq (modify (set_func (Obj_timer a 0) (Some Pwm_event))) (
     mbind (move_queue_setup SIZEOF_pwm_move) (\<lambda>mq.
     modify (set_pw a (\<lambda>p. p\<lparr>p_mq := mq\<rparr>))))))))"

definition command_queue_pwm_out :: "u32 list \<Rightarrow> ('s pwms_scheme, unit) cmd" where
  "command_queue_pwm_out args =
     mbind (mbind (oid_lookup ''command_queue_pwm_out'' (ucast (args ! 0)) Oid_pwm_out) deref) (\<lambda>a.
     mbind move_alloc (\<lambda>n.
     let time = args ! 1 in
     mseq (modify (\<lambda>s. s\<lparr>pmoves := (pmoves s)(n := \<lparr>pm_waketime = time, pm_value = ucast (args ! 2)\<rparr>)\<rparr>)) (
     mbind (gets (\<lambda>s. p_mq (pwms s a))) (\<lambda>mq.
     mbind (move_queue_push n mq) (\<lambda>(need_add_timer, mq').
     mseq (modify (set_pw a (\<lambda>p. p\<lparr>p_mq := mq'\<rparr>))) (
     if \<not> need_add_timer then ret ()
     else
       mseq (sched_del_timer (Obj_timer a 0)) (
       mbind (gets (\<lambda>s. timers s (Obj_timer a 0))) (\<lambda>tm.
       if t_func tm = Some Pwm_end_event \<and> timer_is_before (t_wake tm) time
       then shutdown ''command_queue_pwm_out'' ''Scheduled pwm event will exceed max_duration''
       else
         mseq (modify (set_func (Obj_timer a 0) (Some Pwm_event))) (
         mseq (modify (set_wake (Obj_timer a 0) time))
         (sched_add_timer ''command_queue_pwm_out'' (Obj_timer a 0)))))))))))"

definition pwm_shutdown :: "('s pwms_scheme, unit) cmd" where
  "pwm_shutdown = foreach_oid Oid_pwm_out (\<lambda>i a.
     mbind (gets (\<lambda>s. pwms s a)) (\<lambda>p.
     mseq (gpio_pwm_write (p_pin p) (p_default_value p)) (
     mseq (modify (set_func (Obj_timer a 0) (Some Pwm_event)))
     (modify (set_pw a (\<lambda>p. p\<lparr>p_mq := move_queue_clear (p_mq p)\<rparr>))))))"

definition command_set_pwm_out :: "u32 list \<Rightarrow> ('s pwms_scheme, unit) cmd" where
  "command_set_pwm_out args = mbind (gpio_pwm_setup (args ! 0) (args ! 1) (ucast (args ! 2))) (\<lambda>_. ret ())"

text \<open>The outputs before anything is configured.\<close>

definition pwms_static :: pwms where
  "pwms_static = douts.extend douts_static \<lparr>pwms = (\<lambda>_. zero_pwm), pmoves = (\<lambda>_. \<lparr>pm_waketime = 0, pm_value = 0\<rparr>),
     pwm_pin_ok = (\<lambda>_. True), pwm_log = []\<rparr>"

lemmas pwms_static_simps = douts_static_simps pwms_static_def douts.extend_def

end
