(* ===== verification/Adccmds.thy ===== *)
theory Adccmds
  imports Pwmcmds
begin

text \<open>
  Analog inputs, \<open>src/src/adccmds.c\<close>.  The converter is a stream of the results of
  \<open>gpio_adc_sample\<close> (a delay, 0 when a sample is ready) and a stream of sampled values.
\<close>

section \<open>State\<close>

record analog_in =
  a_rest_time :: u32
  a_sample_time :: u32
  a_next_begin_time :: u32
  a_value :: u16
  a_min_value :: u16
  a_max_value :: u16
  a_pin :: u32
  a_invalid_count :: u8
  a_range_check_count :: u8
  a_state :: u8
  a_sample_count :: u8

record adcs = pwms +
  adcs :: "nat \<Rightarrow> analog_in"
  adc_pin_ok :: "u32 \<Rightarrow> bool"
  adc_delay :: "nat \<Rightarrow> u32"
  adc_delay_n :: nat
  adc_val :: "nat \<Rightarrow> u16"
  adc_val_n :: nat
  adc_cancels :: nat

definition SIZEOF_analog_in :: nat where "SIZEOF_analog_in = 44"

definition set_ai :: "nat \<Rightarrow> (analog_in \<Rightarrow> analog_in) \<Rightarrow> 's adcs_scheme \<Rightarrow> 's adcs_scheme" where
  "set_ai a f s = s\<lparr>adcs := (adcs s)(a := f (adcs s a))\<rparr>"

definition zero_analog_in :: analog_in where
  "zero_analog_in = \<lparr>a_rest_time = 0, a_sample_time = 0, a_next_begin_time = 0, a_value = 0, a_min_value = 0,
     a_max_value = 0, a_pin = 0, a_invalid_count = 0, a_range_check_count = 0, a_state = 0, a_sample_count = 0\<rparr>"

text \<open>The board's interface to the converter.\<close>

definition gpio_adc_setup :: "u32 \<Rightarrow> ('s adcs_scheme, u32) cmd" where
  "gpio_adc_setup pin = mbind (gets (\<lambda>s. adc_pin_ok s pin)) (\<lambda>ok.
     if \<not> ok then shutdown ''gpio_adc_setup'' ''Not a valid ADC pin'' else ret pin)"

definition gpio_adc_sample :: "u32 \<Rightarrow> ('s adcs_scheme, u32) cmd" where
  "gpio_adc_sample pin = mbind (gets (\<lambda>s. adc_delay s (adc_delay_n s))) (\<lambda>d.
     mseq (modify (\<lambda>s. s\<lparr>adc_delay_n := Suc (adc_delay_n s)\<rparr>)) (ret d))"

definition gpio_adc_read :: "u32 \<Rightarrow> ('s adcs_scheme, u16) cmd" where
  "gpio_adc_read pin = mbind (gets (\<lambda>s. adc_val s (adc_val_n s))) (\<lambda>v.
     mseq (modify (\<lambda>s. s\<lparr>adc_val_n := Suc (adc_val_n s)\<rparr>)) (ret v))"

definition gpio_adc_cancel_sample :: "u32 \<Rightarrow> ('s adcs_scheme, unit) cmd" where
  "gpio_adc_cancel_sample pin = modify (\<lambda>s. s\<lparr>adc_cancels := Suc (adc_cancels s)\<rparr>)"

section \<open>Sampling\<close>

text \<open>The range check on a complete sum of samples.\<close>

definition analog_range_check :: "nat \<Rightarrow> ('s adcs_scheme, unit) cmd" where
  "analog_range_check a = mbind (gets (\<lambda>s. adcs s a)) (\<lambda>ai.
     if a_value ai \<ge> a_min_value ai \<and> a_value ai \<le> a_max_value ai
     then modify (set_ai a (\<lambda>ai. ai\<lparr>a_invalid_count := 0\<rparr>))
     else mseq (modify (set_ai a (\<lambda>ai. ai\<lparr>a_invalid_count := a_invalid_count ai + 1\<rparr>)))
       (mwhen (a_invalid_count ai + 1 \<ge> a_range_check_count ai)
          (mseq (sched_try_shutdown ''analog_in_event'' ''ADC out of range'')
             (modify (set_ai a (\<lambda>ai. ai\<lparr>a_invalid_count := 0\<rparr>))))))"

definition analog_in_event :: "nat \<Rightarrow> ('s adcs_scheme, sf) cmd" where
  "analog_in_event a = mbind (gets (\<lambda>s. adcs s a)) (\<lambda>ai.
     mbind (gpio_adc_sample (a_pin ai)) (\<lambda>sample_delay.
     if sample_delay \<noteq> 0 then
       mseq (modify (\<lambda>s. set_wake (Obj_timer a 0) (waketime s (Obj_timer a 0) + sample_delay) s)) (ret SF_RESCHEDULE)
     else
       mbind (gpio_adc_read (a_pin ai)) (\<lambda>v.
       let fresh = a_state ai \<ge> a_sample_count ai;
           state = (if fresh then 0 else a_state ai);
           val = (if fresh then v else v + a_value ai)
       in mseq (modify (set_ai a (\<lambda>ai. ai\<lparr>a_value := val, a_state := state + 1\<rparr>))) (
       if state + 1 < a_sample_count ai then
         mseq (modify (\<lambda>s. set_wake (Obj_timer a 0) (waketime s (Obj_timer a 0) + a_sample_time ai) s)) (ret SF_RESCHEDULE)
       else
         mseq (analog_range_check a) (
         mseq (sched_wake_task Analog_wake) (
         mseq (modify (set_ai a (\<lambda>ai. ai\<lparr>a_next_begin_time := a_next_begin_time ai + a_rest_time ai\<rparr>))) (
         mseq (modify (\<lambda>s. set_wake (Obj_timer a 0) (a_next_begin_time (adcs s a)) s))
         (ret SF_RESCHEDULE))))))))"

section \<open>Commands and tasks\<close>

definition command_config_analog_in :: "u32 list \<Rightarrow> ('s adcs_scheme, unit) cmd" where
  "command_config_analog_in args = mbind (gpio_adc_setup (args ! 1)) (\<lambda>pin.
     mbind (oid_alloc (ucast (args ! 0)) Oid_analog_in SIZEOF_analog_in) (\<lambda>a.
     mseq (modify (\<lambda>s. set_ai a (\<lambda>_. zero_analog_in) (zero_timer (Obj_timer a 0) s))) (
     mseq (modify (set_func (Obj_timer a 0) (Some Analog_in_event)))
     (modify (set_ai a (\<lambda>ai. ai\<lparr>a_pin := pin, a_state := 1\<rparr>))))))"

definition command_query_analog_in :: "u32 list \<Rightarrow> ('s adcs_scheme, unit) cmd" where
  "command_query_analog_in args =
     mbind (mbind (oid_lookup ''command_query_analog_in'' (ucast (args ! 0)) Oid_analog_in) deref) (\<lambda>a.
     mseq (sched_del_timer (Obj_timer a 0)) (
     mseq (mbind (gets (\<lambda>s. a_pin (adcs s a))) gpio_adc_cancel_sample) (
     mseq (modify (set_wake (Obj_timer a 0) (args ! 1))) (
     mseq (modify (set_ai a (\<lambda>ai. ai\<lparr>a_next_begin_time := args ! 1, a_sample_time := args ! 2,
             a_sample_count := ucast (args ! 3), a_state := ucast (args ! 3) + 1, a_rest_time := args ! 4,
             a_min_value := ucast (args ! 5), a_max_value := ucast (args ! 6),
             a_range_check_count := ucast (args ! 7)\<rparr>))) (
     if (ucast (args ! 3) :: u8) = 0 then ret ()
     else sched_add_timer ''command_query_analog_in'' (Obj_timer a 0))))))"

definition analog_in_task_one :: "u8 \<Rightarrow> nat \<Rightarrow> ('s adcs_scheme, unit) cmd" where
  "analog_in_task_one oid a = mbind (gets (\<lambda>s. adcs s a)) (\<lambda>ai.
     if a_state ai \<noteq> a_sample_count ai then ret ()
     else mseq (modify (set_ai a (\<lambda>ai. ai\<lparr>a_state := a_state ai + 1\<rparr>)))
       (sendf ''analog_in_state oid=%c next_clock=%u value=%hu''
          [U (ucast oid), U (a_next_begin_time ai), U (ucast (a_value ai))]))"

definition analog_in_task :: "('s adcs_scheme, unit) cmd" where
  "analog_in_task = mbind (sched_check_wake Analog_wake) (\<lambda>w. mwhen w (foreach_oid Oid_analog_in analog_in_task_one))"

definition analog_in_shutdown :: "('s adcs_scheme, unit) cmd" where
  "analog_in_shutdown = foreach_oid Oid_analog_in (\<lambda>i a.
     mseq (mbind (gets (\<lambda>s. a_pin (adcs s a))) gpio_adc_cancel_sample) (
     mbind (gets (\<lambda>s. a_sample_count (adcs s a))) (\<lambda>sc.
     mwhen (sc \<noteq> 0) (
       mseq (modify (set_ai a (\<lambda>ai. ai\<lparr>a_state := a_sample_count ai + 1,
               a_next_begin_time := a_next_begin_time ai + a_rest_time ai\<rparr>))) (
       mseq (modify (\<lambda>s. set_wake (Obj_timer a 0) (a_next_begin_time (adcs s a)) s))
       (sched_add_timer ''analog_in_shutdown'' (Obj_timer a 0)))))))"

text \<open>The analog inputs before anything is configured.\<close>

definition adcs_static :: adcs where
  "adcs_static = pwms.extend pwms_static \<lparr>adcs = (\<lambda>_. zero_analog_in), adc_pin_ok = (\<lambda>_. True), adc_delay = (\<lambda>_. 0),
     adc_delay_n = 0, adc_val = (\<lambda>_. 0), adc_val_n = 0, adc_cancels = 0\<rparr>"

lemmas adcs_static_simps = pwms_static_simps adcs_static_def pwms.extend_def

end
