(* ===== verification/Buttons.thy ===== *)
theory Buttons
  imports Adccmds
begin

text \<open>
  User interface buttons, \<open>src/src/buttons.c\<close>.  The flexible array \<open>pins\<close> is a list whose length
  is the \<open>button_count\<close> the object was allocated for; \<open>reports\<close> is a list of eight bytes.
\<close>

section \<open>State\<close>

record buttons_s =
  b_rest_ticks :: u32
  b_pressed :: u8
  b_last_pressed :: u8
  b_report_count :: u8
  b_reports :: "u8 list"
  b_ack_count :: u8
  b_retransmit_state :: u8
  b_retransmit_count :: u8
  b_button_count :: u8
  b_pins :: "u32 list"

record buttons = adcs +
  buttons :: "nat \<Rightarrow> buttons_s"

definition BF_NO_RETRANSMIT :: u8 where "BF_NO_RETRANSMIT = 0x80"
definition BF_PENDING :: u8 where "BF_PENDING = 0xff"
definition BF_ACKED :: u8 where "BF_ACKED = 0xfe"

lemmas button_flags = BF_NO_RETRANSMIT_def BF_PENDING_def BF_ACKED_def

definition SIZEOF_buttons :: nat where "SIZEOF_buttons = 32"
definition SIZEOF_gpio_in :: nat where "SIZEOF_gpio_in = 8"

definition set_bt :: "nat \<Rightarrow> (buttons_s \<Rightarrow> buttons_s) \<Rightarrow> 's buttons_scheme \<Rightarrow> 's buttons_scheme" where
  "set_bt a f s = s\<lparr>buttons := (buttons s)(a := f (buttons s a))\<rparr>"

definition zero_buttons :: "nat \<Rightarrow> buttons_s" where
  "zero_buttons n = \<lparr>b_rest_ticks = 0, b_pressed = 0, b_last_pressed = 0, b_report_count = 0,
     b_reports = replicate 8 0, b_ack_count = 0, b_retransmit_state = 0, b_retransmit_count = 0,
     b_button_count = 0, b_pins = replicate n 0\<rparr>"

section \<open>Events\<close>

text \<open>The loop that reads the pins into a bit mask; \<open>i\<close> counts up to \<open>button_count\<close>.\<close>

fun buttons_read :: "u32 list \<Rightarrow> u8 \<Rightarrow> u8 \<Rightarrow> ('s hw_scheme, u8) cmd" where
  "buttons_read [] bt status = ret status"
| "buttons_read (p # ps) bt status = mbind (gpio_in_read p) (\<lambda>v.
     buttons_read ps (push_bit 1 bt) (if v then status OR bt else status))"

text \<open>Debouncing: the new state of \<open>pressed\<close>, or none when nothing is to be reported.\<close>

definition debounce :: "u8 \<Rightarrow> u8 \<Rightarrow> u8 \<Rightarrow> u8 option" where
  "debounce pressed last_pressed status =
     (let diff = status XOR pressed;
          debounced = NOT (status XOR last_pressed)
      in if diff \<noteq> 0 \<and> diff AND debounced \<noteq> 0
         then Some ((pressed AND NOT debounced) OR (status AND debounced)) else None)"

definition buttons_event :: "nat \<Rightarrow> ('s buttons_scheme, sf) cmd" where
  "buttons_event a = mbind (gets (\<lambda>s. buttons s a)) (\<lambda>b.
     if unat (b_button_count b) > length (b_pins b) then fail (Fault ''pins array overflow'')
     else
       mbind (buttons_read (take (unat (b_button_count b)) (b_pins b)) 1 0) (\<lambda>status.
       mseq (case debounce (b_pressed b) (b_last_pressed b) status of
           None \<Rightarrow> ret ()
         | Some p \<Rightarrow>
             mseq (modify (set_bt a (\<lambda>b. b\<lparr>b_pressed := p\<rparr>)))
             (mwhen (b_report_count b < 8)
                (if unat (b_report_count b) \<ge> length (b_reports b) then fail (Fault ''reports array overflow'')
                 else
                   mseq (modify (set_bt a (\<lambda>b. b\<lparr>b_reports := (b_reports b)[unat (b_report_count b) := p],
                           b_report_count := b_report_count b + 1\<rparr>))) (
                   mseq (sched_wake_task Buttons_wake)
                   (modify (set_bt a (\<lambda>b. b\<lparr>b_retransmit_state := BF_PENDING\<rparr>))))))) (
       mseq (modify (set_bt a (\<lambda>b. b\<lparr>b_last_pressed := status\<rparr>))) (
       mbind (gets (\<lambda>s. b_retransmit_state (buttons s a))) (\<lambda>rs.
       mseq (mwhen (rs AND BF_NO_RETRANSMIT = 0)
               (mseq (mwhen ((rs - 1) AND BF_NO_RETRANSMIT \<noteq> 0) (sched_wake_task Buttons_wake))
                  (modify (set_bt a (\<lambda>b. b\<lparr>b_retransmit_state := rs - 1\<rparr>))))) (
       mseq (modify (\<lambda>s. set_wake (Obj_timer a 0) (waketime s (Obj_timer a 0) + b_rest_ticks (buttons s a)) s))
       (ret SF_RESCHEDULE)))))))"

section \<open>Commands and tasks\<close>

definition command_config_buttons :: "u32 list \<Rightarrow> ('s buttons_scheme, unit) cmd" where
  "command_config_buttons args =
     (let button_count = ucast (args ! 1) :: u8 in
      if button_count > 8 then shutdown ''command_config_buttons'' ''Max of 8 buttons''
      else mbind (oid_alloc (ucast (args ! 0)) Oid_buttons (SIZEOF_buttons + SIZEOF_gpio_in * unat button_count)) (\<lambda>a.
        mseq (modify (\<lambda>s. set_bt a (\<lambda>_. zero_buttons (unat button_count)) (zero_timer (Obj_timer a 0) s))) (
        mseq (modify (set_bt a (\<lambda>b. b\<lparr>b_button_count := button_count\<rparr>)))
        (modify (set_func (Obj_timer a 0) (Some Buttons_event))))))"

definition buttons_lookup :: "string \<Rightarrow> u32 \<Rightarrow> ('s buttons_scheme, nat) cmd" where
  "buttons_lookup func oid = mbind (oid_lookup func (ucast oid) Oid_buttons) deref"

definition command_buttons_add :: "u32 list \<Rightarrow> ('s buttons_scheme, unit) cmd" where
  "command_buttons_add args = mbind (buttons_lookup ''command_buttons_add'' (args ! 0)) (\<lambda>a.
     let pos = ucast (args ! 1) :: u8 in
     mbind (gets (\<lambda>s. b_button_count (buttons s a))) (\<lambda>bc.
     if pos \<ge> bc then shutdown ''command_buttons_add'' ''Set button past maximum button count''
     else mbind (gpio_in_setup (args ! 2) (sint (args ! 3))) (\<lambda>pin.
       mbind (gets (\<lambda>s. length (b_pins (buttons s a)))) (\<lambda>n.
       if unat pos \<ge> n then fail (Fault ''pins array overflow'')
       else modify (set_bt a (\<lambda>b. b\<lparr>b_pins := (b_pins b)[unat pos := pin]\<rparr>))))))"

definition command_buttons_query :: "u32 list \<Rightarrow> ('s buttons_scheme, unit) cmd" where
  "command_buttons_query args = mbind (buttons_lookup ''command_buttons_query'' (args ! 0)) (\<lambda>a.
     mseq (sched_del_timer (Obj_timer a 0)) (
     mseq (modify (set_wake (Obj_timer a 0) (args ! 1))) (
     mseq (modify (set_bt a (\<lambda>b. b\<lparr>b_rest_ticks := args ! 2, b_pressed := ucast (args ! 4),
             b_last_pressed := ucast (args ! 4), b_ack_count := 0, b_report_count := 0,
             b_retransmit_state := BF_ACKED, b_retransmit_count := ucast (args ! 3)\<rparr>))) (
     if (ucast (args ! 3) :: u8) \<ge> BF_NO_RETRANSMIT
     then shutdown ''command_buttons_query'' ''Invalid buttons retransmit count''
     else if args ! 2 = 0 then ret ()
     else sched_add_timer ''command_buttons_query'' (Obj_timer a 0)))))"

text \<open>The loop that moves the reports not yet acknowledged to the front.\<close>

definition shift_reports :: "u8 list \<Rightarrow> nat \<Rightarrow> nat \<Rightarrow> u8 list" where
  "shift_reports rs cnt npending = fold (\<lambda>i r. r[i := r ! (i + cnt)]) [0..<npending] rs"

definition command_buttons_ack :: "u32 list \<Rightarrow> ('s buttons_scheme, unit) cmd" where
  "command_buttons_ack args = mbind (buttons_lookup ''command_buttons_ack'' (args ! 0)) (\<lambda>a.
     let cnt = ucast (args ! 1) :: u8 in
     mseq (modify (set_bt a (\<lambda>b. b\<lparr>b_ack_count := b_ack_count b + cnt\<rparr>))) (
     mbind (gets (\<lambda>s. buttons s a)) (\<lambda>b.
     if cnt \<ge> b_report_count b
     then modify (set_bt a (\<lambda>b. b\<lparr>b_report_count := 0, b_retransmit_state := BF_ACKED\<rparr>))
     else let npending = b_report_count b - cnt in
       if unat (b_report_count b) > length (b_reports b) then fail (Fault ''reports array overflow'')
       else modify (set_bt a (\<lambda>b. b\<lparr>b_reports := shift_reports (b_reports b) (unat cnt) (unat npending),
              b_report_count := npending\<rparr>)))))"

definition buttons_task_one :: "u8 \<Rightarrow> nat \<Rightarrow> ('s buttons_scheme, unit) cmd" where
  "buttons_task_one oid a = mbind (gets (\<lambda>s. buttons s a)) (\<lambda>b.
     if b_retransmit_state b \<noteq> BF_PENDING \<or> b_report_count b = 0 then ret ()
     else if unat (b_report_count b) > length (b_reports b) then fail (Fault ''reports array overflow'')
     else mseq (modify (set_bt a (\<lambda>b. b\<lparr>b_retransmit_state := b_retransmit_count b\<rparr>)))
       (sendf ''buttons_state oid=%c ack_count=%c state=%*s''
          [U (ucast oid), U (ucast (b_ack_count b)), Buf (take (unat (b_report_count b)) (b_reports b))]))"

definition buttons_task :: "('s buttons_scheme, unit) cmd" where
  "buttons_task = mbind (sched_check_wake Buttons_wake) (\<lambda>w. mwhen w (foreach_oid Oid_buttons buttons_task_one))"

text \<open>The buttons before anything is configured.\<close>

definition buttons_static :: buttons where
  "buttons_static = adcs.extend adcs_static \<lparr>buttons = (\<lambda>_. zero_buttons 0)\<rparr>"

lemmas buttons_static_simps = adcs_static_simps buttons_static_def adcs.extend_def

section \<open>The queue of reports\<close>

text \<open>The reports that the host has not acknowledged, the oldest first.\<close>

definition unacked :: "buttons_s \<Rightarrow> u8 list" where
  "unacked b = take (unat (b_report_count b)) (b_reports b)"

definition buttons_inv :: "buttons_s \<Rightarrow> bool" where
  "buttons_inv b \<longleftrightarrow> length (b_reports b) = 8 \<and> unat (b_report_count b) \<le> 8 \<and> unat (b_button_count b) \<le> length (b_pins b)"

text \<open>The pins as a bit mask: bit \<open>i\<close> is the level of pin \<open>i\<close>.\<close>

fun pin_mask :: "(u32 \<Rightarrow> bool) list \<Rightarrow> u32 list \<Rightarrow> u8 \<Rightarrow> u8 \<Rightarrow> u8" where
  "pin_mask (r # rs) (p # ps) bt status = pin_mask rs ps (push_bit 1 bt) (if r p then status OR bt else status)"
| "pin_mask _ _ bt status = status"

lemma buttons_read_run:
  "buttons_read ps bt status s = (Inr (pin_mask (map (\<lambda>i. gpio_idr s (idr_n s + i)) [0..<length ps]) ps bt status),
     s\<lparr>idr_n := idr_n s + length ps\<rparr>)"
proof (induction ps arbitrary: bt status s)
  case (Cons p ps)
  have "map (\<lambda>i. gpio_idr s (idr_n s + i)) [0..<length (p # ps)]
      = gpio_idr s (idr_n s) # map (\<lambda>i. gpio_idr s (Suc (idr_n s) + i)) [0..<length ps]"
    by (simp add: upt_conv_Cons map_Suc_upt [symmetric] del: upt_Suc)
  then show ?case using Cons [of _ _ "s\<lparr>idr_n := Suc (idr_n s)\<rparr>"] by (simp add: run_simps gpio_in_read_def del: upt_Suc)
qed simp

text \<open>The loop of the acknowledgement drops the oldest reports.\<close>

lemma shift_reports_nth:
  assumes "cnt + n \<le> length rs"
  shows "length (shift_reports rs cnt n) = length rs \<and> (\<forall>j. j < n \<longrightarrow> shift_reports rs cnt n ! j = rs ! (j + cnt))
    \<and> (\<forall>j. n \<le> j \<longrightarrow> j < length rs \<longrightarrow> shift_reports rs cnt n ! j = rs ! j)"
  using assms
proof (induction n)
  case 0
  then show ?case by (simp add: shift_reports_def)
next
  case (Suc n)
  then have IH: "length (shift_reports rs cnt n) = length rs" "\<forall>j. j < n \<longrightarrow> shift_reports rs cnt n ! j = rs ! (j + cnt)"
     "\<forall>j. n \<le> j \<longrightarrow> j < length rs \<longrightarrow> shift_reports rs cnt n ! j = rs ! j" by simp_all
  have "shift_reports rs cnt (Suc n) = (shift_reports rs cnt n)[n := shift_reports rs cnt n ! (n + cnt)]"
    by (simp add: shift_reports_def)
  also have "shift_reports rs cnt n ! (n + cnt) = rs ! (n + cnt)" using IH(3) Suc.prems by auto
  finally show ?case using IH Suc.prems by (auto simp: nth_list_update less_Suc_eq)
qed

lemma shift_reports_drop:
  assumes "cnt + n \<le> length rs"
  shows "take n (shift_reports rs cnt n) = drop cnt (take (cnt + n) rs)" "length (shift_reports rs cnt n) = length rs"
  using shift_reports_nth [OF assms] assms by (auto intro!: nth_equalityI simp: add.commute)

lemma debounce_step:
  assumes "buttons_inv b" "debounce (b_pressed b) (b_last_pressed b) status = Some p" "b_report_count b < 8"
  shows "unat (b_report_count b) < length (b_reports b)"
    "unacked (b\<lparr>b_reports := (b_reports b)[unat (b_report_count b) := p], b_report_count := b_report_count b + 1\<rparr>) = unacked b @ [p]"
    "unat (b_report_count b + 1) \<le> 8"
proof -
  have l: "unat (b_report_count b) < 8" using assms(3) by (simp add: word_less_nat_alt)
  then have p1: "unat (b_report_count b + 1) = Suc (unat (b_report_count b))" by (simp add: unat_word_ariths)
  show "unat (b_report_count b) < length (b_reports b)" "unat (b_report_count b + 1) \<le> 8"
    using l p1 assms(1) by (simp_all add: buttons_inv_def)
  show "unacked (b\<lparr>b_reports := (b_reports b)[unat (b_report_count b) := p], b_report_count := b_report_count b + 1\<rparr>) = unacked b @ [p]"
    using l p1 assms(1) by (simp add: unacked_def buttons_inv_def take_Suc_conv_app_nth)
qed

text \<open>The event seen as an operation on the object: it appends a debounced change when there is room.\<close>

lemma buttons_event_run:
  assumes inv: "buttons_inv (buttons s a)"
    and st: "status = pin_mask (map (\<lambda>i. gpio_idr s (idr_n s + i)) [0..<unat (b_button_count (buttons s a))])
      (take (unat (b_button_count (buttons s a))) (b_pins (buttons s a))) 1 0"
  shows "\<exists>t. buttons_event a s = (Inr SF_RESCHEDULE, t) \<and> buttons_inv (buttons t a) \<and> b_last_pressed (buttons t a) = status
    \<and> b_ack_count (buttons t a) = b_ack_count (buttons s a)
    \<and> (let b = buttons s a in case debounce (b_pressed b) (b_last_pressed b) status of
         None \<Rightarrow> b_pressed (buttons t a) = b_pressed b \<and> unacked (buttons t a) = unacked b
       | Some p \<Rightarrow> b_pressed (buttons t a) = p
           \<and> unacked (buttons t a) = (if b_report_count b < 8 then unacked b @ [p] else unacked b))"
proof -
  let ?b = "buttons s a"
  have c: "unat (b_button_count ?b) \<le> length (b_pins ?b)" using inv by (simp add: buttons_inv_def)
  have rd: "buttons_read (take (unat (b_button_count ?b)) (b_pins ?b)) 1 0 s
      = (Inr status, s\<lparr>idr_n := idr_n s + unat (b_button_count ?b)\<rparr>)"
    unfolding buttons_read_run st using c by (simp add: min_absorb2)
  show ?thesis
  proof (cases "debounce (b_pressed ?b) (b_last_pressed ?b) status")
    case None
    then show ?thesis using c inv
      by (simp add: buttons_event_def run_simps rd set_bt_def set_wake_def unacked_def buttons_inv_def)
  next
    case (Some p)
    show ?thesis
    proof (cases "b_report_count ?b < 8")
      case True
      note d = debounce_step [OF inv Some True]
      show ?thesis using c inv Some True d
        by (simp add: buttons_event_def run_simps rd set_bt_def set_wake_def unacked_def buttons_inv_def)
    next
      case False
      then show ?thesis using c inv Some
        by (simp add: buttons_event_def run_simps rd set_bt_def set_wake_def unacked_def buttons_inv_def)
    qed
  qed
qed

lemma buttons_ack_run:
  assumes inv: "buttons_inv (buttons s a)" and "oid_table s tab" "unat (ucast (args ! 0) :: u8) < length tab"
    and "tab ! unat (ucast (args ! 0) :: u8) = \<lparr>o_type = Some Oid_buttons, o_data = Some a\<rparr>"
  shows "\<exists>t. command_buttons_ack args s = (Inr (), t) \<and> buttons_inv (buttons t a)
    \<and> b_ack_count (buttons t a) = b_ack_count (buttons s a) + ucast (args ! 1)
    \<and> unacked (buttons t a) = drop (unat (ucast (args ! 1) :: u8)) (unacked (buttons s a))"
proof -
  let ?b = "buttons s a" and ?cnt = "ucast (args ! 1) :: u8"
  have lk: "buttons_lookup f (args ! 0) s = (Inr a, s)" for f
    using oid_lookup_hit [OF assms(2,3), of Oid_buttons] assms(4) by (simp add: buttons_lookup_def run_simps deref_def)
  show ?thesis
  proof (cases "?cnt \<ge> b_report_count ?b")
    case True
    then have "drop (unat ?cnt) (unacked ?b) = []" by (simp add: unacked_def word_le_nat_alt)
    then show ?thesis using True inv
      by (simp add: command_buttons_ack_def run_simps lk Let_def set_bt_def buttons_inv_def) (simp add: unacked_def)
  next
    case False
    then have m: "unat (b_report_count ?b - ?cnt) = unat (b_report_count ?b) - unat ?cnt" "unat ?cnt < unat (b_report_count ?b)"
      by (simp_all add: unat_sub word_le_nat_alt)
    have l: "unat ?cnt + (unat (b_report_count ?b) - unat ?cnt) \<le> length (b_reports ?b)" "\<not> length (b_reports ?b) < unat (b_report_count ?b)"
      using inv m(2) by (simp_all add: buttons_inv_def)
    moreover have "unat (b_report_count ?b) - unat ?cnt \<le> 8" using inv unfolding buttons_inv_def by linarith
    ultimately show ?thesis using False inv m l(2) shift_reports_drop [OF l(1)]
      by (simp add: command_buttons_ack_def run_simps lk Let_def set_bt_def buttons_inv_def unacked_def)
  qed
qed

section \<open>Properties\<close>

text \<open>
  C22: The reports of buttons are a queue of at most eight.  A poll never faults; a debounced change of the pins
  becomes the new state and, while there is room, the last report of the queue; nothing else enters it.  An
  acknowledgement of \<open>count\<close> reports removes exactly the oldest \<open>count\<close>, keeps the order of the others, and advances
  the number of the first report by \<open>count\<close>.\<close>

theorem buttons_report_queue:
  assumes "buttons_inv (buttons s a)" "oid_table s tab" "unat (ucast (args ! 0) :: u8) < length tab"
    and "tab ! unat (ucast (args ! 0) :: u8) = \<lparr>o_type = Some Oid_buttons, o_data = Some a\<rparr>"
  shows "let b = buttons s a; n = unat (b_button_count b);
      status = pin_mask (map (\<lambda>i. gpio_idr s (idr_n s + i)) [0..<n]) (take n (b_pins b)) 1 0; cnt = ucast (args ! 1) :: u8 in
    (\<exists>t. buttons_event a s = (Inr SF_RESCHEDULE, t) \<and> buttons_inv (buttons t a) \<and> b_last_pressed (buttons t a) = status
      \<and> (case debounce (b_pressed b) (b_last_pressed b) status of
         None \<Rightarrow> b_pressed (buttons t a) = b_pressed b \<and> unacked (buttons t a) = unacked b
       | Some p \<Rightarrow> b_pressed (buttons t a) = p
           \<and> unacked (buttons t a) = (if b_report_count b < 8 then unacked b @ [p] else unacked b)))
    \<and> (\<exists>t. command_buttons_ack args s = (Inr (), t) \<and> buttons_inv (buttons t a)
      \<and> b_ack_count (buttons t a) = b_ack_count b + cnt \<and> unacked (buttons t a) = drop (unat cnt) (unacked b))"
  using buttons_event_run [OF assms(1) refl] buttons_ack_run [OF assms] unfolding Let_def by blast

definition example_buttons :: buttons where
  "example_buttons = buttons_static\<lparr>buttons := (\<lambda>_. (zero_buttons 2)\<lparr>b_button_count := 2, b_report_count := 3,
      b_reports := [1, 3, 2, 0, 0, 0, 0, 0]\<rparr>),
    oids := Some [\<lparr>o_type = Some Oid_buttons, o_data = Some 5000\<rparr>], oid_count := 1\<rparr>"

theorem buttons_report_queue_witness:
  "(\<exists>t. buttons_event 5000 example_buttons = (Inr SF_RESCHEDULE, t) \<and> buttons_inv (buttons t 5000))
   \<and> (\<exists>t. command_buttons_ack [0, 2] example_buttons = (Inr (), t) \<and> unacked (buttons t 5000) = [2])"
proof -
  have "buttons_inv (buttons example_buttons 5000)" "oid_table example_buttons [\<lparr>o_type = Some Oid_buttons, o_data = Some 5000\<rparr>]"
    "unacked (buttons example_buttons 5000) = [1, 3, 2]"
    by (simp_all add: buttons_inv_def oid_table_def example_buttons_def zero_buttons_def unacked_def)
  then show ?thesis
    using buttons_report_queue [of example_buttons 5000 "[\<lparr>o_type = Some Oid_buttons, o_data = Some 5000\<rparr>]" "[0, 2]"]
    by (auto simp: Let_def)
qed

end
