(* ===== verification/Counter.thy ===== *)
theory Counter
  imports Buttons
begin

text \<open>Counting the edges of an input pin, \<open>src/src/pulse_counter.c\<close>.\<close>

section \<open>State\<close>

record counter_s =
  c_poll_ticks :: u32
  c_sample_ticks :: u32
  c_next_sample_time :: u32
  c_count :: u32
  c_last_count_time :: u32
  c_flags :: u8
  c_pin :: u32

record counters = buttons +
  counters :: "nat \<Rightarrow> counter_s"

definition CF_PENDING :: u8 where "CF_PENDING = 1"

definition SIZEOF_counter :: nat where "SIZEOF_counter = 44"

definition set_ct :: "nat \<Rightarrow> (counter_s \<Rightarrow> counter_s) \<Rightarrow> 's counters_scheme \<Rightarrow> 's counters_scheme" where
  "set_ct a f s = s\<lparr>counters := (counters s)(a := f (counters s a))\<rparr>"

definition zero_counter :: counter_s where
  "zero_counter = \<lparr>c_poll_ticks = 0, c_sample_ticks = 0, c_next_sample_time = 0, c_count = 0, c_last_count_time = 0,
     c_flags = 0, c_pin = 0\<rparr>"

section \<open>Event, commands and task\<close>

definition counter_event :: "nat \<Rightarrow> ('s counters_scheme, sf) cmd" where
  "counter_event a = mbind (gets (\<lambda>s. waketime s (Obj_timer a 0))) (\<lambda>time.
     mbind (gets (\<lambda>s. counters s a)) (\<lambda>c.
     mbind (gpio_in_read (c_pin c)) (\<lambda>v.
     mseq (mwhen ((c_count c AND 1 \<noteq> 0) \<noteq> v)
             (modify (set_ct a (\<lambda>c. c\<lparr>c_count := c_count c + 1, c_last_count_time := time\<rparr>)))) (
     mseq (mwhen (timer_is_before (c_next_sample_time c) time)
             (mseq (modify (set_ct a (\<lambda>c. c\<lparr>c_flags := c_flags c OR CF_PENDING,
                      c_next_sample_time := time + c_sample_ticks c\<rparr>)))
                (sched_wake_task Counter_wake))) (
     mseq (modify (set_wake (Obj_timer a 0) (time + c_poll_ticks c)))
     (ret SF_RESCHEDULE))))))"

definition command_config_counter :: "u32 list \<Rightarrow> ('s counters_scheme, unit) cmd" where
  "command_config_counter args = mbind (oid_alloc (ucast (args ! 0)) Oid_counter SIZEOF_counter) (\<lambda>a.
     mseq (modify (\<lambda>s. set_ct a (\<lambda>_. zero_counter) (zero_timer (Obj_timer a 0) s))) (
     mbind (gpio_in_setup (args ! 1) (sint (args ! 2))) (\<lambda>pin.
     mseq (modify (set_ct a (\<lambda>c. c\<lparr>c_pin := pin\<rparr>)))
     (modify (set_func (Obj_timer a 0) (Some Counter_event))))))"

definition command_query_counter :: "u32 list \<Rightarrow> ('s counters_scheme, unit) cmd" where
  "command_query_counter args =
     mbind (mbind (oid_lookup ''command_query_counter'' (ucast (args ! 0)) Oid_counter) deref) (\<lambda>a.
     mseq (sched_del_timer (Obj_timer a 0)) (
     mseq (modify (set_wake (Obj_timer a 0) (args ! 1))) (
     mseq (modify (set_ct a (\<lambda>c. c\<lparr>c_poll_ticks := args ! 2, c_sample_ticks := args ! 3,
             c_next_sample_time := args ! 1\<rparr>)))
     (sched_add_timer ''command_query_counter'' (Obj_timer a 0)))))"

definition counter_task_one :: "u8 \<Rightarrow> nat \<Rightarrow> ('s counters_scheme, unit) cmd" where
  "counter_task_one oid a = mbind (gets (\<lambda>s. counters s a)) (\<lambda>c.
     if c_flags c AND CF_PENDING = 0 then ret ()
     else mbind (gets (\<lambda>s. waketime s (Obj_timer a 0))) (\<lambda>w.
       mseq (modify (set_ct a (\<lambda>c. c\<lparr>c_flags := c_flags c AND NOT CF_PENDING\<rparr>)))
       (sendf ''counter_state oid=%c next_clock=%u count=%u count_clock=%u''
          [U (ucast oid), U w, U (c_count c), U (c_last_count_time c)])))"

definition counter_task :: "('s counters_scheme, unit) cmd" where
  "counter_task = mbind (sched_check_wake Counter_wake) (\<lambda>w. mwhen w (foreach_oid Oid_counter counter_task_one))"

section \<open>Counting\<close>

text \<open>The number of level changes in a sequence of readings.\<close>

fun edges :: "bool \<Rightarrow> bool list \<Rightarrow> nat" where
  "edges prev [] = 0"
| "edges prev (v # vs) = (if v \<noteq> prev then Suc (edges v vs) else edges v vs)"

lemma counter_event_run:
  "\<exists>t. counter_event a s = (Inr SF_RESCHEDULE, t) \<and> gpio_idr t = gpio_idr s \<and> idr_n t = Suc (idr_n s)
    \<and> c_pin (counters t a) = c_pin (counters s a)
    \<and> c_count (counters t a) = c_count (counters s a)
        + (if gpio_idr s (idr_n s) (c_pin (counters s a)) = odd (c_count (counters s a)) then 0 else 1)"
  by (simp add: counter_event_def run_simps gpio_in_read_def set_ct_def set_wake_def and_one_eq mod_2_eq_odd)

section \<open>Properties\<close>

text \<open>
  A pulse counter counts every level change it samples.  After any number of polls the counter has grown by the
  number of changes in the sequence of readings, where the level before the first one is the low bit of the counter,
  and its low bit is the level read last.\<close>

theorem counter_counts_edges:
  "\<exists>t. let c = counters s a; vs = map (\<lambda>i. gpio_idr s (idr_n s + i) (c_pin c)) [0..<n] in
    run_events (counter_event a) n s = (Inr (), t)
    \<and> c_count (counters t a) = c_count c + of_nat (edges (odd (c_count c)) vs)
    \<and> odd (c_count (counters t a)) = last (odd (c_count c) # vs)"
proof (induction n arbitrary: s)
  case 0
  then show ?case by (simp add: Let_def)
next
  case (Suc n)
  let ?c = "counters s a" and ?v = "gpio_idr s (idr_n s) (c_pin (counters s a))"
  obtain u where u: "counter_event a s = (Inr SF_RESCHEDULE, u)" "gpio_idr u = gpio_idr s" "idr_n u = Suc (idr_n s)"
      "c_pin (counters u a) = c_pin ?c" "c_count (counters u a) = c_count ?c + (if ?v = odd (c_count ?c) then 0 else 1)"
    using counter_event_run [of a s] by blast
  have p: "odd (c_count (counters u a)) = ?v" unfolding u(5) by auto
  have m: "map (\<lambda>i. gpio_idr s (idr_n s + i) (c_pin ?c)) [0..<Suc n]
      = ?v # map (\<lambda>i. gpio_idr u (idr_n u + i) (c_pin (counters u a))) [0..<n]"
    unfolding u(2-4) by (simp add: upt_conv_Cons map_Suc_upt [symmetric] del: upt_Suc)
  obtain t where t: "run_events (counter_event a) n u = (Inr (), t)"
      "c_count (counters t a) = c_count (counters u a) + of_nat (edges ?v (map (\<lambda>i. gpio_idr u (idr_n u + i) (c_pin (counters u a))) [0..<n]))"
      "odd (c_count (counters t a)) = last (?v # map (\<lambda>i. gpio_idr u (idr_n u + i) (c_pin (counters u a))) [0..<n])"
    using Suc.IH [of u] unfolding Let_def p by blast
  have "run_events (counter_event a) (Suc n) s = (Inr (), t)" using u(1) t(1) by (simp add: run_simps)
  then show ?case unfolding Let_def m using t(2,3) u(5) by (intro exI [of _ t]) auto
qed

text \<open>The counters before anything is configured.\<close>

definition counters_static :: counters where
  "counters_static = buttons.extend buttons_static \<lparr>counters = (\<lambda>_. zero_counter)\<rparr>"

lemmas counters_static_simps = buttons_static_simps counters_static_def buttons.extend_def

end
