(* ===== verification/Tmcuart.thy ===== *)
theory Tmcuart
  imports Counter "HOL-Library.Signed_Division"
begin

text \<open>
  The software UART to stepper drivers, \<open>src/src/tmcuart.c\<close>, and the debug commands that need no
  raw memory access, \<open>src/src/debugcmds.c\<close>.  The array \<open>data\<close> is a list of ten bytes; an access
  outside of it is a \<open>Fault\<close>, as is an overflow of the signed arithmetic on the measured bit time.
\<close>

section \<open>State\<close>

record tmcuart_s =
  u_tx_pin :: u32
  u_rx_pin :: u32
  u_flags :: u8
  u_pos :: u8
  u_read_count :: u8
  u_write_count :: u8
  u_cfg_bit_time :: u32
  u_bit_time :: u32
  u_data :: "u8 list"

record tmcuarts = counters +
  tmcuarts :: "nat \<Rightarrow> tmcuart_s"

definition TU_LINE_HIGH :: u8 where "TU_LINE_HIGH = 1"
definition TU_ACTIVE :: u8 where "TU_ACTIVE = 2"
definition TU_READ_SYNC :: u8 where "TU_READ_SYNC = 4"
definition TU_REPORT :: u8 where "TU_REPORT = 8"
definition TU_PULLUP :: u8 where "TU_PULLUP = 16"
definition TU_SINGLE_WIRE :: u8 where "TU_SINGLE_WIRE = 32"

lemmas tmcuart_flags = TU_LINE_HIGH_def TU_ACTIVE_def TU_READ_SYNC_def TU_REPORT_def TU_PULLUP_def TU_SINGLE_WIRE_def

definition SIZEOF_tmcuart :: nat where "SIZEOF_tmcuart = 52"
definition SIZEOF_tmcuart_data :: nat where "SIZEOF_tmcuart_data = 10"

definition set_tu :: "nat \<Rightarrow> (tmcuart_s \<Rightarrow> tmcuart_s) \<Rightarrow> 's tmcuarts_scheme \<Rightarrow> 's tmcuarts_scheme" where
  "set_tu a f s = s\<lparr>tmcuarts := (tmcuarts s)(a := f (tmcuarts s a))\<rparr>"

definition zero_tmcuart :: tmcuart_s where
  "zero_tmcuart = \<lparr>u_tx_pin = 0, u_rx_pin = 0, u_flags = 0, u_pos = 0, u_read_count = 0, u_write_count = 0,
     u_cfg_bit_time = 0, u_bit_time = 0, u_data = replicate SIZEOF_tmcuart_data 0\<rparr>"

section \<open>Events\<close>

definition tmcuart_reset_line :: "nat \<Rightarrow> ('s tmcuarts_scheme, unit) cmd" where
  "tmcuart_reset_line a = mbind (gets (\<lambda>s. tmcuarts s a)) (\<lambda>t.
     mseq (if u_flags t AND TU_SINGLE_WIRE \<noteq> 0 then gpio_out_reset (u_tx_pin t) 1 else gpio_out_write (u_tx_pin t) 1)
       (modify (set_tu a (\<lambda>t. t\<lparr>u_flags := (u_flags t AND (TU_PULLUP OR TU_SINGLE_WIRE)) OR TU_LINE_HIGH\<rparr>))))"

definition tmcuart_finalize :: "nat \<Rightarrow> ('s tmcuarts_scheme, sf) cmd" where
  "tmcuart_finalize a = mseq (tmcuart_reset_line a) (
     mseq (modify (set_tu a (\<lambda>t. t\<lparr>u_flags := u_flags t OR TU_REPORT\<rparr>))) (
     mseq (sched_wake_task Tmcuart_wake) (ret SF_DONE)))"

definition tmcuart_delay :: "nat \<Rightarrow> u32 \<Rightarrow> ('s tmcuarts_scheme, sf) cmd" where
  "tmcuart_delay a ticks =
     mseq (modify (\<lambda>s. set_wake (Obj_timer a 0) (waketime s (Obj_timer a 0) + ticks) s)) (ret SF_RESCHEDULE)"

definition tmcuart_read_event :: "nat \<Rightarrow> ('s tmcuarts_scheme, sf) cmd" where
  "tmcuart_read_event a = mbind (gets (\<lambda>s. tmcuarts s a)) (\<lambda>t.
     mbind (gpio_in_read (u_rx_pin t)) (\<lambda>v.
     let pos = u_pos t; msk = push_bit (unat (pos AND 7)) 1; i = unat (drop_bit 3 pos) in
     if i \<ge> length (u_data t) then fail (Fault ''data array overflow'')
     else let data = (if v then u_data t ! i OR msk else u_data t ! i AND NOT msk) in
       mseq (modify (set_tu a (\<lambda>t. t\<lparr>u_data := (u_data t)[i := data]\<rparr>))) (
       if pos + 1 \<ge> u_read_count t then tmcuart_finalize a
       else mseq (modify (set_tu a (\<lambda>t. t\<lparr>u_pos := pos + 1\<rparr>))) (tmcuart_delay a (u_bit_time t)))))"

definition tmcuart_read_sync_event :: "nat \<Rightarrow> ('s tmcuarts_scheme, sf) cmd" where
  "tmcuart_read_sync_event a = mbind (gets (\<lambda>s. tmcuarts s a)) (\<lambda>t.
     mbind (gpio_in_read (u_rx_pin t)) (\<lambda>v.
     if \<not> v \<and> u_flags t AND TU_READ_SYNC \<noteq> 0 then
       mseq (modify (set_tu a (\<lambda>t. t\<lparr>u_pos := 0\<rparr>))) (
       mseq (modify (set_func (Obj_timer a 0) (Some Tmcuart_read_event)))
       (tmcuart_read_event a))
     else
       mseq (mwhen v (modify (set_tu a (\<lambda>t. t\<lparr>u_flags := u_flags t OR TU_READ_SYNC\<rparr>)))) (
       mseq (modify (set_tu a (\<lambda>t. t\<lparr>u_pos := u_pos t + 1\<rparr>))) (
       if u_pos t \<ge> 64 then
         mseq (modify (set_tu a (\<lambda>t. t\<lparr>u_read_count := 0\<rparr>))) (tmcuart_finalize a)
       else tmcuart_delay a (u_bit_time t)))))"

definition tmcuart_send_finish_event :: "nat \<Rightarrow> ('s tmcuarts_scheme, sf) cmd" where
  "tmcuart_send_finish_event a = mbind (gets (\<lambda>s. tmcuarts s a)) (\<lambda>t.
     if u_read_count t = 0 then tmcuart_finalize a
     else
       mseq (mwhen (u_flags t AND TU_SINGLE_WIRE \<noteq> 0)
               (gpio_in_reset (u_rx_pin t) (uint (u_flags t AND TU_PULLUP)))) (
       mseq (modify (set_tu a (\<lambda>t. t\<lparr>u_pos := 0\<rparr>))) (
       mseq (modify (set_func (Obj_timer a 0) (Some Tmcuart_read_sync_event)))
       (tmcuart_delay a (u_bit_time t * 4)))))"

text \<open>
  The loop of \<open>tmcuart_send_event\<close>: the number of the next bit that differs from the line, if any, and
  the time until then.
\<close>

function send_scan :: "u8 list \<Rightarrow> u8 \<Rightarrow> u8 \<Rightarrow> u32 \<Rightarrow> u8 \<Rightarrow> u32 \<Rightarrow> abort + (u8 option \<times> u32)" where
  "send_scan data write_count line_state bit_time pos next =
     (let p = pos + 1 in
      if p \<ge> write_count then Inr (None, next)
      else if unat (drop_bit 3 p) \<ge> length data then Inl (Fault ''data array overflow'')
      else if drop_bit (unat (p AND 7)) (data ! unat (drop_bit 3 p)) AND 1 \<noteq> line_state then Inr (Some p, next)
      else send_scan data write_count line_state bit_time p (next + bit_time))"
  by auto
termination
proof (relation "measure (\<lambda>(_, _, _, _, pos, _). unat (254 - pos))", simp)
  fix data :: "u8 list" and wc ls :: u8 and bt :: u32 and pos p :: u8 and nx :: u32
  assume p: "p = pos + 1" and "\<not> wc \<le> p"
  then have "p \<noteq> - 1" using word_order.extremum [of wc] by fastforce
  then have "254 - pos \<noteq> 0" using p by auto
  then have "unat (254 - pos - 1) < unat (254 - pos)" by (rule measure_unat)
  then show "((data, wc, ls, bt, p, nx + bt), data, wc, ls, bt, pos, nx)
     \<in> measure (\<lambda>(_, _, _, _, pos, _). unat (254 - pos))"
    using p by (simp add: algebra_simps)
qed

declare send_scan.simps [simp del]

definition tmcuart_send_event :: "nat \<Rightarrow> ('s tmcuarts_scheme, sf) cmd" where
  "tmcuart_send_event a =
     mseq (mbind (gets (\<lambda>s. u_tx_pin (tmcuarts s a))) gpio_out_toggle_noirq) (
     mseq (modify (set_tu a (\<lambda>t. t\<lparr>u_flags := u_flags t XOR TU_LINE_HIGH\<rparr>))) (
     mbind (gets (\<lambda>s. tmcuarts s a)) (\<lambda>t.
     case send_scan (u_data t) (u_write_count t) (u_flags t AND TU_LINE_HIGH) (u_bit_time t) (u_pos t) (u_bit_time t) of
       Inl e \<Rightarrow> fail e
     | Inr (None, next) \<Rightarrow>
         mseq (modify (set_func (Obj_timer a 0) (Some Tmcuart_send_finish_event))) (tmcuart_delay a next)
     | Inr (Some pos, next) \<Rightarrow>
         mseq (modify (set_tu a (\<lambda>t. t\<lparr>u_pos := pos\<rparr>))) (tmcuart_delay a next))))"

text \<open>The macro \<open>DIV_ROUND_CLOSEST\<close> on a signed value; C division rounds towards zero.\<close>

definition DIV_ROUND_CLOSEST :: "int \<Rightarrow> int \<Rightarrow> int" where
  "DIV_ROUND_CLOSEST x divisor = (x + divisor sdiv 2) sdiv divisor"

definition tmcuart_send_sync_event :: "nat \<Rightarrow> ('s tmcuarts_scheme, sf) cmd" where
  "tmcuart_send_sync_event a =
     mseq (mbind (gets (\<lambda>s. u_tx_pin (tmcuarts s a))) gpio_out_toggle_noirq) (
     mbind timer_read_time (\<lambda>cur.
     mseq (modify (set_tu a (\<lambda>t. t\<lparr>u_flags := u_flags t XOR TU_LINE_HIGH, u_pos := u_pos t + 1\<rparr>))) (
     mbind (gets (\<lambda>s. tmcuarts s a)) (\<lambda>t.
     mbind (gets (\<lambda>s. cur - waketime s (Obj_timer a 0))) (\<lambda>offset.
     if u_pos t = 1 then
       mseq (modify (set_tu a (\<lambda>t. t\<lparr>u_bit_time := offset\<rparr>))) (tmcuart_delay a (u_cfg_bit_time t))
     else if u_pos t \<ge> 5 then
       let diff = offset - u_bit_time t; bit_time = u_cfg_bit_time t + word_of_int (DIV_ROUND_CLOSEST (sint diff) 4) in
       if sint diff + 2 \<ge> 2 ^ 31 then fail (Fault ''signed overflow'')
       else
         mseq (modify (set_tu a (\<lambda>t. t\<lparr>u_bit_time := bit_time\<rparr>))) (
         mseq (modify (set_func (Obj_timer a 0) (Some Tmcuart_send_event)))
         (tmcuart_delay a (diff + bit_time)))
     else tmcuart_delay a (u_cfg_bit_time t))))))"

section \<open>Commands and tasks\<close>

definition command_config_tmcuart :: "u32 list \<Rightarrow> ('s tmcuarts_scheme, unit) cmd" where
  "command_config_tmcuart args = mbind (oid_alloc (ucast (args ! 0)) Oid_tmcuart SIZEOF_tmcuart) (\<lambda>a.
     mseq (modify (\<lambda>s. set_tu a (\<lambda>_. zero_tmcuart) (zero_timer (Obj_timer a 0) s))) (
     let pull_up = ucast (args ! 2) :: u8; rx_pin = args ! 1; tx_pin = args ! 3 in
     mbind (gpio_in_setup rx_pin (if pull_up \<noteq> 0 then 1 else 0)) (\<lambda>rx.
     mseq (modify (set_tu a (\<lambda>t. t\<lparr>u_rx_pin := rx\<rparr>))) (
     mbind (gpio_out_setup tx_pin 1) (\<lambda>tx.
     modify (set_tu a (\<lambda>t. t\<lparr>u_tx_pin := tx, u_cfg_bit_time := args ! 4,
       u_flags := TU_LINE_HIGH OR (if pull_up \<noteq> 0 then TU_PULLUP else 0)
                  OR (if rx_pin = tx_pin then TU_SINGLE_WIRE else 0)\<rparr>)))))))"

definition command_tmcuart_send :: "u32 list \<Rightarrow> ('s tmcuarts_scheme, unit) cmd" where
  "command_tmcuart_send args =
     mbind (mbind (oid_lookup ''command_tmcuart_send'' (ucast (args ! 0)) Oid_tmcuart) deref) (\<lambda>a.
     mbind (gets (\<lambda>s. u_flags (tmcuarts s a))) (\<lambda>flags.
     if flags AND TU_ACTIVE \<noteq> 0 then ret ()
     else let write_len = ucast (args ! 1) :: u8; read_len = ucast (args ! 3) :: u8 in
       if unat write_len > SIZEOF_tmcuart_data \<or> unat read_len > SIZEOF_tmcuart_data
       then shutdown ''command_tmcuart_send'' ''tmcuart data too large''
       else
         mbind (command_decode_ptr (ucast write_len) (args ! 2)) (\<lambda>write.
         mseq (modify (set_tu a (\<lambda>t. t\<lparr>u_data := write @ drop (length write) (u_data t), u_pos := 0,
                 u_flags := (u_flags t AND (TU_LINE_HIGH OR TU_PULLUP OR TU_SINGLE_WIRE)) OR TU_ACTIVE,
                 u_write_count := write_len * 8, u_read_count := read_len * 8\<rparr>))) (
         mbind (gets (\<lambda>s. tmcuarts s a)) (\<lambda>t.
         mseq (if write_len \<ge> 1 \<and> u_data t ! 0 AND 0x3f = 0x2a
               then modify (set_func (Obj_timer a 0) (Some Tmcuart_send_sync_event))
               else mseq (modify (set_tu a (\<lambda>t. t\<lparr>u_bit_time := u_cfg_bit_time t\<rparr>)))
                      (modify (set_func (Obj_timer a 0) (Some Tmcuart_send_event)))) (
         mbind timer_read_time (\<lambda>now.
         mseq (modify (\<lambda>s. set_wake (Obj_timer a 0) (now + timer_from_us s 200) s))
         (sched_add_timer ''command_tmcuart_send'' (Obj_timer a 0)))))))))"

definition tmcuart_task_one :: "u8 \<Rightarrow> nat \<Rightarrow> ('s tmcuarts_scheme, unit) cmd" where
  "tmcuart_task_one oid a = mbind (gets (\<lambda>s. tmcuarts s a)) (\<lambda>t.
     if u_flags t AND TU_REPORT = 0 then ret ()
     else mseq (modify (set_tu a (\<lambda>t. t\<lparr>u_flags := u_flags t AND NOT TU_REPORT\<rparr>))) (
       if unat (u_read_count t div 8) > length (u_data t) then fail (Fault ''data array overflow'')
       else sendf ''tmcuart_response oid=%c read=%*s''
          [U (ucast oid), Buf (take (unat (u_read_count t div 8)) (u_data t))]))"

definition tmcuart_task :: "('s tmcuarts_scheme, unit) cmd" where
  "tmcuart_task = mbind (sched_check_wake Tmcuart_wake) (\<lambda>w. mwhen w (foreach_oid Oid_tmcuart tmcuart_task_one))"

definition tmcuart_shutdown :: "('s tmcuarts_scheme, unit) cmd" where
  "tmcuart_shutdown = foreach_oid Oid_tmcuart (\<lambda>i a. tmcuart_reset_line a)"

section \<open>Debug commands\<close>

definition command_debug_ping :: "u32 list \<Rightarrow> ('s comm_scheme, unit) cmd" where
  "command_debug_ping args = mbind (command_decode_ptr (ucast (ucast (args ! 0) :: u8)) (args ! 1)) (\<lambda>data.
     sendf ''pong data=%*s'' [Buf data])"

definition command_debug_nop :: "u32 list \<Rightarrow> ('s, unit) cmd" where
  "command_debug_nop args = ret ()"

text \<open>The software UARTs before anything is configured.\<close>

definition tmcuarts_static :: tmcuarts where
  "tmcuarts_static = counters.extend counters_static \<lparr>tmcuarts = (\<lambda>_. zero_tmcuart)\<rparr>"

lemmas tmcuarts_static_simps = counters_static_simps tmcuarts_static_def counters.extend_def

end
