(* ===== verification/Console.thy ===== *)
theory Console
  imports Tmcuart
begin

text \<open>
  The two console drivers, of which a build contains one: the serial port
  (\<open>src/src/generic/serial_irq.c\<close>) and the CAN bus (\<open>src/src/generic/canserial.c\<close> on top of
  \<open>src/src/generic/canbus.c\<close>).  Both keep a receive buffer of 192 and a transmit buffer of 96 bytes, which
  are the same fields here.  Positions are natural numbers; that they fit their \<open>uint8_t\<close> is proved.

  Interrupts are explicit: wherever a function runs with interrupts enabled between two accesses to data it
  shares with a handler, the handler may run.  What happens in the \<open>n\<close>-th such window is the \<open>n\<close>-th
  element of a stream of the state: the bytes the serial port receives (\<open>rx_irq\<close>), the number of bytes it
  takes for transmission (\<open>tx_irq\<close>), the messages the CAN controller receives (\<open>can_irq\<close>).
\<close>

section \<open>State\<close>

record canbus_msg =
  cm_id :: u32
  cm_dlc :: u32
  cm_data :: "u8 list"

record console = tmcuarts +
  receive_pos :: nat
  transmit_buf :: "u8 list"
  transmit_pos :: nat
  transmit_max :: nat
  rx_irq :: "nat \<Rightarrow> u8 list"
  rx_n :: nat
  tx_irq :: "nat \<Rightarrow> nat"
  tx_n :: nat
  tx_line :: "u8 list"                   \<comment> \<open>bytes handed to the port, oldest first\<close>
  tx_enables :: nat                      \<comment> \<open>calls of serial_enable_tx_irq\<close>
  assigned_id :: u32
  can_uuid :: "u8 list"
  admin_pull_pos :: u32
  admin_push_pos :: u32
  admin_queue :: "canbus_msg list"
  can_irq :: "nat \<Rightarrow> canbus_msg list"
  can_irq_n :: nat
  can_ret :: "nat \<Rightarrow> int"                 \<comment> \<open>successive results of canhw_send\<close>
  can_ret_n :: nat
  can_sent :: "canbus_msg list"          \<comment> \<open>messages the controller accepted, oldest first\<close>
  can_filters :: "u32 list"              \<comment> \<open>calls of canhw_set_filter\<close>

definition RX_BUFFER_SIZE :: nat where "RX_BUFFER_SIZE = 192"
definition TX_BUFFER_SIZE :: nat where "TX_BUFFER_SIZE = 96"
definition ADMIN_QUEUE_SIZE :: nat where "ADMIN_QUEUE_SIZE = 8"

lemmas console_consts = RX_BUFFER_SIZE_def TX_BUFFER_SIZE_def ADMIN_QUEUE_SIZE_def

text \<open>\<open>memmove\<close> within a buffer.\<close>

definition memmove :: "u8 list \<Rightarrow> nat \<Rightarrow> nat \<Rightarrow> nat \<Rightarrow> u8 list option" where
  "memmove buf dst src n = (if src + n > length buf then None else write_bytes buf dst (take n (drop src buf)))"

section \<open>Serial port: reception\<close>

definition serial_rx_byte :: "u8 \<Rightarrow> ('s console_scheme, unit) cmd" where
  "serial_rx_byte data =
     mseq (mwhen (data = MESSAGE_SYNC) sched_wake_tasks) (
     mbind (gets receive_pos) (\<lambda>p.
     if p \<ge> RX_BUFFER_SIZE then ret ()
     else mbind (gets (\<lambda>s. length (receive_buf s))) (\<lambda>n.
       if p \<ge> n then fail (Fault ''write past the buffer'')
       else modify (\<lambda>s. s\<lparr>receive_buf := (receive_buf s)[p := data], receive_pos := Suc p\<rparr>))))"

fun serial_rx_bytes :: "u8 list \<Rightarrow> ('s console_scheme, unit) cmd" where
  "serial_rx_bytes [] = ret ()"
| "serial_rx_bytes (b # bs) = mseq (serial_rx_byte b) (serial_rx_bytes bs)"

definition rx_window :: "('s console_scheme, unit) cmd" where
  "rx_window = mbind (gets (\<lambda>s. rx_irq s (rx_n s))) (\<lambda>bs.
     mseq (modify (\<lambda>s. s\<lparr>rx_n := Suc (rx_n s)\<rparr>)) (serial_rx_bytes bs))"

text \<open>
  One round of the loop of \<open>console_pop_input\<close>, with the variable \<open>copied\<close>; \<open>wake\<close> wakes the tasks that
  look at the buffer and \<open>window\<close> is the reception of data before interrupts are disabled.
\<close>

definition pop_round ::
  "('s console_scheme, unit) cmd \<Rightarrow> ('s console_scheme, unit) cmd \<Rightarrow> nat \<Rightarrow> nat
   \<Rightarrow> ('s console_scheme, nat + unit) cmd" where
  "pop_round wake window len copied = mbind (gets receive_pos) (\<lambda>rpos.
     if rpos < len + copied then fail (Fault ''read past the buffer'')
     else let needcopy = rpos - len in
       mseq (mwhen (needcopy \<noteq> 0) (mbind (gets receive_buf) (\<lambda>buf.
               case memmove buf copied (copied + len) (needcopy - copied) of
                 None \<Rightarrow> fail (Fault ''read past the buffer'')
               | Some buf' \<Rightarrow> mseq (modify (\<lambda>s. s\<lparr>receive_buf := buf'\<rparr>)) wake))) (
       mseq window (
       mbind (gets receive_pos) (\<lambda>rpos'.
       if rpos \<noteq> rpos' then ret (Inl (if needcopy \<noteq> 0 then needcopy else copied))
       else mseq (modify (\<lambda>s. s\<lparr>receive_pos := needcopy\<rparr>)) (ret (Inr ()))))))"

definition console_pop_input :: "nat \<Rightarrow> ('s console_scheme, unit) cmd" where
  "console_pop_input len = cloop (pop_round sched_wake_tasks rx_window len) 0"

text \<open>
  \<open>bootloader_request\<close> is none when CONFIG_HAVE_BOOTLOADER_REQUEST is off.  The interrupt may deliver
  bytes while the command runs.
\<close>

definition BOOTLOADER_REQUEST :: "u8 list" where
  "BOOTLOADER_REQUEST = [0x20, 0x1c, 0x20, 0x52, 0x65, 0x71, 0x75, 0x65, 0x73, 0x74, 0x20, 0x53, 0x65, 0x72, 0x69, 0x61,
     0x6c, 0x20, 0x42, 0x6f, 0x6f, 0x74, 0x6c, 0x6f, 0x61, 0x64, 0x65, 0x72, 0x21, 0x21, 0x20, 0x7e]"

definition console_task ::
  "'s console_scheme command_parser list \<Rightarrow> ('s console_scheme, unit) cmd option \<Rightarrow> ('s console_scheme, unit) cmd" where
  "console_task command_index bootloader_request =
     mbind (gets receive_pos) (\<lambda>rpos.
     mbind (gets receive_buf) (\<lambda>buf.
     mbind (command_find_block buf rpos) (\<lambda>(r, pop_count).
     mseq (mwhen (r > 0) (command_dispatch command_index buf pop_count)) (
     mseq rx_window (
     mwhen (r \<noteq> 0) (
       mseq (mbind (gets (\<lambda>s. take 32 (receive_buf s))) (\<lambda>b.
               case bootloader_request of
                 None \<Rightarrow> ret ()
               | Some req \<Rightarrow> mwhen (r < 0 \<and> pop_count = 32 \<and> b = BOOTLOADER_REQUEST) req)) (
       mseq (console_pop_input pop_count)
       (mwhen (r > 0) command_send_ack))))))))"

section \<open>Serial port: transmission\<close>

text \<open>The interrupt takes a byte; the result is none when there is nothing to send.\<close>

definition serial_get_tx_byte :: "('s console_scheme, u8 option) cmd" where
  "serial_get_tx_byte = mbind (gets transmit_pos) (\<lambda>p. mbind (gets transmit_max) (\<lambda>m.
     if p \<ge> m then ret None
     else mbind (gets transmit_buf) (\<lambda>buf.
       if p \<ge> length buf then fail (Fault ''read past the buffer'')
       else mseq (modify (\<lambda>s. s\<lparr>transmit_pos := Suc p\<rparr>)) (ret (Some (buf ! p))))))"

definition tx_one :: "('s console_scheme, unit) cmd" where
  "tx_one = mbind serial_get_tx_byte (\<lambda>r. case r of
       None \<Rightarrow> ret () | Some b \<Rightarrow> modify (\<lambda>s. s\<lparr>tx_line := tx_line s @ [b]\<rparr>))"

fun tx_bytes :: "nat \<Rightarrow> ('s console_scheme, unit) cmd" where
  "tx_bytes 0 = ret ()"
| "tx_bytes (Suc n) = mseq tx_one (tx_bytes n)"

definition tx_window :: "('s console_scheme, unit) cmd" where
  "tx_window = mbind (gets (\<lambda>s. tx_irq s (tx_n s))) (\<lambda>k.
     mseq (modify (\<lambda>s. s\<lparr>tx_n := Suc (tx_n s)\<rparr>)) (tx_bytes k))"

definition serial_enable_tx_irq :: "('s console_scheme, unit) cmd" where
  "serial_enable_tx_irq = modify (\<lambda>s. s\<lparr>tx_enables := Suc (tx_enables s)\<rparr>)"

text \<open>Making room in the transmit buffer: the new \<open>tmax\<close>, or none when the message is dropped.\<close>

definition console_make_room :: "nat \<Rightarrow> ('s console_scheme, nat option) cmd" where
  "console_make_room max_size =
     mbind (gets (\<lambda>s. (transmit_pos s, transmit_max s))) (\<lambda>(tpos0, tmax0).
     mseq tx_window (
     let (tpos, tmax) = (if tpos0 \<ge> tmax0 then (0, 0) else (tpos0, tmax0)) in
     mseq (mwhen (tpos0 \<ge> tmax0) (modify (\<lambda>s. s\<lparr>transmit_max := 0, transmit_pos := 0\<rparr>))) (
     if tmax + max_size > TX_BUFFER_SIZE then
       if tmax + max_size - tpos > TX_BUFFER_SIZE then ret None
       else
         mseq (modify (\<lambda>s. s\<lparr>transmit_max := 0\<rparr>)) (
         mbind (gets transmit_pos) (\<lambda>tpos.
         mbind (gets transmit_buf) (\<lambda>buf.
         if tpos > tmax then fail (Fault ''read past the buffer'')
         else case memmove buf 0 tpos (tmax - tpos) of
           None \<Rightarrow> fail (Fault ''read past the buffer'')
         | Some buf' \<Rightarrow>
             mseq (modify (\<lambda>s. s\<lparr>transmit_buf := buf', transmit_pos := 0, transmit_max := tmax - tpos\<rparr>)) (
             mseq serial_enable_tx_irq (ret (Some (tmax - tpos)))))))
     else ret (Some tmax))))"

text \<open>Encoding a message behind the first \<open>tmax\<close> bytes of the transmit buffer; the result is its length.\<close>

definition console_encode :: "nat \<Rightarrow> command_encoder \<Rightarrow> arg list \<Rightarrow> ('s console_scheme, nat) cmd" where
  "console_encode tmax ce args =
     mbind (gets next_sequence) (\<lambda>seq.
     mbind (gets transmit_buf) (\<lambda>buf.
     case command_encode_and_frame seq (drop tmax buf) ce args of
       Inl (Shutdown msg) \<Rightarrow> shutdown ''command_encodef'' msg
     | Inl e \<Rightarrow> fail e
     | Inr (buf', msglen) \<Rightarrow>
         mseq (modify (\<lambda>s. s\<lparr>transmit_buf := take tmax buf @ buf'\<rparr>)) (ret msglen)))"

definition console_sendf :: "command_encoder \<Rightarrow> arg list \<Rightarrow> ('s console_scheme, unit) cmd" where
  "console_sendf ce args = mbind (console_make_room (unat (ce_max_size ce))) (\<lambda>room.
     case room of
       None \<Rightarrow> ret ()
     | Some tmax \<Rightarrow>
         mbind (console_encode tmax ce args) (\<lambda>msglen.
         mseq tx_window (
         mseq (modify (\<lambda>s. s\<lparr>transmit_max := tmax + msglen\<rparr>)) serial_enable_tx_irq)))"

text \<open>\<open>command_sendf\<close> with the encoder of its format, down to the driver.\<close>

definition command_sendf ::
  "(command_encoder \<Rightarrow> arg list \<Rightarrow> ('s console_scheme, unit) cmd) \<Rightarrow> command_encoder \<Rightarrow> arg list
   \<Rightarrow> ('s console_scheme, unit) cmd" where
  "command_sendf send ce args = mbind (gets in_sendf) (\<lambda>busy.
     if busy then ret ()
     else mseq (modify (\<lambda>s. s\<lparr>in_sendf := True\<rparr>)) (
          mseq (send ce args)
          (modify (\<lambda>s. s\<lparr>in_sendf := False\<rparr>))))"

text \<open>The console, with no interrupts ahead, before anything is configured.\<close>

definition console_static :: console where
  "console_static = tmcuarts.extend (tmcuarts_static\<lparr>receive_buf := replicate RX_BUFFER_SIZE 0\<rparr>)
     \<lparr>receive_pos = 0, transmit_buf = replicate TX_BUFFER_SIZE 0, transmit_pos = 0, transmit_max = 0,
     rx_irq = (\<lambda>_. []), rx_n = 0, tx_irq = (\<lambda>_. 0), tx_n = 0, tx_line = [], tx_enables = 0, assigned_id = 0,
     can_uuid = replicate 6 0, admin_pull_pos = 0, admin_push_pos = 0, admin_queue = replicate ADMIN_QUEUE_SIZE
       \<lparr>cm_id = 0, cm_dlc = 0, cm_data = replicate 8 0\<rparr>,
     can_irq = (\<lambda>_. []), can_irq_n = 0, can_ret = (\<lambda>_. 0), can_ret_n = 0, can_sent = [], can_filters = []\<rparr>"

lemmas console_static_simps = tmcuarts_static_simps console_static_def tmcuarts.extend_def

section \<open>The receive buffer\<close>

definition rx_ok :: "'s console_scheme \<Rightarrow> bool" where
  "rx_ok s \<longleftrightarrow> length (receive_buf s) = RX_BUFFER_SIZE \<and> receive_pos s \<le> RX_BUFFER_SIZE"

definition rx_data :: "'s console_scheme \<Rightarrow> u8 list" where
  "rx_data s = take (receive_pos s) (receive_buf s)"

lemma rx_data_length: "rx_ok s \<Longrightarrow> length (rx_data s) = receive_pos s"
  by (simp add: rx_ok_def rx_data_def)

lemma memmove_down:
  assumes "src + n \<le> length buf" "dst \<le> src"
  obtains buf' where "memmove buf dst src n = Some buf'" "length buf' = length buf"
    "take (dst + n) buf' = take dst buf @ take n (drop src buf)" "drop (src + n) buf' = drop (src + n) buf"
proof -
  let ?b = "take dst buf @ take n (drop src buf) @ drop (dst + n) buf"
  have l: "length (take n (drop src buf)) = n" using assms by simp
  have "memmove buf dst src n = Some ?b" using assms l by (simp add: memmove_def write_bytes_def)
  moreover have "length ?b = length buf" "take (dst + n) ?b = take dst buf @ take n (drop src buf)" using assms l by simp_all
  moreover have "drop (src + n) ?b = drop (src + n) buf" using assms l by simp
  ultimately show thesis using that by blast
qed

text \<open>
  What the loop of \<open>console_pop_input\<close> relies on.  Waking the tasks and receiving data return; receiving appends
  bytes to the data of the buffer, \<open>adds\<close> says which, and waking does not touch the buffer.  \<open>ok\<close> is the part of
  the state of the driver that reception needs.
\<close>

locale receiver =
  fixes wake window :: "('s console_scheme, unit) cmd" and ok :: "'s console_scheme \<Rightarrow> bool"
    and adds :: "'s console_scheme \<Rightarrow> 's console_scheme \<Rightarrow> u8 list \<Rightarrow> bool"
  assumes wake_law: "\<exists>t. wake s = (Inr (), t) \<and> receive_buf t = receive_buf s \<and> receive_pos t = receive_pos s
      \<and> ok t = ok s \<and> adds s t []"
    and window_law: "rx_ok s \<Longrightarrow> ok s \<Longrightarrow> \<exists>t bs. window s = (Inr (), t) \<and> rx_ok t \<and> ok t \<and> adds s t bs
      \<and> rx_data t = rx_data s @ bs"
    and adds_refl: "adds s s []"
    and adds_trans: "adds s t bs \<Longrightarrow> adds t u cs \<Longrightarrow> adds s u (bs @ cs)"
    and blind: "adds s (t\<lparr>receive_buf := b\<rparr>) bs = adds s t bs" "ok (t\<lparr>receive_buf := b\<rparr>) = ok t"
      "ok (t\<lparr>receive_pos := p\<rparr>) = ok t"
begin

text \<open>The loop has moved \<open>copied\<close> of the bytes behind the first \<open>len\<close> of the data \<open>D\<close> to the front.\<close>

definition moved :: "nat \<Rightarrow> nat \<Rightarrow> u8 list \<Rightarrow> 's console_scheme \<Rightarrow> bool" where
  "moved len copied D s \<longleftrightarrow> rx_ok s \<and> ok s \<and> length D = receive_pos s \<and> len + copied \<le> receive_pos s
     \<and> take copied (receive_buf s) = take copied (drop len D)
     \<and> drop (len + copied) (rx_data s) = drop (len + copied) D"

text \<open>A round moves the rest of the data and then either ends or has received more.\<close>

lemma pop_round_run:
  assumes m: "moved len copied D s"
  obtains t where "pop_round wake window len copied s = (Inr (Inr ()), t)" "adds s (t\<lparr>receive_pos := length D\<rparr>) []"
      "rx_ok t" "ok t" "rx_data t = drop len D"
  | t bs where "pop_round wake window len copied s = (Inr (Inl (length D - len)), t)" "bs \<noteq> []" "adds s t bs"
      "moved len (length D - len) (D @ bs) t"
proof -
  let ?p = "receive_pos s"
  have s: "rx_ok s" "ok s" "length D = ?p" "len + copied \<le> ?p" "take copied (receive_buf s) = take copied (drop len D)"
      "drop (len + copied) (rx_data s) = drop (len + copied) D" using m by (simp_all add: moved_def)
  have l: "?p \<le> length (receive_buf s)" using s(1) by (simp add: rx_ok_def)
  have "copied + len + (?p - len - copied) \<le> length (receive_buf s)" using s(4) l by simp
  then obtain buf' where b: "memmove (receive_buf s) copied (copied + len) (?p - len - copied) = Some buf'"
      "length buf' = length (receive_buf s)"
      "take (copied + (?p - len - copied)) buf' = take copied (receive_buf s) @ take (?p - len - copied) (drop (copied + len) (receive_buf s))"
      "drop (copied + len + (?p - len - copied)) buf' = drop (copied + len + (?p - len - copied)) (receive_buf s)"
    by (rule memmove_down [OF _ le_add1])
  have "take (?p - len - copied) (drop (copied + len) (receive_buf s)) = drop (len + copied) (rx_data s)"
    by (simp add: rx_data_def drop_take add.commute)
  moreover have "drop (len + copied) D = drop copied (drop len D)" by (simp add: add.commute)
  moreover have "copied + (?p - len - copied) = ?p - len" using s(4) by simp
  ultimately have b3: "take (?p - len) buf' = drop len D"
    using b(3) s(5,6) append_take_drop_id [of copied "drop len D"] by metis
  let ?move = "mwhen (?p - len \<noteq> 0) (mbind (gets receive_buf) (\<lambda>buf.
               case memmove buf copied (copied + len) (?p - len - copied) of
                 None \<Rightarrow> fail (Fault ''read past the buffer'')
               | Some buf' \<Rightarrow> mseq (modify (\<lambda>s. s\<lparr>receive_buf := buf'\<rparr>)) wake))"
  obtain u where u: "?move s = (Inr (), u)" "rx_ok u" "ok u" "adds s u []" "receive_pos u = ?p"
      "take (?p - len) (receive_buf u) = drop len D"
  proof (cases "?p - len = 0")
    case True
    then show thesis using that [of s] s by (simp add: adds_refl)
  next
    case False
    obtain u where "wake (s\<lparr>receive_buf := buf'\<rparr>) = (Inr (), u)" "receive_buf u = buf'" "receive_pos u = ?p" "ok u" "adds s u []"
      using wake_law [of "s\<lparr>receive_buf := buf'\<rparr>"] s(2) adds_trans [of s "s\<lparr>receive_buf := buf'\<rparr>" "[]" _ "[]"]
      by (auto simp: blind adds_refl)
    then show thesis using that [of u] False s(1) b(1,2) b3 by (simp add: run_simps rx_ok_def)
  qed
  obtain t bs where t: "window u = (Inr (), t)" "rx_ok t" "ok t" "adds u t bs" "rx_data t = rx_data u @ bs"
    using window_law [OF u(2,3)] by blast
  have pt: "receive_pos t = ?p + length bs"
    using rx_data_length [OF t(2)] rx_data_length [OF u(2)] t(5) u(5) by simp
  have st: "adds s t bs" using adds_trans [OF u(4) t(4)] by simp
  have le: "\<not> ?p < len + copied" "len \<le> ?p" using s(4) by simp_all
  have run: "pop_round wake window len copied s =
      (if bs \<noteq> [] then (Inr (Inl (if ?p - len \<noteq> 0 then ?p - len else copied)), t)
       else (Inr (Inr ()), t\<lparr>receive_pos := ?p - len\<rparr>))"
  proof -
    let ?rest = "mseq window (mbind (gets receive_pos) (\<lambda>rpos'.
        if ?p \<noteq> rpos' then ret (Inl (if ?p - len \<noteq> 0 then ?p - len else copied))
        else mseq (modify (\<lambda>s. s\<lparr>receive_pos := ?p - len\<rparr>)) (ret (Inr ()))))"
    have "pop_round wake window len copied s = mseq ?move ?rest s"
      unfolding pop_round_def Let_def by (subst mbind_Inr [of "gets receive_pos" s ?p s]) (use le(1) in simp_all)
    also have "\<dots> = ?rest u" by (rule mseq_Inr [of ?move s "()" u, OF u(1)])
    finally show ?thesis using t(1) pt by (simp add: run_simps)
  qed
  have tk: "take (?p - len) (receive_buf t) = drop len D"
  proof -
    have "?p - len \<le> receive_pos t" using pt by simp
    then have "take (?p - len) (receive_buf t) = take (?p - len) (rx_data t)" by (simp add: rx_data_def min_absorb1)
    also have "\<dots> = take (?p - len) (rx_data u)"
      unfolding t(5) using rx_data_length [OF u(2)] u(5) by simp
    also have "\<dots> = take (?p - len) (receive_buf u)" using u(5) by (simp add: rx_data_def min_absorb1)
    finally show ?thesis using u(6) by simp
  qed
  show thesis
  proof (cases "bs = []")
    case True
    have "length D = receive_pos t" using pt True s(3) by simp
    then have "t\<lparr>receive_pos := length D\<rparr> = t" by simp
    then have "adds s (t\<lparr>receive_pos := length D\<rparr>) []" using st True by simp
    moreover have "?p - len \<le> RX_BUFFER_SIZE" using s(1) by (auto simp: rx_ok_def)
    ultimately show thesis using that(1) [of "t\<lparr>receive_pos := ?p - len\<rparr>"] run True t(2,3) tk pt s(3)
      by (simp add: blind rx_ok_def rx_data_def)
  next
    case False
    have c: "(if ?p - len \<noteq> 0 then ?p - len else copied) = length D - len" using s(3,4) by simp
    have "drop ?p (rx_data t) = bs" using rx_data_length [OF u(2)] u(5) by (simp add: t(5))
    then have "moved len (length D - len) (D @ bs) t"
      using t(2,3) pt s(3) tk le by (simp add: moved_def)
    then show thesis using that(2) [of t bs] run False c st by simp
  qed
qed

text \<open>The loop ends and has removed exactly the first \<open>len\<close> bytes of the data and of what arrived meanwhile.\<close>

lemma pop_loop:
  assumes "moved len copied D s"
  shows "\<exists>t bs. cloop (pop_round wake window len) copied s = (Inr (), t) \<and> rx_ok t \<and> ok t
    \<and> adds s (t\<lparr>receive_pos := length D + length bs\<rparr>) bs \<and> rx_data t = drop len (D @ bs)"
  using assms
proof (induction "RX_BUFFER_SIZE - length D" arbitrary: copied D s rule: less_induct)
  case less
  from less.prems show ?case
  proof (cases rule: pop_round_run)
    case (1 t)
    then show ?thesis using cloop_return [of "pop_round wake window len" copied s "()" t] by (intro exI [of _ t] exI [of _ "[]"]) simp
  next
    case (2 t bs)
    have "length (D @ bs) \<le> RX_BUFFER_SIZE" using 2(4) by (simp add: moved_def rx_ok_def)
    then have "RX_BUFFER_SIZE - length (D @ bs) < RX_BUFFER_SIZE - length D" using 2(2) by (cases bs) auto
    from less.hyps [OF this 2(4)] obtain u cs where
      u: "cloop (pop_round wake window len) (length D - len) t = (Inr (), u)" "rx_ok u" "ok u"
        "adds t (u\<lparr>receive_pos := length (D @ bs) + length cs\<rparr>) cs" "rx_data u = drop len ((D @ bs) @ cs)"
      by blast
    have "cloop (pop_round wake window len) copied s = (Inr (), u)"
      using cloop_step [of "pop_round wake window len" copied s "length D - len" t] 2(1) u(1) by simp
    moreover have "adds s (u\<lparr>receive_pos := length D + length (bs @ cs)\<rparr>) (bs @ cs)"
      using adds_trans [OF 2(3) u(4)] by (simp add: add.assoc)
    ultimately show ?thesis using u(2,3,5) by (intro exI [of _ u] exI [of _ "bs @ cs"]) simp
  qed
qed

lemma pop_input:
  assumes "rx_ok s" "ok s" "len \<le> receive_pos s"
  obtains t bs where "cloop (pop_round wake window len) 0 s = (Inr (), t)" "rx_ok t" "ok t"
    "adds s (t\<lparr>receive_pos := receive_pos s + length bs\<rparr>) bs" "rx_data t = drop len (rx_data s @ bs)"
proof -
  have "moved len 0 (rx_data s) s" using assms by (simp add: moved_def rx_data_length)
  from pop_loop [OF this] show thesis using that rx_data_length [OF assms(1)] by auto
qed

end

text \<open>The serial port stores the received bytes as far as there is room.\<close>

definition serial_adds :: "'s console_scheme \<Rightarrow> 's console_scheme \<Rightarrow> u8 list \<Rightarrow> bool" where
  "serial_adds s t bs \<longleftrightarrow> rx_irq t = rx_irq s \<and> rx_n s \<le> rx_n t \<and> receive_pos t = receive_pos s + length bs
     \<and> bs = take (RX_BUFFER_SIZE - receive_pos s) (concat (map (rx_irq s) [rx_n s..<rx_n t]))"

lemma serial_rx_bytes_run:
  assumes "rx_ok s"
  shows "\<exists>t. serial_rx_bytes bs s = (Inr (), t) \<and> rx_ok t \<and> rx_data t = rx_data s @ take (RX_BUFFER_SIZE - receive_pos s) bs
    \<and> rx_irq t = rx_irq s \<and> rx_n t = rx_n s"
  using assms
proof (induction bs arbitrary: s)
  case (Cons b bs)
  show ?case
  proof (cases "receive_pos s < RX_BUFFER_SIZE")
    case True
    let ?s = "if b = MESSAGE_SYNC then s\<lparr>tasks_status := TS_REQUESTED\<rparr> else s"
    let ?u = "?s\<lparr>receive_buf := (receive_buf s)[receive_pos s := b], receive_pos := Suc (receive_pos s)\<rparr>"
    have u: "serial_rx_byte b s = (Inr (), ?u)"
      using Cons.prems True by (simp add: serial_rx_byte_def run_simps sched_wake_tasks_def rx_ok_def)
    have r: "rx_ok ?u" "rx_data ?u = rx_data s @ [b]" "rx_irq ?u = rx_irq s" "rx_n ?u = rx_n s" "receive_pos ?u = Suc (receive_pos s)"
      using Cons.prems True by (simp_all add: rx_ok_def rx_data_def take_Suc_conv_app_nth)
    from Cons.IH [OF r(1)] obtain t where "serial_rx_bytes bs ?u = (Inr (), t)" "rx_ok t"
        "rx_data t = rx_data ?u @ take (RX_BUFFER_SIZE - receive_pos ?u) bs" "rx_irq t = rx_irq ?u" "rx_n t = rx_n ?u" by blast
    moreover have "take (RX_BUFFER_SIZE - receive_pos s) (b # bs) = b # take (RX_BUFFER_SIZE - Suc (receive_pos s)) bs"
      using True by (simp add: take_Cons')
    ultimately show ?thesis using r by (intro exI [of _ t]) (simp add: mseq_Inr [of "serial_rx_byte b" s "()" ?u, OF u])
  next
    case False
    let ?u = "if b = MESSAGE_SYNC then s\<lparr>tasks_status := TS_REQUESTED\<rparr> else s"
    have u: "serial_rx_byte b s = (Inr (), ?u)"
      using False by (simp add: serial_rx_byte_def run_simps sched_wake_tasks_def)
    have r: "rx_ok ?u" "rx_data ?u = rx_data s" "rx_irq ?u = rx_irq s" "rx_n ?u = rx_n s" "receive_pos ?u = receive_pos s"
      using Cons.prems by (simp_all add: rx_ok_def rx_data_def)
    from Cons.IH [OF r(1)] show ?thesis using r False by (simp add: mseq_Inr [of "serial_rx_byte b" s "()" ?u, OF u])
  qed
qed simp

interpretation serial: receiver sched_wake_tasks rx_window "\<lambda>_. True" serial_adds
proof
  fix s t u :: "'a console_scheme" and bs cs b p
  show "\<exists>t. sched_wake_tasks s = (Inr (), t) \<and> receive_buf t = receive_buf s \<and> receive_pos t = receive_pos s \<and> True = True
      \<and> serial_adds s t []"
    by (simp add: sched_wake_tasks_def serial_adds_def)
  show "serial_adds s s []" by (simp add: serial_adds_def)
  show "serial_adds s (t\<lparr>receive_buf := b\<rparr>) bs = serial_adds s t bs" by (simp add: serial_adds_def)
  {
    assume "rx_ok s"
    then have "rx_ok (s\<lparr>rx_n := Suc (rx_n s)\<rparr>)" by (simp add: rx_ok_def)
    then obtain t where t: "serial_rx_bytes (rx_irq s (rx_n s)) (s\<lparr>rx_n := Suc (rx_n s)\<rparr>) = (Inr (), t)" "rx_ok t"
        "rx_data t = rx_data s @ take (RX_BUFFER_SIZE - receive_pos s) (rx_irq s (rx_n s))" "rx_irq t = rx_irq s" "rx_n t = Suc (rx_n s)"
      using serial_rx_bytes_run [of "s\<lparr>rx_n := Suc (rx_n s)\<rparr>" "rx_irq s (rx_n s)"] by (auto simp: rx_data_def)
    then have "serial_adds s t (take (RX_BUFFER_SIZE - receive_pos s) (rx_irq s (rx_n s)))"
      using rx_data_length [OF t(2)] rx_data_length [OF \<open>rx_ok s\<close>] by (simp add: serial_adds_def)
    then show "\<exists>t bs. rx_window s = (Inr (), t) \<and> rx_ok t \<and> True \<and> serial_adds s t bs \<and> rx_data t = rx_data s @ bs"
      using t by (auto simp: rx_window_def run_simps)
  }
  {
    assume a: "serial_adds s t bs" "serial_adds t u cs"
    let ?A = "concat (map (rx_irq s) [rx_n s..<rx_n t])" and ?B = "concat (map (rx_irq s) [rx_n t..<rx_n u])"
    have b: "bs = take (RX_BUFFER_SIZE - receive_pos s) ?A" "cs = take (RX_BUFFER_SIZE - (receive_pos s + length bs)) ?B"
      using a by (simp_all add: serial_adds_def)
    have "[rx_n s..<rx_n u] = [rx_n s..<rx_n t] @ [rx_n t..<rx_n u]"
      using a upt_add_eq_append [of "rx_n s" "rx_n t" "rx_n u - rx_n t"] by (simp add: serial_adds_def)
    moreover have "take (RX_BUFFER_SIZE - receive_pos s) (?A @ ?B) = bs @ cs"
      using b by (cases "length ?A \<le> RX_BUFFER_SIZE - receive_pos s") auto
    ultimately show "serial_adds s u (bs @ cs)" using a by (simp add: serial_adds_def)
  }
qed simp_all

section \<open>The transmit buffer\<close>

definition tx_ok :: "'s console_scheme \<Rightarrow> bool" where
  "tx_ok s \<longleftrightarrow> length (transmit_buf s) = TX_BUFFER_SIZE \<and> transmit_pos s \<le> transmit_max s \<and> transmit_max s \<le> TX_BUFFER_SIZE"

text \<open>Everything that was ever queued for the line: what the line took and what waits in the buffer.\<close>

definition tx_out :: "'s console_scheme \<Rightarrow> u8 list" where
  "tx_out s = tx_line s @ drop (transmit_pos s) (take (transmit_max s) (transmit_buf s))"

text \<open>The interrupt moves bytes from the buffer to the line.\<close>

definition tx_moves :: "'s console_scheme \<Rightarrow> 's console_scheme \<Rightarrow> bool" where
  "tx_moves s t \<longleftrightarrow> tx_ok t \<and> tx_out t = tx_out s \<and> transmit_buf t = transmit_buf s \<and> transmit_max t = transmit_max s
     \<and> transmit_pos s \<le> transmit_pos t \<and> next_sequence t = next_sequence s"

lemma tx_one_run:
  assumes "tx_ok s"
  shows "\<exists>t. tx_one s = (Inr (), t) \<and> tx_moves s t"
proof (cases "transmit_pos s < transmit_max s")
  case True
  then have l: "transmit_pos s < length (transmit_buf s)" using assms by (simp add: tx_ok_def)
  have "drop (transmit_pos s) (take (transmit_max s) (transmit_buf s))
      = transmit_buf s ! transmit_pos s # drop (Suc (transmit_pos s)) (take (transmit_max s) (transmit_buf s))"
    using True l by (simp add: Cons_nth_drop_Suc [symmetric])
  then show ?thesis using True l assms
    by (simp add: tx_one_def serial_get_tx_byte_def run_simps tx_moves_def tx_ok_def tx_out_def)
next
  case False
  then show ?thesis using assms by (simp add: tx_one_def serial_get_tx_byte_def run_simps tx_moves_def)
qed

lemma tx_bytes_run: "tx_ok s \<Longrightarrow> \<exists>t. tx_bytes n s = (Inr (), t) \<and> tx_moves s t"
proof (induction n arbitrary: s)
  case (Suc n)
  obtain u where u: "tx_one s = (Inr (), u)" "tx_moves s u" using tx_one_run [OF Suc.prems] by blast
  obtain t where "tx_bytes n u = (Inr (), t)" "tx_moves u t" using Suc.IH [of u] u(2) by (auto simp: tx_moves_def)
  then show ?case using u by (intro exI [of _ t]) (auto simp: run_simps tx_moves_def)
qed (simp add: tx_moves_def)

lemma tx_window_run:
  assumes "tx_ok s"
  obtains t where "tx_window s = (Inr (), t)" "tx_moves s t"
proof -
  have "tx_ok (s\<lparr>tx_n := Suc (tx_n s)\<rparr>)" using assms by (simp add: tx_ok_def)
  then obtain t where "tx_bytes (tx_irq s (tx_n s)) (s\<lparr>tx_n := Suc (tx_n s)\<rparr>) = (Inr (), t)" "tx_moves (s\<lparr>tx_n := Suc (tx_n s)\<rparr>) t"
    using tx_bytes_run by blast
  moreover have "tx_out (s\<lparr>tx_n := Suc (tx_n s)\<rparr>) = tx_out s" by (simp add: tx_out_def)
  ultimately show thesis using that [of t] by (simp add: tx_window_def run_simps tx_moves_def)
qed

text \<open>Room for a message: either none, and nothing changes, or the first free position of the buffer.\<close>

lemma make_room_run:
  assumes ok: "tx_ok s"
  shows "\<exists>t r. console_make_room n s = (Inr r, t) \<and> tx_ok t \<and> tx_out t = tx_out s \<and> next_sequence t = next_sequence s
    \<and> (if transmit_max s - transmit_pos s + n \<le> TX_BUFFER_SIZE then r = Some (transmit_max t) \<and> transmit_max t + n \<le> TX_BUFFER_SIZE
       else r = None)"
proof -
  obtain u where u: "tx_window s = (Inr (), u)" "tx_moves s u" by (rule tx_window_run [OF ok])
  have uo: "tx_ok u" "tx_out u = tx_out s" "transmit_buf u = transmit_buf s" "transmit_max u = transmit_max s"
     "transmit_pos s \<le> transmit_pos u" "next_sequence u = next_sequence s" using u(2) by (simp_all add: tx_moves_def)
  show ?thesis
  proof (cases "transmit_pos s < transmit_max s")
    case False
    have e: "transmit_pos u = transmit_max u" "transmit_pos s = transmit_max s" using False uo ok by (auto simp: tx_ok_def)
    then have "tx_out u = tx_line u" by (simp add: tx_out_def)
    then show ?thesis using False e uo u(1)
      by (auto simp: console_make_room_def run_simps Let_def tx_ok_def tx_out_def)
  next
    case True
    show ?thesis
    proof (cases "transmit_max s + n \<le> TX_BUFFER_SIZE")
      case l: True
      then show ?thesis using True uo u(1)
        by (auto simp: console_make_room_def run_simps Let_def)
    next
      case l: False
      show ?thesis
      proof (cases "transmit_max s + n - transmit_pos s \<le> TX_BUFFER_SIZE")
        case False
        then show ?thesis using True l uo u(1)
          by (auto simp: console_make_room_def run_simps Let_def)
      next
        case r: True
        let ?p = "transmit_pos u" and ?m = "transmit_max s"
        have pm: "?p \<le> ?m" "?m \<le> length (transmit_buf s)" using uo ok by (auto simp: tx_ok_def)
        obtain b where b: "memmove (transmit_buf s) 0 ?p (?m - ?p) = Some b" "length b = length (transmit_buf s)"
            "take (0 + (?m - ?p)) b = take 0 (transmit_buf s) @ take (?m - ?p) (drop ?p (transmit_buf s))"
          by (rule memmove_down [of ?p "?m - ?p" "transmit_buf s" 0]) (use pm in auto)
        then have "take (?m - ?p) b = drop ?p (take ?m (transmit_buf s))" by (simp add: drop_take)
        then show ?thesis using True l r uo u(1) b(1,2) pm ok
          by (auto simp: console_make_room_def run_simps Let_def serial_enable_tx_irq_def tx_ok_def tx_out_def)
      qed
    qed
  qed
qed

text \<open>In a large enough buffer the encoder produces the message \<open>m\<close>, within the size it announces.\<close>

definition encodes :: "u8 \<Rightarrow> command_encoder \<Rightarrow> arg list \<Rightarrow> u8 list \<Rightarrow> bool" where
  "encodes seq ce args m \<longleftrightarrow> length m \<le> unat (ce_max_size ce) \<and> (\<forall>buf. unat (ce_max_size ce) \<le> length buf \<longrightarrow>
     (\<exists>buf'. command_encode_and_frame seq buf ce args = Inr (buf', length m) \<and> length buf' = length buf
        \<and> take (length m) buf' = m))"

lemma console_encode_run:
  assumes e: "encodes (next_sequence s) ce args m" and ok: "tx_ok s" and r: "transmit_max s + unat (ce_max_size ce) \<le> TX_BUFFER_SIZE"
  obtains t where "console_encode (transmit_max s) ce args s = (Inr (length m), t)" "tx_ok t" "tx_out t = tx_out s"
    "transmit_max t = transmit_max s" "take (transmit_max s + length m) (transmit_buf t) = take (transmit_max s) (transmit_buf s) @ m"
proof -
  let ?m = "transmit_max s"
  have l: "?m \<le> length (transmit_buf s)" "length (transmit_buf s) = TX_BUFFER_SIZE" using ok by (simp_all add: tx_ok_def)
  have "unat (ce_max_size ce) \<le> length (drop ?m (transmit_buf s))" using r l by simp
  then obtain b where b: "command_encode_and_frame (next_sequence s) (drop ?m (transmit_buf s)) ce args = Inr (b, length m)"
      "length b = length (drop ?m (transmit_buf s))" "take (length m) b = m"
    using e unfolding encodes_def by blast
  let ?t = "s\<lparr>transmit_buf := take ?m (transmit_buf s) @ b\<rparr>"
  have "console_encode ?m ce args s = (Inr (length m), ?t)" using b(1) by (simp add: console_encode_def run_simps)
  moreover have "tx_ok ?t" "tx_out ?t = tx_out s" using ok l b(2) by (simp_all add: tx_ok_def tx_out_def)
  moreover have "take (?m + length m) (transmit_buf ?t) = take ?m (transmit_buf s) @ m" using l b(3) by simp
  ultimately show thesis using that [of ?t] by simp
qed

lemma encodes_ack:
  "encodes seq encode_acknak [] (let crc = crc16_ccitt [5, seq] 2 in [5, seq, ucast (drop_bit 8 crc), ucast crc, MESSAGE_SYNC])"
proof -
  have "command_encode_and_frame seq buf encode_acknak [] = Inr (let crc = crc16_ccitt [5, seq] 2
      in [5, seq, ucast (drop_bit 8 crc), ucast crc, MESSAGE_SYNC] @ drop 5 buf, 5)" if b: "5 \<le> length buf" for buf
  proof -
    obtain b0 b1 b2 b3 b4 r where "buf = b0 # b1 # b2 # b3 # b4 # r"
      using b by (cases buf rule: remdups_adj.cases; simp) (auto simp: Suc_le_length_iff numeral_eq_Suc)
    then show ?thesis
      by (simp add: command_encode_and_frame_def command_encodef_def encode_acknak_def command_add_frame_def message_consts Let_def crc16_ccitt_def)
  qed
  then show ?thesis by (auto simp: encodes_def encode_acknak_def Let_def)
qed

text \<open>
  C16: The serial console never loses, repeats or reorders what it sends.  Whatever the port takes while a message is
  queued, the bytes on the line followed by the bytes that wait are those of before with the whole message behind
  them; the message is dropped, and nothing else changes, exactly when the bytes that waited and its announced size
  exceed the buffer.\<close>

theorem console_sendf_fifo:
  assumes "tx_ok s" "encodes (next_sequence s) ce args m"
  shows "\<exists>t. console_sendf ce args s = (Inr (), t) \<and> tx_ok t \<and> tx_out t = tx_out s
    @ (if transmit_max s - transmit_pos s + unat (ce_max_size ce) \<le> TX_BUFFER_SIZE then m else [])"
proof -
  obtain u r where u: "console_make_room (unat (ce_max_size ce)) s = (Inr r, u)" "tx_ok u" "tx_out u = tx_out s" "next_sequence u = next_sequence s"
    "if transmit_max s - transmit_pos s + unat (ce_max_size ce) \<le> TX_BUFFER_SIZE
       then r = Some (transmit_max u) \<and> transmit_max u + unat (ce_max_size ce) \<le> TX_BUFFER_SIZE else r = None"
    using make_room_run [OF assms(1)] by blast
  show ?thesis
  proof (cases "transmit_max s - transmit_pos s + unat (ce_max_size ce) \<le> TX_BUFFER_SIZE")
    case False
    then show ?thesis using u by (simp add: console_sendf_def run_simps)
  next
    case True
    let ?m = "transmit_max u"
    have room: "r = Some ?m" "?m + unat (ce_max_size ce) \<le> TX_BUFFER_SIZE" using u(5) True by simp_all
    have "encodes (next_sequence u) ce args m" using assms(2) u(4) by simp
    from console_encode_run [OF this u(2) room(2)] obtain v where v: "console_encode ?m ce args u = (Inr (length m), v)" "tx_ok v"
        "tx_out v = tx_out u" "transmit_max v = ?m" "take (?m + length m) (transmit_buf v) = take ?m (transmit_buf u) @ m"
      by blast
    obtain w where w: "tx_window v = (Inr (), w)" "tx_moves v w" by (rule tx_window_run [OF v(2)])
    then have w2: "tx_ok w" "tx_out w = tx_out v" "transmit_buf w = transmit_buf v" "transmit_max w = ?m"
      using v(4) by (simp_all add: tx_moves_def)
    let ?t = "w\<lparr>transmit_max := ?m + length m, tx_enables := Suc (tx_enables w)\<rparr>"
    have "console_sendf ce args s = (Inr (), ?t)"
      by (simp add: console_sendf_def run_simps u(1) room(1) v(1) w(1) serial_enable_tx_irq_def)
    moreover have lm: "length m \<le> unat (ce_max_size ce)" using assms(2) by (simp add: encodes_def)
    then have "tx_ok ?t" using w2(1,4) room(2) by (simp add: tx_ok_def)
    moreover have "tx_out ?t = tx_out w @ m"
    proof -
      have "take ?m (transmit_buf v) = take ?m (take (?m + length m) (transmit_buf v))" by simp
      also have "\<dots> = take ?m (transmit_buf u)" unfolding v(5) using u(2) by (simp add: tx_ok_def)
      finally have "take ?m (transmit_buf w) = take ?m (transmit_buf u)" using w2(3) by simp
      moreover have "length (take ?m (transmit_buf u)) = ?m" "transmit_pos w \<le> ?m" using u(2) w2(1,4) by (simp_all add: tx_ok_def)
      ultimately show ?thesis using v(5) w2(3,4) by (simp add: tx_out_def)
    qed
    ultimately show ?thesis using True w2(2) v(3) u(3) by simp
  qed
qed

theorem console_sendf_fifo_witness:
  "\<exists>t. console_sendf encode_acknak [] (console_static\<lparr>tx_irq := (\<lambda>_. 2), transmit_buf := [1, 2, 3] @ replicate 93 0, transmit_max := 3\<rparr>)
      = (Inr (), t) \<and> take 5 (tx_out t) = [1, 2, 3, 5, MESSAGE_DEST]"
  (is "\<exists>t. console_sendf _ _ ?s = _ \<and> _")
proof -
  have s: "tx_ok ?s" "next_sequence ?s = MESSAGE_DEST" "tx_out ?s = [1, 2, 3]"
    by (simp_all add: tx_ok_def tx_out_def console_consts console_static_simps)
  show ?thesis
    using console_sendf_fifo [OF s(1) encodes_ack] unfolding s(2,3)
    by (auto simp: encode_acknak_def console_consts console_static_simps Let_def)
qed

text \<open>
  C7: Removing a message from the receive buffer is safe against reception.  However the interrupt stores bytes
  between the steps of \<open>console_pop_input\<close>, the loop ends, and the buffer holds what it held and all that arrived
  meanwhile, as far as it had room, without the first \<open>len\<close> bytes: nothing is lost, doubled or out of order.\<close>

theorem console_pop_input_fifo:
  assumes "length (receive_buf s) = RX_BUFFER_SIZE" "receive_pos s \<le> RX_BUFFER_SIZE" "len \<le> receive_pos s"
  shows "\<exists>t. console_pop_input len s = (Inr (), t) \<and> length (receive_buf t) = RX_BUFFER_SIZE \<and> receive_pos t \<le> RX_BUFFER_SIZE
    \<and> take (receive_pos t) (receive_buf t) = drop len (take RX_BUFFER_SIZE
        (take (receive_pos s) (receive_buf s) @ concat (map (rx_irq s) [rx_n s..<rx_n t])))"
proof -
  have ok: "rx_ok s" using assms by (simp add: rx_ok_def)
  obtain t bs where t: "cloop (pop_round sched_wake_tasks rx_window len) 0 s = (Inr (), t)" "rx_ok t"
      "serial_adds s (t\<lparr>receive_pos := receive_pos s + length bs\<rparr>) bs" "rx_data t = drop len (rx_data s @ bs)"
    by (rule serial.pop_input [OF ok TrueI assms(3)])
  have "rx_data s @ bs = take RX_BUFFER_SIZE (rx_data s @ concat (map (rx_irq s) [rx_n s..<rx_n t]))"
    using t(3) rx_data_length [OF ok] assms(2) by (simp add: serial_adds_def)
  then show ?thesis using t(1,2,4)
    by (intro exI [of _ t]) (simp add: console_pop_input_def rx_ok_def rx_data_def)
qed

theorem console_pop_input_fifo_witness:
  "\<exists>t. console_pop_input 3 (console_static\<lparr>receive_pos := 4, rx_irq := (\<lambda>n. if n = 0 then [8, 9] else [])\<rparr>) = (Inr (), t)
    \<and> receive_pos t \<le> 192"
  using console_pop_input_fifo [of "console_static\<lparr>receive_pos := 4, rx_irq := (\<lambda>n. if n = 0 then [8, 9] else [])\<rparr>" 3]
  by (auto simp: console_consts console_static_simps)

end
