(* ===== verification/Canserial.thy ===== *)
theory Canserial
  imports Console
begin

text \<open>The console over a CAN bus, \<open>src/src/generic/canserial.c\<close> and \<open>src/src/generic/canbus.c\<close>.\<close>

section \<open>The bus\<close>

definition CANBUS_ID_ADMIN :: u32 where "CANBUS_ID_ADMIN = 0x3f0"
definition CANBUS_ID_ADMIN_RESP :: u32 where "CANBUS_ID_ADMIN_RESP = 0x3f1"
definition CANBUS_UUID_LEN :: nat where "CANBUS_UUID_LEN = 6"
definition CANBUS_CMD_QUERY_UNASSIGNED :: u8 where "CANBUS_CMD_QUERY_UNASSIGNED = 0"
definition CANBUS_CMD_SET_KLIPPER_NODEID :: u8 where "CANBUS_CMD_SET_KLIPPER_NODEID = 1"
definition CANBUS_CMD_REQUEST_BOOTLOADER :: u8 where "CANBUS_CMD_REQUEST_BOOTLOADER = 2"
definition CANBUS_RESP_NEED_NODEID :: u8 where "CANBUS_RESP_NEED_NODEID = 0x20"

lemmas canbus_consts = CANBUS_ID_ADMIN_def CANBUS_ID_ADMIN_RESP_def CANBUS_UUID_LEN_def
  CANBUS_CMD_QUERY_UNASSIGNED_def CANBUS_CMD_SET_KLIPPER_NODEID_def CANBUS_CMD_REQUEST_BOOTLOADER_def
  CANBUS_RESP_NEED_NODEID_def

definition CANMSG_DATA_LEN :: "canbus_msg \<Rightarrow> nat" where
  "CANMSG_DATA_LEN msg = (if cm_dlc msg > 8 then 8 else unat (cm_dlc msg))"

text \<open>A message is on its way when the controller returns a positive number.\<close>

definition canbus_send :: "canbus_msg \<Rightarrow> ('s console_scheme, int) cmd" where
  "canbus_send msg = mbind (gets (\<lambda>s. can_ret s (can_ret_n s))) (\<lambda>r.
     mseq (modify (\<lambda>s. s\<lparr>can_ret_n := Suc (can_ret_n s), can_sent := if r > 0 then can_sent s @ [msg] else can_sent s\<rparr>))
       (ret r))"

definition canbus_set_filter :: "u32 \<Rightarrow> ('s console_scheme, unit) cmd" where
  "canbus_set_filter i = modify (\<lambda>s. s\<lparr>can_filters := can_filters s @ [i]\<rparr>)"

section \<open>Transmission\<close>

definition canserial_notify_tx :: "('s console_scheme, unit) cmd" where
  "canserial_notify_tx = sched_wake_task Can_tx_wake"

text \<open>The loop of \<open>canserial_tx_task\<close>, which sends packets of at most eight bytes; the result is \<open>tpos\<close>.\<close>

definition can_tx_round :: "u32 \<Rightarrow> nat \<Rightarrow> nat \<Rightarrow> ('s console_scheme, nat + nat) cmd" where
  "can_tx_round i tmax tpos =
     (if tmax \<le> tpos then ret (Inr tpos)
      else let now = (if tmax - tpos > 8 then 8 else tmax - tpos) in
        mbind (gets transmit_buf) (\<lambda>buf.
        if tpos + now > length buf then fail (Fault ''read past the buffer'')
        else mbind (canbus_send \<lparr>cm_id = i + 1, cm_dlc = of_nat now, cm_data = take now (drop tpos buf)\<rparr>) (\<lambda>r.
          if r \<le> 0 then ret (Inr tpos) else ret (Inl (tpos + now)))))"

definition canserial_tx_task :: "('s console_scheme, unit) cmd" where
  "canserial_tx_task = mbind (sched_check_wake Can_tx_wake) (\<lambda>w. mwhen w (
     mbind (gets assigned_id) (\<lambda>id.
     if id = 0 then modify (\<lambda>s. s\<lparr>transmit_pos := 0, transmit_max := 0\<rparr>)
     else mbind (gets (\<lambda>s. (transmit_pos s, transmit_max s))) (\<lambda>(tpos0, tmax).
       mbind (cloop (can_tx_round id tmax) tpos0) (\<lambda>tpos.
       modify (\<lambda>s. s\<lparr>transmit_pos := tpos\<rparr>))))))"

definition can_make_room :: "nat \<Rightarrow> ('s console_scheme, nat option) cmd" where
  "can_make_room max_size =
     mbind (gets (\<lambda>s. (transmit_pos s, transmit_max s))) (\<lambda>(tpos0, tmax0).
     let (tpos, tmax) = (if tpos0 \<ge> tmax0 then (0, 0) else (tpos0, tmax0)) in
     mseq (mwhen (tpos0 \<ge> tmax0) (modify (\<lambda>s. s\<lparr>transmit_pos := 0, transmit_max := 0\<rparr>))) (
     if tmax + max_size > TX_BUFFER_SIZE then
       if tmax + max_size - tpos > TX_BUFFER_SIZE then ret None
       else mbind (gets transmit_buf) (\<lambda>buf.
         case memmove buf 0 tpos (tmax - tpos) of
           None \<Rightarrow> fail (Fault ''read past the buffer'')
         | Some buf' \<Rightarrow>
             mseq (modify (\<lambda>s. s\<lparr>transmit_buf := buf', transmit_pos := 0, transmit_max := tmax - tpos\<rparr>))
               (ret (Some (tmax - tpos))))
     else ret (Some tmax)))"

definition can_console_sendf :: "command_encoder \<Rightarrow> arg list \<Rightarrow> ('s console_scheme, unit) cmd" where
  "can_console_sendf ce args = mbind (can_make_room (unat (ce_max_size ce))) (\<lambda>room.
     case room of
       None \<Rightarrow> ret ()
     | Some tmax \<Rightarrow>
         mbind (console_encode tmax ce args) (\<lambda>msglen.
         mseq (modify (\<lambda>s. s\<lparr>transmit_max := tmax + msglen\<rparr>)) canserial_notify_tx))"

section \<open>Administration of the node\<close>

definition can_check_uuid :: "'s console_scheme \<Rightarrow> canbus_msg \<Rightarrow> bool" where
  "can_check_uuid s msg \<longleftrightarrow> cm_dlc msg \<ge> 7 \<and> take CANBUS_UUID_LEN (drop 1 (cm_data msg)) = can_uuid s"

definition can_get_nodeid :: "u32 \<Rightarrow> u32" where
  "can_get_nodeid i = (if i = 0 then 0 else drop_bit 1 (i - 0x100))"

definition can_decode_nodeid :: "u8 \<Rightarrow> u32" where
  "can_decode_nodeid nodeid = push_bit 1 (ucast nodeid) + 0x100"

definition can_process_query_unassigned :: "('s console_scheme, unit) cmd" where
  "can_process_query_unassigned = mbind (gets assigned_id) (\<lambda>id.
     if id \<noteq> 0 then ret ()
     else mbind (gets can_uuid) (\<lambda>uuid.
       let send = \<lparr>cm_id = CANBUS_ID_ADMIN_RESP, cm_dlc = 8,
                   cm_data = CANBUS_RESP_NEED_NODEID # uuid @ [CANBUS_CMD_SET_KLIPPER_NODEID]\<rparr>
       in cloop (\<lambda>_. mbind (canbus_send send) (\<lambda>r. if r \<ge> 0 then ret (Inr ()) else ret (Inl ()))) ()))"

definition can_id_conflict :: "('s console_scheme, unit) cmd" where
  "can_id_conflict = mseq (modify (\<lambda>s. s\<lparr>assigned_id := 0\<rparr>)) (
     mseq (canbus_set_filter 0)
     (shutdown ''can_id_conflict'' ''Another CAN node assigned this ID''))"

definition can_process_set_klipper_nodeid :: "canbus_msg \<Rightarrow> ('s console_scheme, unit) cmd" where
  "can_process_set_klipper_nodeid msg =
     (if cm_dlc msg < 8 then ret ()
      else let newid = can_decode_nodeid (cm_data msg ! 7) in
        mbind (gets (\<lambda>s. (assigned_id s, can_check_uuid s msg))) (\<lambda>(id, mine).
        if mine then mwhen (newid \<noteq> id) (mseq (modify (\<lambda>s. s\<lparr>assigned_id := newid\<rparr>)) (canbus_set_filter newid))
        else mwhen (newid = id) can_id_conflict))"

definition can_process_request_bootloader ::
  "('s console_scheme, unit) cmd option \<Rightarrow> canbus_msg \<Rightarrow> ('s console_scheme, unit) cmd" where
  "can_process_request_bootloader bootloader_request msg =
     (case bootloader_request of
        None \<Rightarrow> ret ()
      | Some req \<Rightarrow> mbind (gets (\<lambda>s. can_check_uuid s msg)) (\<lambda>mine. mwhen mine req))"

definition can_process_admin ::
  "('s console_scheme, unit) cmd option \<Rightarrow> canbus_msg \<Rightarrow> ('s console_scheme, unit) cmd" where
  "can_process_admin bootloader_request msg =
     (if cm_dlc msg = 0 then ret ()
      else let c = cm_data msg ! 0 in
        if c = CANBUS_CMD_QUERY_UNASSIGNED then can_process_query_unassigned
        else if c = CANBUS_CMD_SET_KLIPPER_NODEID then can_process_set_klipper_nodeid msg
        else if c = CANBUS_CMD_REQUEST_BOOTLOADER then can_process_request_bootloader bootloader_request msg
        else ret ())"

section \<open>Reception\<close>

definition canserial_notify_rx :: "('s console_scheme, unit) cmd" where
  "canserial_notify_rx = sched_wake_task Can_rx_wake"

definition can_rx_data :: "canbus_msg \<Rightarrow> ('s console_scheme, unit) cmd" where
  "can_rx_data msg = mbind (gets receive_pos) (\<lambda>rpos.
     let len = CANMSG_DATA_LEN msg in
     if len + rpos > RX_BUFFER_SIZE then ret ()
     else mbind (gets receive_buf) (\<lambda>buf.
       case write_bytes buf rpos (take len (cm_data msg)) of
         None \<Rightarrow> fail (Fault ''write past the buffer'')
       | Some buf' \<Rightarrow>
           mseq (modify (\<lambda>s. s\<lparr>receive_buf := buf', receive_pos := rpos + len\<rparr>)) canserial_notify_rx))"

definition can_rx_admin :: "canbus_msg \<Rightarrow> ('s console_scheme, unit) cmd" where
  "can_rx_admin msg = mbind (gets (\<lambda>s. (admin_push_pos s, admin_pull_pos s))) (\<lambda>(pushp, pullp).
     if pushp \<ge> pullp + of_nat ADMIN_QUEUE_SIZE then ret ()
     else
       mseq (modify (\<lambda>s. s\<lparr>admin_queue := (admin_queue s)[unat pushp mod ADMIN_QUEUE_SIZE := msg],
               admin_push_pos := pushp + 1\<rparr>))
       canserial_notify_rx)"

definition canserial_process_data :: "canbus_msg \<Rightarrow> ('s console_scheme, unit) cmd" where
  "canserial_process_data msg = mbind (gets assigned_id) (\<lambda>aid.
     if aid \<noteq> 0 \<and> cm_id msg = aid then can_rx_data msg
     else if cm_id msg = CANBUS_ID_ADMIN \<or> (aid \<noteq> 0 \<and> cm_id msg = aid + 1) then can_rx_admin msg
     else ret ())"

fun can_rx_msgs :: "canbus_msg list \<Rightarrow> ('s console_scheme, unit) cmd" where
  "can_rx_msgs [] = ret ()"
| "can_rx_msgs (m # ms) = mseq (canserial_process_data m) (can_rx_msgs ms)"

definition can_window :: "('s console_scheme, unit) cmd" where
  "can_window = mbind (gets (\<lambda>s. can_irq s (can_irq_n s))) (\<lambda>ms.
     mseq (modify (\<lambda>s. s\<lparr>can_irq_n := Suc (can_irq_n s)\<rparr>)) (can_rx_msgs ms))"

definition can_console_pop_input :: "nat \<Rightarrow> ('s console_scheme, unit) cmd" where
  "can_console_pop_input len = cloop (pop_round canserial_notify_rx can_window len) 0"

text \<open>One message of the queue of administrative messages.\<close>

definition can_admin_round ::
  "('s console_scheme, unit) cmd option \<Rightarrow> ('s console_scheme, unit + unit) cmd" where
  "can_admin_round bootloader_request =
     mseq can_window (
     mbind (gets (\<lambda>s. (admin_push_pos s, admin_pull_pos s))) (\<lambda>(pushp, pullp).
     if pushp = pullp then ret (Inr ())
     else
       mbind (gets (\<lambda>s. (admin_queue s ! (unat pullp mod ADMIN_QUEUE_SIZE), assigned_id s))) (\<lambda>(msg, aid).
       mseq (if aid \<noteq> 0 \<and> cm_id msg = aid + 1 then can_id_conflict
             else if cm_id msg = CANBUS_ID_ADMIN then can_process_admin bootloader_request msg
             else ret ()) (
       mseq (modify (\<lambda>s. s\<lparr>admin_pull_pos := pullp + 1\<rparr>)) (ret (Inl ()))))))"

definition canserial_rx_task ::
  "'s console_scheme command_parser list \<Rightarrow> ('s console_scheme, unit) cmd option \<Rightarrow> ('s console_scheme, unit) cmd" where
  "canserial_rx_task command_index bootloader_request =
     mbind (sched_check_wake Can_rx_wake) (\<lambda>w. mwhen w (
     mseq (cloop (\<lambda>_. can_admin_round bootloader_request) ()) (
     mbind (gets receive_pos) (\<lambda>rpos.
     mbind (gets receive_buf) (\<lambda>buf.
     mbind (command_find_block buf rpos) (\<lambda>(r, pop_count).
     mseq (mwhen (r > 0) (command_dispatch command_index buf pop_count)) (
     mseq can_window (
     mwhen (r \<noteq> 0) (
       mseq (can_console_pop_input pop_count)
       (mwhen (r > 0) command_send_ack))))))))))"

section \<open>Setup and shutdown\<close>

definition command_get_canbus_id :: "u32 list \<Rightarrow> ('s console_scheme, unit) cmd" where
  "command_get_canbus_id args = mbind (gets (\<lambda>s. (can_uuid s, assigned_id s))) (\<lambda>(uuid, id).
     sendf ''canbus_id canbus_uuid=%.*s canbus_nodeid=%u'' [Buf uuid, U (can_get_nodeid id)])"

text \<open>The bytes of a little-endian integer; \<open>fasthash64\<close> is a library function.\<close>

definition le_bytes :: "nat \<Rightarrow> u64 \<Rightarrow> u8 list" where
  "le_bytes n w = map (\<lambda>i. ucast (drop_bit (8 * i) w)) [0..<n]"

definition canserial_set_uuid :: "(u8 list \<Rightarrow> u64 \<Rightarrow> u64) \<Rightarrow> u8 list \<Rightarrow> ('s console_scheme, unit) cmd" where
  "canserial_set_uuid fasthash64 raw_uuid =
     mseq (modify (\<lambda>s. s\<lparr>can_uuid := le_bytes CANBUS_UUID_LEN (fasthash64 raw_uuid 0xA16231A7)\<rparr>)) canserial_notify_rx"

definition canserial_shutdown :: "('s console_scheme, unit) cmd" where
  "canserial_shutdown = mseq canserial_notify_tx canserial_notify_rx"

section \<open>Reception\<close>

text \<open>The bytes that reach the buffer when messages arrive at position \<open>r\<close>: those of a message that does not fit are lost.\<close>

fun can_accept :: "u32 \<Rightarrow> nat \<Rightarrow> canbus_msg list \<Rightarrow> u8 list" where
  "can_accept aid r [] = []"
| "can_accept aid r (m # ms) =
     (if aid \<noteq> 0 \<and> cm_id m = aid \<and> CANMSG_DATA_LEN m + r \<le> RX_BUFFER_SIZE
      then take (CANMSG_DATA_LEN m) (cm_data m) @ can_accept aid (r + CANMSG_DATA_LEN m) ms
      else can_accept aid r ms)"

definition msg_ok :: "canbus_msg \<Rightarrow> bool" where
  "msg_ok m \<longleftrightarrow> CANMSG_DATA_LEN m \<le> length (cm_data m)"

lemma can_accept_append:
  "\<forall>m\<in>set xs. msg_ok m \<Longrightarrow> can_accept aid r (xs @ ys) = can_accept aid r xs @ can_accept aid (r + length (can_accept aid r xs)) ys"
  by (induction xs arbitrary: r) (simp_all add: msg_ok_def add.assoc)

definition can_ok :: "'s console_scheme \<Rightarrow> bool" where
  "can_ok s \<longleftrightarrow> (\<forall>n. \<forall>m\<in>set (can_irq s n). msg_ok m)"

definition can_adds :: "'s console_scheme \<Rightarrow> 's console_scheme \<Rightarrow> u8 list \<Rightarrow> bool" where
  "can_adds s t bs \<longleftrightarrow> can_irq t = can_irq s \<and> can_irq_n s \<le> can_irq_n t \<and> assigned_id t = assigned_id s
     \<and> receive_pos t = receive_pos s + length bs
     \<and> (can_ok s \<longrightarrow> bs = can_accept (assigned_id s) (receive_pos s) (concat (map (can_irq s) [can_irq_n s..<can_irq_n t])))"

lemma can_msg_run:
  assumes "rx_ok s" "msg_ok m"
  shows "\<exists>t. canserial_process_data m s = (Inr (), t) \<and> rx_ok t \<and> can_irq t = can_irq s \<and> can_irq_n t = can_irq_n s
    \<and> assigned_id t = assigned_id s \<and> rx_data t = rx_data s @ can_accept (assigned_id s) (receive_pos s) [m]"
proof (cases "assigned_id s \<noteq> 0 \<and> cm_id m = assigned_id s \<and> CANMSG_DATA_LEN m + receive_pos s \<le> RX_BUFFER_SIZE")
  case True
  let ?l = "CANMSG_DATA_LEN m" and ?p = "receive_pos s"
  let ?b = "take ?p (receive_buf s) @ take ?l (cm_data m) @ drop (?p + ?l) (receive_buf s)"
  have l: "length (take ?l (cm_data m)) = ?l" "length (receive_buf s) = RX_BUFFER_SIZE" using assms by (simp_all add: msg_ok_def rx_ok_def)
  then have w: "write_bytes (receive_buf s) ?p (take ?l (cm_data m)) = Some ?b" using True by (simp add: write_bytes_def add.commute)
  have "length ?b = RX_BUFFER_SIZE" "take (?p + ?l) ?b = take ?p (receive_buf s) @ take ?l (cm_data m)" using True l by simp_all
  then show ?thesis using True w
    by (simp add: canserial_process_data_def can_rx_data_def run_simps Let_def canserial_notify_rx_def rx_ok_def rx_data_def add.commute)
next
  case False
  then show ?thesis using assms(1)
    by (auto simp: canserial_process_data_def can_rx_data_def can_rx_admin_def run_simps Let_def canserial_notify_rx_def rx_ok_def rx_data_def)
qed

lemma can_msgs_run:
  assumes "rx_ok s" "\<forall>m\<in>set ms. msg_ok m"
  shows "\<exists>t. can_rx_msgs ms s = (Inr (), t) \<and> rx_ok t \<and> can_irq t = can_irq s \<and> can_irq_n t = can_irq_n s
    \<and> assigned_id t = assigned_id s \<and> rx_data t = rx_data s @ can_accept (assigned_id s) (receive_pos s) ms"
  using assms
proof (induction ms arbitrary: s)
  case (Cons m ms)
  obtain u where u: "canserial_process_data m s = (Inr (), u)" "rx_ok u" "can_irq u = can_irq s" "can_irq_n u = can_irq_n s"
      "assigned_id u = assigned_id s" "rx_data u = rx_data s @ can_accept (assigned_id s) (receive_pos s) [m]"
    using can_msg_run [of s m] Cons.prems by auto
  have p: "receive_pos u = receive_pos s + length (can_accept (assigned_id s) (receive_pos s) [m])"
    using rx_data_length [OF u(2)] rx_data_length [OF Cons.prems(1)] u(6) by simp
  obtain t where t: "can_rx_msgs ms u = (Inr (), t)" "rx_ok t" "can_irq t = can_irq u" "can_irq_n t = can_irq_n u"
      "assigned_id t = assigned_id u" "rx_data t = rx_data u @ can_accept (assigned_id u) (receive_pos u) ms"
    using Cons.IH [OF u(2)] Cons.prems(2) by auto
  have "can_accept (assigned_id s) (receive_pos s) (m # ms) = can_accept (assigned_id s) (receive_pos s) [m]
      @ can_accept (assigned_id s) (receive_pos u) ms"
    using can_accept_append [of "[m]" "assigned_id s" "receive_pos s" ms] Cons.prems(2) p by simp
  moreover have "can_rx_msgs (m # ms) s = (Inr (), t)" using u(1) t(1) by (simp add: run_simps)
  ultimately show ?case using t u by (intro exI [of _ t]) simp
qed simp

interpretation can: receiver canserial_notify_rx can_window can_ok can_adds
proof
  fix s t u :: "'a console_scheme" and bs cs b p
  show "\<exists>t. canserial_notify_rx s = (Inr (), t) \<and> receive_buf t = receive_buf s \<and> receive_pos t = receive_pos s \<and> can_ok t = can_ok s
      \<and> can_adds s t []"
    by (simp add: canserial_notify_rx_def can_adds_def can_ok_def)
  show "can_adds s s []" "can_adds s (t\<lparr>receive_buf := b\<rparr>) bs = can_adds s t bs" "can_ok (t\<lparr>receive_buf := b\<rparr>) = can_ok t"
    "can_ok (t\<lparr>receive_pos := p\<rparr>) = can_ok t"
    by (simp_all add: can_adds_def can_ok_def)
  {
    assume ok: "rx_ok s" "can_ok s"
    have "rx_ok (s\<lparr>can_irq_n := Suc (can_irq_n s)\<rparr>)" using ok by (simp add: rx_ok_def)
    then obtain t where t: "can_rx_msgs (can_irq s (can_irq_n s)) (s\<lparr>can_irq_n := Suc (can_irq_n s)\<rparr>) = (Inr (), t)" "rx_ok t"
        "can_irq t = can_irq s" "can_irq_n t = Suc (can_irq_n s)" "assigned_id t = assigned_id s"
        "rx_data t = rx_data s @ can_accept (assigned_id s) (receive_pos s) (can_irq s (can_irq_n s))"
      using can_msgs_run [of "s\<lparr>can_irq_n := Suc (can_irq_n s)\<rparr>" "can_irq s (can_irq_n s)"] ok(2) by (auto simp: rx_data_def can_ok_def)
    then have "can_adds s t (can_accept (assigned_id s) (receive_pos s) (can_irq s (can_irq_n s)))" "can_ok t"
      using rx_data_length [OF t(2)] rx_data_length [OF ok(1)] ok(2) by (simp_all add: can_adds_def can_ok_def)
    then show "\<exists>t bs. can_window s = (Inr (), t) \<and> rx_ok t \<and> can_ok t \<and> can_adds s t bs \<and> rx_data t = rx_data s @ bs"
      using t by (auto simp: can_window_def run_simps)
  }
  {
    assume a: "can_adds s t bs" "can_adds t u cs"
    let ?A = "concat (map (can_irq s) [can_irq_n s..<can_irq_n t])" and ?B = "concat (map (can_irq s) [can_irq_n t..<can_irq_n u])"
    have "[can_irq_n s..<can_irq_n u] = [can_irq_n s..<can_irq_n t] @ [can_irq_n t..<can_irq_n u]"
      using a upt_add_eq_append [of "can_irq_n s" "can_irq_n t" "can_irq_n u - can_irq_n t"] by (simp add: can_adds_def)
    moreover have "bs @ cs = can_accept (assigned_id s) (receive_pos s) (?A @ ?B)" if o: "can_ok s"
    proof -
      have "can_ok t" using a(1) o by (simp add: can_adds_def can_ok_def)
      moreover have "\<forall>m\<in>set ?A. msg_ok m" using o by (auto simp: can_ok_def)
      ultimately show ?thesis using a o by (simp add: can_adds_def can_accept_append)
    qed
    ultimately show "can_adds s u (bs @ cs)" using a by (simp add: can_adds_def)
  }
qed

section \<open>Transmission\<close>

text \<open>A packet of at most eight bytes from the node.\<close>

definition packet :: "u32 \<Rightarrow> canbus_msg \<Rightarrow> bool" where
  "packet i m \<longleftrightarrow> cm_id m = i + 1 \<and> cm_dlc m = of_nat (length (cm_data m)) \<and> 0 < length (cm_data m) \<and> length (cm_data m) \<le> 8"

lemma take_drop_split: "p + n \<le> q \<Longrightarrow> take n (drop p b) @ drop (p + n) (take q b) = drop p (take q b)"
proof -
  assume q: "p + n \<le> q"
  have "drop p (take q b) = take n (drop p (take q b)) @ drop n (drop p (take q b))"
    by (rule append_take_drop_id [symmetric])
  moreover have "take n (drop p (take q b)) = take n (drop p b)" using q by (simp add: take_drop min_absorb1)
  moreover have "drop n (drop p (take q b)) = drop (p + n) (take q b)" by (simp add: add.commute)
  ultimately show ?thesis by metis
qed

lemma can_tx_loop:
  assumes "p \<le> tmax" "tmax \<le> length (transmit_buf s)"
  shows "\<exists>t q ms. cloop (can_tx_round i tmax) p s = (Inr q, t) \<and> p \<le> q \<and> q \<le> tmax \<and> can_sent t = can_sent s @ ms
    \<and> (\<forall>m\<in>set ms. packet i m) \<and> concat (map cm_data ms) = drop p (take q (transmit_buf s))
    \<and> (q = tmax \<or> can_ret s (can_ret_n t - 1) \<le> 0 \<and> can_ret_n s < can_ret_n t)
    \<and> transmit_buf t = transmit_buf s \<and> can_ret t = can_ret s \<and> can_ret_n s \<le> can_ret_n t"
  using assms
proof (induction "tmax - p" arbitrary: p s rule: less_induct)
  case less
  let ?now = "if tmax - p > 8 then 8 else tmax - p" and ?b = "transmit_buf s"
  let ?m = "\<lparr>cm_id = i + 1, cm_dlc = of_nat ?now, cm_data = take ?now (drop p ?b)\<rparr>"
  consider "tmax \<le> p" | "p < tmax" "can_ret s (can_ret_n s) \<le> 0" | "p < tmax" "can_ret s (can_ret_n s) > 0" by linarith
  then show ?case
  proof cases
    case 1
    then have "can_tx_round i tmax p s = (Inr (Inr p), s)" by (simp add: can_tx_round_def)
    then show ?thesis using 1 less.prems cloop_return [of "can_tx_round i tmax" p s p s] by (intro exI [of _ s] exI [of _ p] exI [of _ "[]"]) simp
  next
    case 2
    let ?t = "s\<lparr>can_ret_n := Suc (can_ret_n s), can_sent := can_sent s\<rparr>"
    have "can_tx_round i tmax p s = (Inr (Inr p), ?t)"
      using 2 less.prems by (auto simp: can_tx_round_def Let_def canbus_send_def run_simps)
    then show ?thesis using 2 less.prems cloop_return [of "can_tx_round i tmax" p s p ?t]
      by (intro exI [of _ ?t] exI [of _ p] exI [of _ "[]"]) simp
  next
    case 3
    let ?t = "s\<lparr>can_ret_n := Suc (can_ret_n s), can_sent := can_sent s @ [?m]\<rparr>" and ?q = "p + ?now"
    have r: "can_tx_round i tmax p s = (Inr (Inl ?q), ?t)"
      using 3 less.prems by (auto simp: can_tx_round_def Let_def canbus_send_def run_simps)
    have n: "?q \<le> tmax" "tmax - ?q < tmax - p" "?now \<le> 8" "0 < ?now" using 3(1) by auto
    have "tmax \<le> length (transmit_buf ?t)" using less.prems by simp
    from less.hyps [OF n(2,1) this] obtain t q ms where
      t: "cloop (can_tx_round i tmax) ?q ?t = (Inr q, t)" "?q \<le> q" "q \<le> tmax" "can_sent t = can_sent ?t @ ms"
        "\<forall>m\<in>set ms. packet i m" "concat (map cm_data ms) = drop ?q (take q ?b)"
        "q = tmax \<or> can_ret s (can_ret_n t - 1) \<le> 0 \<and> Suc (can_ret_n s) < can_ret_n t"
        "transmit_buf t = ?b" "can_ret t = can_ret s" "Suc (can_ret_n s) \<le> can_ret_n t"
      by auto
    have l: "length (take ?now (drop p ?b)) = ?now" using less.prems n(1) by simp
    have "take ?now (drop p ?b) @ drop ?q (take q ?b) = drop p (take q ?b)" by (rule take_drop_split [OF t(2)])
    moreover have "packet i ?m" using l n by (simp add: packet_def)
    moreover have "cloop (can_tx_round i tmax) p s = (Inr q, t)"
      using cloop_step [of "can_tx_round i tmax" p s ?q ?t] r t(1) by simp
    ultimately show ?thesis using t by (intro exI [of _ t] exI [of _ q] exI [of _ "?m # ms"]) auto
  qed
qed

section \<open>Properties\<close>

text \<open>
  C17: The CAN console shares the promise of the serial one: removing a message ends however messages arrive
  meanwhile, and leaves what was in the buffer and the data of every message for this node that fitted, in order,
  without the first \<open>len\<close> bytes.\<close>

theorem can_pop_input_fifo:
  assumes "length (receive_buf s) = RX_BUFFER_SIZE" "receive_pos s \<le> RX_BUFFER_SIZE" "len \<le> receive_pos s"
    and "\<forall>n. \<forall>m\<in>set (can_irq s n). CANMSG_DATA_LEN m \<le> length (cm_data m)"
  shows "\<exists>t. can_console_pop_input len s = (Inr (), t) \<and> length (receive_buf t) = RX_BUFFER_SIZE \<and> receive_pos t \<le> RX_BUFFER_SIZE
    \<and> take (receive_pos t) (receive_buf t) = drop len (take (receive_pos s) (receive_buf s)
        @ can_accept (assigned_id s) (receive_pos s) (concat (map (can_irq s) [can_irq_n s..<can_irq_n t])))"
proof -
  have ok: "rx_ok s" "can_ok s" using assms by (simp_all add: rx_ok_def can_ok_def msg_ok_def)
  obtain t bs where t: "cloop (pop_round canserial_notify_rx can_window len) 0 s = (Inr (), t)" "rx_ok t"
      "can_adds s (t\<lparr>receive_pos := receive_pos s + length bs\<rparr>) bs" "rx_data t = drop len (rx_data s @ bs)"
    by (rule can.pop_input [OF ok assms(3)])
  have "bs = can_accept (assigned_id s) (receive_pos s) (concat (map (can_irq s) [can_irq_n s..<can_irq_n t]))"
    using t(3) ok(2) by (simp add: can_adds_def)
  then show ?thesis using t(1,2,4)
    by (intro exI [of _ t]) (simp add: can_console_pop_input_def rx_ok_def rx_data_def)
qed

theorem can_pop_input_fifo_witness:
  "\<exists>t. can_console_pop_input 3 (console_static\<lparr>receive_pos := 4, assigned_id := 256,
      can_irq := (\<lambda>n. if n = 0 then [\<lparr>cm_id = 256, cm_dlc = 2, cm_data = [8, 9, 0, 0, 0, 0, 0, 0]\<rparr>] else [])\<rparr>) = (Inr (), t)
    \<and> receive_pos t \<le> 192"
  using can_pop_input_fifo [of "console_static\<lparr>receive_pos := 4, assigned_id := 256,
      can_irq := (\<lambda>n. if n = 0 then [\<lparr>cm_id = 256, cm_dlc = 2, cm_data = [8, 9, 0, 0, 0, 0, 0, 0]\<rparr>] else [])\<rparr>" 3]
  by (auto simp: console_consts console_static_simps CANMSG_DATA_LEN_def)

text \<open>
  C18: The transmit task of the CAN console sends the waiting bytes as packets of one to eight bytes, in order, each
  byte once: the data of the packets the controller accepted are exactly the bytes the position advances over, and
  the task stops before the end of the data only at a packet the controller refused.\<close>

theorem canserial_tx_packets:
  assumes "tx_ok s" "wakes s Can_tx_wake" "assigned_id s \<noteq> 0"
  shows "\<exists>t ms. canserial_tx_task s = (Inr (), t) \<and> can_sent t = can_sent s @ ms
    \<and> (\<forall>m\<in>set ms. packet (assigned_id s) m)
    \<and> transmit_pos s \<le> transmit_pos t \<and> transmit_pos t \<le> transmit_max s
    \<and> concat (map cm_data ms) = drop (transmit_pos s) (take (transmit_pos t) (transmit_buf s))
    \<and> (transmit_pos t = transmit_max s \<or> can_ret s (can_ret_n t - 1) \<le> 0)"
proof -
  let ?u = "s\<lparr>wakes := (wakes s)(Can_tx_wake := False)\<rparr>"
  have "transmit_pos s \<le> transmit_max s" "transmit_max s \<le> length (transmit_buf ?u)" using assms(1) by (simp_all add: tx_ok_def)
  from can_tx_loop [OF this, of "assigned_id s"] obtain t q ms where
    "cloop (can_tx_round (assigned_id s) (transmit_max s)) (transmit_pos s) ?u = (Inr q, t)"
    "transmit_pos s \<le> q" "q \<le> transmit_max s" "can_sent t = can_sent s @ ms" "\<forall>m\<in>set ms. packet (assigned_id s) m"
    "concat (map cm_data ms) = drop (transmit_pos s) (take q (transmit_buf s))"
    "q = transmit_max s \<or> can_ret s (can_ret_n t - 1) \<le> 0"
    by auto
  then show ?thesis using assms(2,3)
    by (intro exI [of _ "t\<lparr>transmit_pos := q\<rparr>"] exI [of _ ms]) (simp add: canserial_tx_task_def run_simps sched_check_wake_def)
qed

theorem canserial_tx_packets_witness:
  "\<exists>t ms. canserial_tx_task (console_static\<lparr>wakes := (\<lambda>_. True), assigned_id := 256, can_ret := (\<lambda>_. 8),
      transmit_buf := [1, 2, 3] @ replicate 93 0, transmit_max := 3\<rparr>) = (Inr (), t)
    \<and> can_sent t = ms \<and> concat (map cm_data ms) = take (transmit_pos t) ([1, 2, 3] @ replicate 93 0)"
  using canserial_tx_packets [of "console_static\<lparr>wakes := (\<lambda>_. True), assigned_id := 256, can_ret := (\<lambda>_. 8),
      transmit_buf := [1, 2, 3] @ replicate 93 0, transmit_max := 3\<rparr>"]
  by (auto simp: console_consts console_static_simps tx_ok_def)

end
