(* ===== verification/Sos_Filter.thy ===== *)
theory Sos_Filter
  imports Canserial
begin

text \<open>
  The fixed point filter of \<open>src/src/sos_filter.c\<close>.  Values of the types \<open>fixedQ1_t\<close> and \<open>fixedQ16_t\<close> are
  32-bit words read as signed numbers; an overflow of a signed sum is undefined in C and a \<open>Fault\<close> here.
\<close>

section \<open>State\<close>

record sos_filter =
  f_last_section_idx :: u8               \<comment> \<open>an int8_t\<close>
  f_n_sections :: u8
  f_is_filter_ready :: bool
  f_filter :: "u32 list list"
  f_filter_state :: "u32 list list"

record soss = console +
  sos_filters :: "nat \<Rightarrow> sos_filter"

definition FIXEDQ1_FRAC_BITS :: nat where "FIXEDQ1_FRAC_BITS = 30"
definition FIXEDQ1_ROUNDING :: int where "FIXEDQ1_ROUNDING = 2 ^ 29"
definition FIXEDQ16_FRAC_BITS :: nat where "FIXEDQ16_FRAC_BITS = 15"
definition MAX_SECTIONS :: nat where "MAX_SECTIONS = 6"
definition SECTION_WIDTH :: nat where "SECTION_WIDTH = 5"
definition STATE_WIDTH :: nat where "STATE_WIDTH = 2"
definition SIZEOF_sos_filter :: nat where "SIZEOF_sos_filter = 172"

lemmas sos_consts = FIXEDQ1_FRAC_BITS_def FIXEDQ1_ROUNDING_def FIXEDQ16_FRAC_BITS_def MAX_SECTIONS_def
  SECTION_WIDTH_def STATE_WIDTH_def

definition set_sos :: "nat \<Rightarrow> (sos_filter \<Rightarrow> sos_filter) \<Rightarrow> 's soss_scheme \<Rightarrow> 's soss_scheme" where
  "set_sos a f s = s\<lparr>sos_filters := (sos_filters s)(a := f (sos_filters s a))\<rparr>"

definition zero_sos_filter :: sos_filter where
  "zero_sos_filter = \<lparr>f_last_section_idx = 0, f_n_sections = 0, f_is_filter_ready = False,
     f_filter = replicate MAX_SECTIONS (replicate SECTION_WIDTH 0),
     f_filter_state = replicate MAX_SECTIONS (replicate STATE_WIDTH 0)\<rparr>"

section \<open>Arithmetic\<close>

definition overflows_int32 :: "int \<Rightarrow> bool" where
  "overflows_int32 v \<longleftrightarrow> v > 2 ^ 31 - 1 \<or> v < - (2 ^ 31)"

definition fixed_mul :: "u32 \<Rightarrow> u32 \<Rightarrow> ('s hw_scheme, u32) cmd" where
  "fixed_mul coeff v =
     (let product = sint coeff * sint v + FIXEDQ1_ROUNDING; result = drop_bit FIXEDQ1_FRAC_BITS product
      in if overflows_int32 result then shutdown ''fixed_mul'' ''fixed_mul: overflow''
         else ret (word_of_int result))"

text \<open>A sum or difference of type \<open>int32_t\<close>.\<close>

definition int32_result :: "int \<Rightarrow> ('s, u32) cmd" where
  "int32_result v = (if overflows_int32 v then fail (Fault ''signed overflow'') else ret (word_of_int v))"

section \<open>Filtering\<close>

text \<open>One section: the coefficients and the two state words; the value passed on and the new state.\<close>

definition sos_section :: "u32 list \<Rightarrow> u32 list \<Rightarrow> u32 \<Rightarrow> ('s hw_scheme, u32 \<times> u32 list) cmd" where
  "sos_section c z cur_val =
     mbind (fixed_mul (c ! 0) cur_val) (\<lambda>p0.
     mbind (int32_result (sint p0 + sint (z ! 0))) (\<lambda>next_val.
     mbind (fixed_mul (c ! 1) cur_val) (\<lambda>p1.
     mbind (fixed_mul (c ! 3) next_val) (\<lambda>p3.
     mbind (int32_result (sint p1 - sint p3)) (\<lambda>d0.
     mbind (int32_result (sint d0 + sint (z ! 1))) (\<lambda>z0.
     mbind (fixed_mul (c ! 2) cur_val) (\<lambda>p2.
     mbind (fixed_mul (c ! 4) next_val) (\<lambda>p4.
     mbind (int32_result (sint p2 - sint p4)) (\<lambda>z1.
     ret (next_val, [z0, z1]))))))))))"

text \<open>The loop over the sections, from \<open>section\<close> on, \<open>n\<close> of them.\<close>

fun sos_sections :: "nat \<Rightarrow> nat \<Rightarrow> nat \<Rightarrow> u32 \<Rightarrow> ('s soss_scheme, u32) cmd" where
  "sos_sections a 0 sec cur_val = ret cur_val"
| "sos_sections a (Suc n) sec cur_val = mbind (gets (\<lambda>s. sos_filters s a)) (\<lambda>sf.
     if sec \<ge> length (f_filter sf) \<or> sec \<ge> length (f_filter_state sf) then fail (Fault ''filter array overflow'')
     else mbind (sos_section (f_filter sf ! sec) (f_filter_state sf ! sec) cur_val) (\<lambda>(next_val, z).
       mseq (modify (set_sos a (\<lambda>sf. sf\<lparr>f_filter_state := (f_filter_state sf)[sec := z]\<rparr>)))
       (sos_sections a n (Suc sec) next_val)))"

definition sosfilt :: "nat \<Rightarrow> u32 \<Rightarrow> ('s soss_scheme, u32) cmd" where
  "sosfilt a unfiltered_value = mbind (gets (\<lambda>s. sos_filters s a)) (\<lambda>sf.
     if \<not> f_is_filter_ready sf then shutdown ''sosfilt'' ''sos_filter not initialized''
     else sos_sections a (unat (f_n_sections sf)) 0 unfiltered_value)"

section \<open>Configuration\<close>

definition reset_filter_state :: "nat \<Rightarrow> ('s soss_scheme, unit) cmd" where
  "reset_filter_state a =
     modify (set_sos a (\<lambda>sf. sf\<lparr>f_filter_state := replicate MAX_SECTIONS (replicate STATE_WIDTH 0)\<rparr>))"

definition reset_filter :: "nat \<Rightarrow> u8 \<Rightarrow> ('s soss_scheme, unit) cmd" where
  "reset_filter a n_sections =
     (if unat n_sections > MAX_SECTIONS then shutdown ''reset_filter'' ''sos_filter: too many filter sections''
      else modify (set_sos a (\<lambda>sf. sf\<lparr>f_n_sections := n_sections, f_last_section_idx := - 1, f_is_filter_ready := False\<rparr>)))"

definition command_config_sos_filter :: "u32 list \<Rightarrow> ('s soss_scheme, unit) cmd" where
  "command_config_sos_filter args = mbind (oid_alloc (ucast (args ! 0)) Oid_sos_filter SIZEOF_sos_filter) (\<lambda>a.
     mseq (modify (set_sos a (\<lambda>_. zero_sos_filter))) (reset_filter a 0))"

definition sos_filter_oid_lookup :: "u8 \<Rightarrow> ('s soss_scheme, nat) cmd" where
  "sos_filter_oid_lookup oid = mbind (oid_lookup ''sos_filter_oid_lookup'' oid Oid_sos_filter) deref"

text \<open>The checks of a section's number, and storing its coefficients.\<close>

definition filter_section_check :: "nat \<Rightarrow> u8 \<Rightarrow> u8 \<Rightarrow> ('s soss_scheme, unit) cmd" where
  "filter_section_check a n_sections section_idx =
     (if section_idx = 0 then reset_filter a n_sections
      else mbind (gets (\<lambda>s. sos_filters s a)) (\<lambda>sf.
        if n_sections \<noteq> f_n_sections sf
        then shutdown ''command_config_filter_section'' ''Filter size mismatch''
        else if uint section_idx \<noteq> sint (f_last_section_idx sf) + 1
        then shutdown ''command_config_filter_section'' ''Filter section out of order''
        else ret ()))"

definition filter_section_store :: "nat \<Rightarrow> u8 \<Rightarrow> u32 list \<Rightarrow> ('s soss_scheme, unit) cmd" where
  "filter_section_store a section_idx coeffs = mbind (gets (\<lambda>s. sos_filters s a)) (\<lambda>sf.
     if unat section_idx \<ge> length (f_filter sf) then fail (Fault ''filter array overflow'')
     else modify (set_sos a (\<lambda>sf. sf\<lparr>f_filter := (f_filter sf)[unat section_idx := coeffs],
            f_last_section_idx := section_idx\<rparr>)))"

definition command_config_filter_section :: "u32 list \<Rightarrow> ('s soss_scheme, unit) cmd" where
  "command_config_filter_section args = mbind (sos_filter_oid_lookup (ucast (args ! 0))) (\<lambda>a.
     let n_sections = ucast (args ! 1) :: u8; section_idx = ucast (args ! 2) :: u8 in
     mseq (filter_section_check a n_sections section_idx) (
     mseq (mwhen (n_sections > 0) (filter_section_store a section_idx (take SECTION_WIDTH (drop 3 args)))) (
     modify (set_sos a (\<lambda>sf. if sint (f_last_section_idx sf) = uint (f_n_sections sf) - 1
                             then sf\<lparr>f_is_filter_ready := True\<rparr> else sf)))))"

text \<open>The filters before anything is configured.\<close>

definition soss_static :: soss where
  "soss_static = console.extend console_static \<lparr>sos_filters = (\<lambda>_. zero_sos_filter)\<rparr>"

lemmas soss_static_simps = console_static_simps soss_static_def console.extend_def

section \<open>Properties\<close>

definition filter_inv :: "sos_filter \<Rightarrow> bool" where
  "filter_inv sf \<longleftrightarrow> length (f_filter sf) = MAX_SECTIONS \<and> length (f_filter_state sf) = MAX_SECTIONS \<and> unat (f_n_sections sf) \<le> MAX_SECTIONS
     \<and> - 1 \<le> sint (f_last_section_idx sf) \<and> sint (f_last_section_idx sf) < int MAX_SECTIONS"

lemma section_command_run:
  assumes "oid_table s tab" "unat (ucast (args ! 0) :: u8) < length tab"
    and "tab ! unat (ucast (args ! 0) :: u8) = \<lparr>o_type = Some Oid_sos_filter, o_data = Some a\<rparr>"
  shows "sos_filter_oid_lookup (ucast (args ! 0)) s = (Inr a, s)"
  using oid_lookup_hit [OF assms(1,2), of Oid_sos_filter] assms(3) by (simp add: sos_filter_oid_lookup_def run_simps deref_def)

text \<open>
  C35: The command that configures a filter section writes outside its array in exactly one situation: when all six
  sections that fit are configured and a seventh is sent in order.  The code checks that sections arrive in order and
  that their number is the announced one, but never that a section's index is below that number.\<close>

theorem filter_section_overrun:
  assumes "oid_table s tab" "unat (ucast (args ! 0) :: u8) < length tab"
    and "tab ! unat (ucast (args ! 0) :: u8) = \<lparr>o_type = Some Oid_sos_filter, o_data = Some a\<rparr>"
    and "filter_inv (sos_filters s a)"
  shows "fst (command_config_filter_section args s) = Inl (Fault ''filter array overflow'')
    \<longleftrightarrow> ucast (args ! 1) = f_n_sections (sos_filters s a) \<and> f_n_sections (sos_filters s a) \<noteq> 0
      \<and> ucast (args ! 2) = (6 :: u8) \<and> f_last_section_idx (sos_filters s a) = 5"
proof -
  let ?sf = "sos_filters s a" and ?n = "ucast (args ! 1) :: u8" and ?i = "ucast (args ! 2) :: u8"
  have l: "length (f_filter ?sf) = 6" using assms(4) by (simp add: filter_inv_def sos_consts)
  have lb: "sint (f_last_section_idx ?sf) < 6" using assms(4) by (simp add: filter_inv_def sos_consts)
  have ne: "f_filter ?sf \<noteq> []" using l by auto
  show ?thesis
  proof (cases "?i = 0")
    case True
    then show ?thesis
      by (simp add: command_config_filter_section_def run_simps section_command_run [OF assms(1-3)] Let_def
          filter_section_check_def reset_filter_def shutdown_def filter_section_store_def set_sos_def ne)
  next
    case False
    have e: "uint ?i = sint (f_last_section_idx ?sf) + 1 \<and> 6 \<le> unat ?i \<longleftrightarrow> ?i = 6 \<and> f_last_section_idx ?sf = 5"
    proof
      assume h: "uint ?i = sint (f_last_section_idx ?sf) + 1 \<and> 6 \<le> unat ?i"
      have u: "uint ?i = int (unat ?i)" by simp
      have "sint (f_last_section_idx ?sf) = 5" "unat ?i = 6" using h u lb by linarith+
      then have "sint (f_last_section_idx ?sf) = sint (5 :: u8)" "unat ?i = unat (6 :: u8)" by simp_all
      then show "?i = 6 \<and> f_last_section_idx ?sf = 5" using signed_word_eqI word_unat_eq_iff by blast
    qed simp
    show ?thesis using False e
      by (auto simp: command_config_filter_section_def run_simps section_command_run [OF assms(1-3)] Let_def
          filter_section_check_def shutdown_def filter_section_store_def l word_gt_0)
  qed
qed

theorem filter_section_overrun_witness:
  "fst (command_config_filter_section [0, 6, 6, 1, 2, 3, 4, 5]
     (soss_static\<lparr>oids := Some [\<lparr>o_type = Some Oid_sos_filter, o_data = Some 5000\<rparr>], oid_count := 1,
        sos_filters := (\<lambda>_. zero_sos_filter\<lparr>f_n_sections := 6, f_last_section_idx := 5\<rparr>)\<rparr>)) = Inl (Fault ''filter array overflow'')"
  (is "fst (command_config_filter_section ?args ?s) = _")
proof -
  have "oid_table ?s [\<lparr>o_type = Some Oid_sos_filter, o_data = Some 5000\<rparr>]" "filter_inv (sos_filters ?s 5000)"
    by (simp_all add: oid_table_def filter_inv_def sos_consts zero_sos_filter_def)
  then show ?thesis
    using filter_section_overrun [of ?s "[\<lparr>o_type = Some Oid_sos_filter, o_data = Some 5000\<rparr>]" ?args 5000] by simp
qed

end
