(* ===== verification/Load_Cell.thy ===== *)
theory Load_Cell
  imports Sos_Filter
begin

text \<open>
  The load cell end stop, \<open>src/src/load_cell_endstop.c\<close>.  Signed fields are 32-bit words read with \<open>sint\<close>.
  The watchdog timer of an object is \<open>Obj_timer\<close> 0 of its address; the callbacks of a trigger are the
  argument \<open>call\<close>.
\<close>

section \<open>State\<close>

datatype lc_error = LOAD_CELL_ERROR_NONE | LOAD_CELL_ERROR_SAFETY_LIMIT | LOAD_CELL_ERROR_DRIFT_LIMIT
  | LOAD_CELL_ERROR_WATCHDOG

fun lc_error_code :: "lc_error \<Rightarrow> u32" where
  "lc_error_code LOAD_CELL_ERROR_NONE = 0"
| "lc_error_code LOAD_CELL_ERROR_SAFETY_LIMIT = 1"
| "lc_error_code LOAD_CELL_ERROR_DRIFT_LIMIT = 2"
| "lc_error_code LOAD_CELL_ERROR_WATCHDOG = 3"

record load_cell_endstop =
  l_trigger_grams :: u32
  l_trigger_ticks :: u32
  l_trigger_emit_ticks :: u32
  l_last_sample_ticks :: u32
  l_rest_ticks :: u32
  l_ts :: "nat option"
  l_trigger_sample :: u32
  l_trigger_emit_sample :: u32
  l_last_sample :: u32
  l_safety_counts_min :: u32
  l_safety_counts_max :: u32
  l_tare_counts :: u32
  l_flags :: u8
  l_sample_count :: u8
  l_trigger_count :: u8
  l_trigger_reason :: u8
  l_error_reason :: u8
  l_watchdog_max :: u8
  l_watchdog_count :: u8
  l_trigger_grams_fixed :: u32
  l_grams_per_count :: u32
  l_sf :: "nat option"
  l_homing_clock :: u32
  l_error :: lc_error
  l_output_pin :: u32
  l_use_gpio :: bool

record lces = soss +
  lces :: "nat \<Rightarrow> load_cell_endstop"

definition FLAG_IS_HOMING :: u8 where "FLAG_IS_HOMING = 1"
definition FLAG_IS_TRIGGERED :: u8 where "FLAG_IS_TRIGGERED = 2"
definition FLAG_IS_HOMING_TRIGGER :: u8 where "FLAG_IS_HOMING_TRIGGER = 4"
definition FLAG_IS_AWAIT_HOMING :: u8 where "FLAG_IS_AWAIT_HOMING = 8"

lemmas lc_flags = FLAG_IS_HOMING_def FLAG_IS_TRIGGERED_def FLAG_IS_HOMING_TRIGGER_def FLAG_IS_AWAIT_HOMING_def

definition DEFAULT_SAMPLE_COUNT :: u8 where "DEFAULT_SAMPLE_COUNT = 2"
definition MAX_TRIGGER_GRAMS :: u32 where "MAX_TRIGGER_GRAMS = 65535"
definition SIZEOF_load_cell_endstop :: nat where "SIZEOF_load_cell_endstop = 100"

definition set_lc :: "nat \<Rightarrow> (load_cell_endstop \<Rightarrow> load_cell_endstop) \<Rightarrow> 's lces_scheme \<Rightarrow> 's lces_scheme" where
  "set_lc a f s = s\<lparr>lces := (lces s)(a := f (lces s a))\<rparr>"

definition zero_load_cell :: load_cell_endstop where
  "zero_load_cell = \<lparr>l_trigger_grams = 0, l_trigger_ticks = 0, l_trigger_emit_ticks = 0, l_last_sample_ticks = 0,
     l_rest_ticks = 0, l_ts = None, l_trigger_sample = 0, l_trigger_emit_sample = 0, l_last_sample = 0,
     l_safety_counts_min = 0, l_safety_counts_max = 0, l_tare_counts = 0, l_flags = 0, l_sample_count = 0,
     l_trigger_count = 0, l_trigger_reason = 0, l_error_reason = 0, l_watchdog_max = 0, l_watchdog_count = 0,
     l_trigger_grams_fixed = 0, l_grams_per_count = 0, l_sf = None, l_homing_clock = 0,
     l_error = LOAD_CELL_ERROR_NONE, l_output_pin = 0, l_use_gpio = False\<rparr>"

section \<open>Helpers\<close>

definition round_fixedQ48 :: "int \<Rightarrow> int" where
  "round_fixedQ48 v = drop_bit FIXEDQ16_FRAC_BITS v"

text \<open>\<open>counts_to_grams\<close>; none when the signed difference overflows.\<close>

definition counts_to_grams :: "load_cell_endstop \<Rightarrow> u32 \<Rightarrow> int option" where
  "counts_to_grams l counts =
     (let delta = sint counts - sint (l_tare_counts l) in
      if overflows_int32 delta then None
      else Some (drop_bit (FIXEDQ1_FRAC_BITS - FIXEDQ16_FRAC_BITS) (delta * sint (l_grams_per_count l))))"

definition is_flag_set :: "u8 \<Rightarrow> load_cell_endstop \<Rightarrow> bool" where
  "is_flag_set msk l \<longleftrightarrow> msk AND l_flags l \<noteq> 0"

definition set_flag :: "u8 \<Rightarrow> load_cell_endstop \<Rightarrow> load_cell_endstop" where
  "set_flag msk l = l\<lparr>l_flags := l_flags l OR msk\<rparr>"

definition clear_flag :: "u8 \<Rightarrow> load_cell_endstop \<Rightarrow> load_cell_endstop" where
  "clear_flag msk l = l\<lparr>l_flags := l_flags l AND NOT msk\<rparr>"

text \<open>Raising a trigger: the output pin goes low, or the trigger group is run.\<close>

definition lc_emit ::
  "(signal_fn \<Rightarrow> nat \<Rightarrow> u8 \<Rightarrow> ('s lces_scheme, unit) cmd) \<Rightarrow> nat \<Rightarrow> u8 \<Rightarrow> ('s lces_scheme, unit) cmd" where
  "lc_emit call a reason = mbind (gets (\<lambda>s. lces s a)) (\<lambda>l.
     if l_use_gpio l then gpio_out_write (l_output_pin l) 0
     else mbind (deref (l_ts l)) (\<lambda>ts. trsync_do_trigger call ts reason))"

definition try_trigger ::
  "(signal_fn \<Rightarrow> nat \<Rightarrow> u8 \<Rightarrow> ('s lces_scheme, unit) cmd) \<Rightarrow> nat \<Rightarrow> ('s lces_scheme, unit) cmd" where
  "try_trigger call a =
     mseq (modify (set_lc a (set_flag FLAG_IS_TRIGGERED))) (
     mbind (gets (\<lambda>s. lces s a)) (\<lambda>l.
     mwhen (is_flag_set FLAG_IS_HOMING l \<and> \<not> is_flag_set FLAG_IS_HOMING_TRIGGER l) (
       mseq (modify (set_lc a (set_flag FLAG_IS_HOMING_TRIGGER)))
       (lc_emit call a (l_trigger_reason l)))))"

definition try_trigger_error ::
  "(signal_fn \<Rightarrow> nat \<Rightarrow> u8 \<Rightarrow> ('s lces_scheme, unit) cmd) \<Rightarrow> nat \<Rightarrow> ('s lces_scheme, unit) cmd" where
  "try_trigger_error call a = mbind (gets (\<lambda>s. lces s a)) (\<lambda>l.
     mwhen (is_flag_set FLAG_IS_HOMING l) (lc_emit call a (l_error_reason l)))"

section \<open>A sample\<close>

text \<open>Clearing the live view of the trigger.\<close>

definition lc_clear_trigger :: "nat \<Rightarrow> ('s lces_scheme, unit) cmd" where
  "lc_clear_trigger a =
     mseq (modify (set_lc a (clear_flag FLAG_IS_TRIGGERED))) (
     mbind (gets (\<lambda>s. lces s a)) (\<lambda>l. mwhen (l_use_gpio l) (gpio_out_write (l_output_pin l) 1)))"

text \<open>Homing starts with the first sample that is not before the homing clock.\<close>

definition lc_begin_homing :: "nat \<Rightarrow> u32 \<Rightarrow> ('s lces_scheme, unit) cmd" where
  "lc_begin_homing a ticks = mbind (gets (\<lambda>s. lces s a)) (\<lambda>l.
     mwhen (is_flag_set FLAG_IS_AWAIT_HOMING l \<and> \<not> timer_is_before ticks (l_homing_clock l)) (
       mseq (modify (set_lc a (clear_flag FLAG_IS_AWAIT_HOMING)))
       (modify (set_lc a (set_flag FLAG_IS_HOMING)))))"

text \<open>Whether the weight \<open>raw_grams\<close> triggers, before the latch is considered.\<close>

definition lc_is_trigger ::
  "(signal_fn \<Rightarrow> nat \<Rightarrow> u8 \<Rightarrow> ('s lces_scheme, unit) cmd) \<Rightarrow> nat \<Rightarrow> int \<Rightarrow> ('s lces_scheme, bool) cmd" where
  "lc_is_trigger call a raw_grams = mbind (gets (\<lambda>s. lces s a)) (\<lambda>l.
     if \<not> overflows_int32 raw_grams then
       mbind (deref (l_sf l)) (\<lambda>sf.
       mbind (sosfilt sf (word_of_int raw_grams)) (\<lambda>filtered_grams.
       ret (sint filtered_grams \<le> - sint (l_trigger_grams_fixed l))))
     else
       mseq (modify (set_lc a (\<lambda>l. l\<lparr>l_error := LOAD_CELL_ERROR_DRIFT_LIMIT\<rparr>))) (
       mseq (try_trigger_error call a) (ret True)))"

text \<open>A trigger stays until the force is removed.\<close>

definition lc_latch :: "load_cell_endstop \<Rightarrow> int \<Rightarrow> bool \<Rightarrow> bool" where
  "lc_latch l raw_grams is_trigger =
     (if is_flag_set FLAG_IS_TRIGGERED l
      then \<bar>sint (word_of_int (round_fixedQ48 raw_grams) :: u32)\<bar> \<ge> uint (l_trigger_grams l) \<or> is_trigger
      else is_trigger)"

text \<open>Counting down to a trigger, and up again.\<close>

definition lc_count_down ::
  "(signal_fn \<Rightarrow> nat \<Rightarrow> u8 \<Rightarrow> ('s lces_scheme, unit) cmd) \<Rightarrow> nat \<Rightarrow> bool \<Rightarrow> u32 \<Rightarrow> u32 \<Rightarrow> ('s lces_scheme, unit) cmd" where
  "lc_count_down call a first sample ticks =
     mseq (modify (set_lc a (\<lambda>l. if first \<and> l_trigger_count l = l_sample_count l
             then l\<lparr>l_trigger_ticks := ticks, l_trigger_sample := sample\<rparr> else l))) (
     mseq (modify (set_lc a (\<lambda>l. l\<lparr>l_trigger_count := l_trigger_count l - 1\<rparr>))) (
     mbind (gets (\<lambda>s. lces s a)) (\<lambda>l.
     mwhen (l_trigger_count l = 0) (
       mseq (modify (set_lc a (\<lambda>l. l\<lparr>l_trigger_emit_ticks := ticks, l_trigger_emit_sample := sample\<rparr>)))
       (try_trigger call a)))))"

definition lc_count_up :: "nat \<Rightarrow> bool \<Rightarrow> ('s lces_scheme, unit) cmd" where
  "lc_count_up a first =
     mseq (modify (set_lc a (\<lambda>l. l\<lparr>l_trigger_count :=
             (if l_trigger_count l + 1 > l_sample_count l then l_sample_count l else l_trigger_count l + 1)\<rparr>))) (
     mseq (lc_clear_trigger a)
     (modify (set_lc a (\<lambda>l. if first then l\<lparr>l_trigger_ticks := 0\<rparr> else l))))"

text \<open>The second half of \<open>load_cell_endstop_report_sample\<close>, once a weight is to be judged.\<close>

definition lc_judge ::
  "(signal_fn \<Rightarrow> nat \<Rightarrow> u8 \<Rightarrow> ('s lces_scheme, unit) cmd) \<Rightarrow> nat \<Rightarrow> bool \<Rightarrow> u32 \<Rightarrow> u32 \<Rightarrow> ('s lces_scheme, unit) cmd" where
  "lc_judge call a is_homing sample ticks =
     mbind (gets (\<lambda>s. counts_to_grams (lces s a) sample)) (\<lambda>g. case g of
       None \<Rightarrow> fail (Fault ''signed overflow'')
     | Some raw_grams \<Rightarrow>
         mbind (lc_is_trigger call a raw_grams) (\<lambda>t.
         mbind (gets (\<lambda>s. lces s a)) (\<lambda>l.
         let is_trigger = lc_latch l raw_grams t;
             first = (is_homing \<and> \<not> is_flag_set FLAG_IS_HOMING_TRIGGER l) in
         if is_trigger \<and> l_trigger_count l > 0 then lc_count_down call a first sample ticks
         else mwhen (\<not> is_trigger \<and> l_trigger_count l < l_sample_count l) (lc_count_up a first))))"

definition load_cell_endstop_report_sample ::
  "(signal_fn \<Rightarrow> nat \<Rightarrow> u8 \<Rightarrow> ('s lces_scheme, unit) cmd) \<Rightarrow> nat \<Rightarrow> u32 \<Rightarrow> u32 \<Rightarrow> ('s lces_scheme, unit) cmd" where
  "load_cell_endstop_report_sample call a sample ticks =
     mseq (modify (set_lc a (\<lambda>l. l\<lparr>l_last_sample := sample, l_last_sample_ticks := ticks, l_watchdog_count := 0\<rparr>))) (
     mseq (lc_begin_homing a ticks) (
     mbind (gets (\<lambda>s. lces s a)) (\<lambda>l.
     let is_homing = is_flag_set FLAG_IS_HOMING l;
         is_safety_trigger = (sint sample \<le> sint (l_safety_counts_min l) \<or> sint sample \<ge> sint (l_safety_counts_max l)) in
     if \<not> is_homing then lc_clear_trigger a
     else
       mseq (mwhen is_safety_trigger (
               mseq (modify (set_lc a (\<lambda>l. l\<lparr>l_error := LOAD_CELL_ERROR_SAFETY_LIMIT\<rparr>))) (try_trigger_error call a)))
       (if l_trigger_grams l = 0 then lc_clear_trigger a else lc_judge call a is_homing sample ticks))))"

section \<open>The watchdog\<close>

definition watchdog_event ::
  "(signal_fn \<Rightarrow> nat \<Rightarrow> u8 \<Rightarrow> ('s lces_scheme, unit) cmd) \<Rightarrow> nat \<Rightarrow> ('s lces_scheme, sf) cmd" where
  "watchdog_event call a = mbind (gets (\<lambda>s. lces s a)) (\<lambda>l.
     if \<not> is_flag_set FLAG_IS_HOMING l \<or> \<not> is_flag_set FLAG_IS_AWAIT_HOMING l \<or> is_flag_set FLAG_IS_HOMING_TRIGGER l
     then ret SF_DONE
     else
       mseq (mwhen (l_watchdog_count l > l_watchdog_max l) (
               mseq (modify (set_lc a (\<lambda>l. l\<lparr>l_error := LOAD_CELL_ERROR_WATCHDOG\<rparr>))) (try_trigger_error call a))) (
       mseq (modify (set_lc a (\<lambda>l. l\<lparr>l_watchdog_count := l_watchdog_count l + 1\<rparr>))) (
       mseq (modify (\<lambda>s. set_wake (Obj_timer a 0) (waketime s (Obj_timer a 0) + l_rest_ticks (lces s a)) s))
       (ret SF_RESCHEDULE))))"

section \<open>Commands\<close>

definition set_endstop_range :: "nat \<Rightarrow> u32 \<Rightarrow> u32 \<Rightarrow> u32 \<Rightarrow> u32 \<Rightarrow> u32 \<Rightarrow> ('s lces_scheme, unit) cmd" where
  "set_endstop_range a safety_counts_min safety_counts_max tare_counts trigger_grams grams_per_count =
     (if \<not> sint safety_counts_max \<ge> sint safety_counts_min
      then shutdown ''set_endstop_range'' ''Safety range reversed''
      else if trigger_grams > MAX_TRIGGER_GRAMS then shutdown ''set_endstop_range'' ''trigger_grams too large''
      else if sint grams_per_count < 0 \<or> sint grams_per_count \<ge> 2 ^ FIXEDQ1_FRAC_BITS
      then shutdown ''set_endstop_range'' ''grams_per_count is invalid''
      else
        mseq (modify (set_lc a (\<lambda>l. l\<lparr>l_safety_counts_min := safety_counts_min, l_safety_counts_max := safety_counts_max,
                l_tare_counts := tare_counts, l_trigger_grams := trigger_grams,
                l_trigger_grams_fixed := push_bit FIXEDQ16_FRAC_BITS trigger_grams,
                l_grams_per_count := grams_per_count\<rparr>)))
        (mbind (mbind (gets (\<lambda>s. l_sf (lces s a))) deref) reset_filter_state))"

definition command_config_load_cell_endstop :: "u32 list \<Rightarrow> ('s lces_scheme, unit) cmd" where
  "command_config_load_cell_endstop args =
     mbind (oid_alloc (ucast (args ! 0)) Oid_load_cell_endstop SIZEOF_load_cell_endstop) (\<lambda>a.
     mseq (modify (\<lambda>s. set_lc a (\<lambda>_. zero_load_cell) (zero_timer (Obj_timer a 0) s))) (
     mseq (modify (set_lc a (\<lambda>l. l\<lparr>l_flags := 0, l_trigger_count := DEFAULT_SAMPLE_COUNT,
             l_sample_count := DEFAULT_SAMPLE_COUNT, l_trigger_ticks := 0, l_watchdog_max := 0, l_watchdog_count := 0\<rparr>))) (
     mbind (sos_filter_oid_lookup (ucast (args ! 1))) (\<lambda>sf.
     mseq (modify (set_lc a (\<lambda>l. l\<lparr>l_sf := Some sf\<rparr>)))
     (set_endstop_range a 0 0 0 0 0)))))"

definition load_cell_endstop_oid_lookup :: "string \<Rightarrow> u8 \<Rightarrow> ('s lces_scheme, nat) cmd" where
  "load_cell_endstop_oid_lookup func oid = mbind (oid_lookup func oid Oid_load_cell_endstop) deref"

definition command_config_load_cell_endstop_with_pin :: "u32 list \<Rightarrow> ('s lces_scheme, unit) cmd" where
  "command_config_load_cell_endstop_with_pin args =
     mseq (command_config_load_cell_endstop args) (
     mbind (load_cell_endstop_oid_lookup ''command_config_load_cell_endstop_with_pin'' (ucast (args ! 0))) (\<lambda>a.
     mbind (gpio_out_setup (args ! 2) 1) (\<lambda>pin.
     modify (set_lc a (\<lambda>l. l\<lparr>l_output_pin := pin, l_use_gpio := True\<rparr>)))))"

definition command_set_range_load_cell_endstop :: "u32 list \<Rightarrow> ('s lces_scheme, unit) cmd" where
  "command_set_range_load_cell_endstop args =
     mbind (load_cell_endstop_oid_lookup ''load_cell_endstop_oid_lookup'' (ucast (args ! 0))) (\<lambda>a.
     set_endstop_range a (args ! 1) (args ! 2) (args ! 3) (args ! 4) (args ! 5))"

definition command_load_cell_endstop_home :: "u32 list \<Rightarrow> ('s lces_scheme, unit) cmd" where
  "command_load_cell_endstop_home args =
     mbind (load_cell_endstop_oid_lookup ''load_cell_endstop_oid_lookup'' (ucast (args ! 0))) (\<lambda>a.
     mseq (sched_del_timer (Obj_timer a 0)) (
     mseq (modify (set_lc a (\<lambda>l. clear_flag FLAG_IS_AWAIT_HOMING (clear_flag FLAG_IS_HOMING
             (clear_flag FLAG_IS_HOMING_TRIGGER l))))) (
     mseq (modify (set_lc a (\<lambda>l. l\<lparr>l_trigger_ticks := 0, l_ts := None, l_error := LOAD_CELL_ERROR_NONE\<rparr>))) (
     if args ! 3 = 0 then ret ()
     else
       mbind (gets (\<lambda>s. l_use_gpio (lces s a))) (\<lambda>use_gpio.
       mseq (mwhen (\<not> use_gpio) (mbind (trsync_oid_lookup (ucast (args ! 1))) (\<lambda>ts.
               modify (set_lc a (\<lambda>l. l\<lparr>l_ts := Some ts\<rparr>))))) (
       mseq (modify (\<lambda>s. set_wake (Obj_timer a 0) (args ! 4) (set_lc a (\<lambda>l. l\<lparr>l_trigger_reason := ucast (args ! 2),
               l_error_reason := ucast (args ! 3), l_homing_clock := args ! 4, l_sample_count := ucast (args ! 5),
               l_rest_ticks := args ! 6, l_watchdog_max := ucast (args ! 7), l_watchdog_count := 0\<rparr>) s))) (
       mseq (mbind (mbind (gets (\<lambda>s. l_sf (lces s a))) deref) reset_filter_state) (
       mseq (modify (set_func (Obj_timer a 0) (Some Watchdog_event))) (
       mseq (sched_add_timer ''command_load_cell_endstop_home'' (Obj_timer a 0))
       (modify (set_lc a (set_flag FLAG_IS_AWAIT_HOMING))))))))))))"

definition command_load_cell_endstop_query_state :: "u32 list \<Rightarrow> ('s lces_scheme, unit) cmd" where
  "command_load_cell_endstop_query_state args =
     (let oid = ucast (args ! 0) :: u8 in
      mbind (load_cell_endstop_oid_lookup ''load_cell_endstop_oid_lookup'' oid) (\<lambda>a.
      mbind (gets (\<lambda>s. lces s a)) (\<lambda>l.
      mseq (sendf ''trigger_ticks=%u trigger_emit_ticks=%u'' [U (l_trigger_ticks l), U (l_trigger_emit_ticks l)])
      (sendf (''load_cell_endstop_state oid=%c homing=%c homing_triggered=%c is_triggered=%c trigger_ticks=%u ''
           @ ''trigger_emit_ticks=%u trigger_sample=%i trigger_emit_sample=%i sample=%i sample_ticks=%u error=%c'')
         [U (ucast oid), U (bool32 (is_flag_set FLAG_IS_HOMING l)), U (bool32 (is_flag_set FLAG_IS_HOMING_TRIGGER l)),
          U (bool32 (is_flag_set FLAG_IS_TRIGGERED l)), U (l_trigger_ticks l), U (l_trigger_emit_ticks l),
          U (l_trigger_sample l), U (l_trigger_emit_sample l), U (l_last_sample l), U (l_last_sample_ticks l),
          U (lc_error_code (l_error l))]))))"

text \<open>The load cells before anything is configured.\<close>

definition lces_static :: lces where
  "lces_static = soss.extend soss_static \<lparr>lces = (\<lambda>_. zero_load_cell)\<rparr>"

lemmas lces_static_simps = soss_static_simps lces_static_def soss.extend_def

section \<open>The flags\<close>

text \<open>A property of the load cells only.\<close>

definition lc_only :: "('s lces_scheme \<Rightarrow> bool) \<Rightarrow> bool" where
  "lc_only P \<longleftrightarrow> (\<forall>s t. lces t = lces s \<longrightarrow> P t = P s)"

lemma lc_onlyD: "lc_only P \<Longrightarrow> P s \<Longrightarrow> lces t = lces s \<Longrightarrow> P t"
  unfolding lc_only_def by blast

lemma lc_only_eq: "lc_only P \<Longrightarrow> lces t = lces s \<Longrightarrow> P t = P s"
  unfolding lc_only_def by blast

lemma lc_only_board: "lc_only P \<Longrightarrow> board_blind P"
  unfolding board_blind_def by (intro conjI allI; erule lc_only_eq; simp)

lemma lc_only_modify: "lc_only P \<Longrightarrow> (\<And>s. lces (f s) = lces s) \<Longrightarrow> preserves P (modify f)"
  by (rule preserves_modify) (erule lc_onlyD, assumption, simp)

lemma lc_only_deref: "preserves P (deref x)"
  by (simp add: deref_def preserves_intros)

lemma lces_sets [simp]:
  "lces (set_next p v s) = lces s" "lces (set_wake p w s) = lces s" "lces (set_func p f s) = lces s"
  "lces (set_sp a g s) = lces s" "lces (set_ts a h s) = lces s" "lces (set_tss a k s) = lces s"
  "lces (set_mnext m x s) = lces s" "lces (set_sos a q s) = lces s"
  by (simp_all add: set_next_def set_wake_def set_func_def set_sp_def set_ts_def set_tss_def set_mnext_def set_sos_def)

lemma lc_only_stop:
  assumes P: "lc_only P"
  shows "preserves P (sched_del_timer t)" "preserves P (stepper_stop c a)" "preserves P (trsync_do_trigger (signal_call c) ts r)"
proof -
  note b = lc_only_board [OF P] and m = lc_only_modify [OF P]
  show d: "preserves P (sched_del_timer t)" for t
    unfolding sched_del_timer_def by (intro preserves_intros m) simp_all
  show s: "preserves P (stepper_stop c a)" for a
    unfolding stepper_stop_def stepper_free_moves_def move_queue_pop_def move_free_def
    by (intro preserves_intros d b m lc_only_deref) simp_all
  show "preserves P (trsync_do_trigger (signal_call c) ts r)"
    unfolding trsync_do_trigger_def trsync_signal_one_def sched_wake_task_def sched_wake_tasks_def signal_call_def
    by (intro preserves_intros m lc_only_deref) (simp_all add: s split: signal_fn.splits)
qed

lemma flag_other:
  "m AND k = 0 \<Longrightarrow> is_flag_set m (set_flag k l) = is_flag_set m l" "m AND k = 0 \<Longrightarrow> is_flag_set m (clear_flag k l) = is_flag_set m l"
proof -
  assume z: "m AND k = 0"
  have "m AND (l_flags l OR k) = m AND l_flags l OR m AND k" by (simp add: bit_eq_iff bit_simps) blast
  then show "is_flag_set m (set_flag k l) = is_flag_set m l" using z by (simp add: is_flag_set_def set_flag_def)
  have "bit m n \<Longrightarrow> \<not> bit k n" for n using z by (metis bit_and_iff bit_0_eq bot_apply bot_bool_def)
  then have "m AND (l_flags l AND NOT k) = m AND l_flags l" by (auto simp: bit_eq_iff bit_simps)
  then show "is_flag_set m (clear_flag k l) = is_flag_set m l" by (simp add: is_flag_set_def clear_flag_def)
qed

lemma flag_cleared_same: "\<not> is_flag_set m (clear_flag m l)"
proof -
  have "m AND (l_flags l AND NOT m) = 0" by (simp add: bit_eq_iff bit_simps)
  then show ?thesis by (simp add: is_flag_set_def clear_flag_def)
qed

lemma is_flag_set_upd [simp]:
  "is_flag_set m (l\<lparr>l_trigger_count := v1\<rparr>) = is_flag_set m l" "is_flag_set m (l\<lparr>l_error := v2\<rparr>) = is_flag_set m l"
  "is_flag_set m (l\<lparr>l_watchdog_count := v3\<rparr>) = is_flag_set m l" "is_flag_set m (l\<lparr>l_trigger_ticks := v4\<rparr>) = is_flag_set m l"
  "is_flag_set m (l\<lparr>l_ts := v5\<rparr>) = is_flag_set m l"
  by (simp_all add: is_flag_set_def)

text \<open>No load cell is both homing and waiting to home.\<close>

definition lc_excl :: "nat \<Rightarrow> 's lces_scheme \<Rightarrow> bool" where
  "lc_excl a s \<longleftrightarrow> \<not> (is_flag_set FLAG_IS_HOMING (lces s a) \<and> is_flag_set FLAG_IS_AWAIT_HOMING (lces s a))"

lemma lc_only_excl: "lc_only (lc_excl a)"
  by (simp add: lc_only_def lc_excl_def)

lemma preserves_strengthen:
  "(\<And>s. P s \<Longrightarrow> R (f s)) \<Longrightarrow> preserves R n \<Longrightarrow> (\<And>s. R s \<Longrightarrow> P s) \<Longrightarrow> preserves P (mseq (modify f) n)"
  by (simp add: preserves_def run_simps)

lemma excl_modify:
  assumes "\<And>l. \<not> (is_flag_set FLAG_IS_HOMING l \<and> is_flag_set FLAG_IS_AWAIT_HOMING l)
    \<Longrightarrow> \<not> (is_flag_set FLAG_IS_HOMING (f l) \<and> is_flag_set FLAG_IS_AWAIT_HOMING (f l))"
  shows "preserves (lc_excl a) (modify (set_lc b f))"
  by (rule preserves_modify) (use assms in \<open>auto simp: lc_excl_def set_lc_def\<close>)

lemma lc_flag_masks:
  "FLAG_IS_HOMING AND FLAG_IS_TRIGGERED = 0" "FLAG_IS_AWAIT_HOMING AND FLAG_IS_TRIGGERED = 0"
  "FLAG_IS_HOMING AND FLAG_IS_HOMING_TRIGGER = 0" "FLAG_IS_AWAIT_HOMING AND FLAG_IS_HOMING_TRIGGER = 0"
  "FLAG_IS_HOMING AND FLAG_IS_AWAIT_HOMING = 0" "FLAG_IS_AWAIT_HOMING AND FLAG_IS_HOMING = 0"
  by (simp_all add: lc_flags)

lemma excl_emit: "preserves (lc_excl a) (lc_emit (signal_call c) b r)"
  unfolding lc_emit_def
  by (intro preserves_intros lc_only_deref lc_only_stop(3) lc_only_board lc_only_excl)

lemma excl_try:
  "preserves (lc_excl a) (try_trigger (signal_call c) b)" "preserves (lc_excl a) (try_trigger_error (signal_call c) b)"
  unfolding try_trigger_def try_trigger_error_def
  by (intro preserves_intros excl_emit excl_modify; simp add: flag_other lc_flag_masks)+

lemma excl_clear: "preserves (lc_excl a) (lc_clear_trigger b)"
  unfolding lc_clear_trigger_def
  by (intro preserves_intros excl_modify lc_only_board lc_only_excl; simp add: flag_other lc_flag_masks)

lemma excl_begin: "preserves (lc_excl a) (lc_begin_homing b t)"
  unfolding lc_begin_homing_def
  by (intro preserves_intros preserves_strengthen [where R = "\<lambda>s. lc_excl a s \<and> (b = a \<longrightarrow> \<not> is_flag_set FLAG_IS_AWAIT_HOMING (lces s a))"])
    (auto simp: lc_excl_def set_lc_def flag_other lc_flag_masks flag_cleared_same)

lemma excl_sosfilt: "preserves (lc_excl a) (sosfilt sf v)"
proof -
  note P = lc_only_excl [of a]
  have f: "preserves (lc_excl a) (fixed_mul x y)" for x y
    unfolding fixed_mul_def by (intro preserves_intros lc_only_board P)
  have i: "preserves (lc_excl a) (int32_result x)" for x
    unfolding int32_result_def by (intro preserves_intros)
  have "preserves (lc_excl a) (sos_section c z x)" for c z x
    unfolding sos_section_def by (intro preserves_intros f i)
  then have "preserves (lc_excl a) (sos_sections sf n k x)" for n k x
    by (induction n arbitrary: k x) (auto intro!: preserves_intros simp: lc_excl_def)
  then show ?thesis unfolding sosfilt_def by (intro preserves_intros lc_only_board P)
qed

lemma excl_judge: "preserves (lc_excl a) (lc_judge (signal_call c) b h x t)"
  unfolding lc_judge_def lc_is_trigger_def lc_count_down_def lc_count_up_def
  by (intro preserves_intros excl_try excl_sosfilt excl_clear excl_modify lc_only_deref;
      simp add: is_flag_set_def split: if_splits)

lemma excl_sample: "preserves (lc_excl a) (load_cell_endstop_report_sample (signal_call c) b x t)"
  unfolding load_cell_endstop_report_sample_def
  by (intro preserves_intros excl_begin excl_clear excl_judge excl_try excl_modify; simp add: is_flag_set_def)

lemma excl_watchdog: "preserves (lc_excl a) (watchdog_event (signal_call c) b)"
  unfolding watchdog_event_def
  by (intro preserves_intros excl_try excl_modify; simp add: lc_excl_def is_flag_set_def)

lemma lc_only_lookup: "lc_only P \<Longrightarrow> preserves P (oid_lookup f oid ty)"
  unfolding oid_lookup_def oid_entry_def by (intro preserves_intros lc_only_board lc_only_deref)

lemma lc_only_add:
  assumes P: "lc_only P"
  shows "preserves P (sched_add_timer f t)"
proof -
  have "preserves P (insert_timer p q w)" for p q w
    by (rule preservesI, erule lc_onlyD [OF P]) (simp add: insert_timer_def split: option.splits)
  then show ?thesis
    unfolding sched_add_timer_def sched_check_close_def sched_try_shutdown_def sched_add_first_def
    by (intro preserves_intros lc_only_board [OF P] lc_only_modify [OF P]) simp_all
qed

lemma excl_home: "preserves (lc_excl a) (command_load_cell_endstop_home args)"
proof -
  have R: "lc_only (\<lambda>s. lc_excl a s \<and> (b = a \<longrightarrow> \<not> is_flag_set FLAG_IS_HOMING (lces s a)))" (is "lc_only (?R b)") for b
    by (simp add: lc_only_def lc_excl_def)
  have m: "preserves (?R b) (modify (set_lc b f))" if "\<And>l. l_flags (f l) = l_flags l" for b f
    by (rule preserves_modify) (auto simp: lc_excl_def set_lc_def is_flag_set_def that)
  have aw: "preserves (?R b) (modify (set_lc b (set_flag FLAG_IS_AWAIT_HOMING)))" for b
    by (rule preserves_modify) (auto simp: lc_excl_def set_lc_def flag_other lc_flag_masks)
  have w: "preserves (?R b) (modify (\<lambda>s. set_wake q v (set_lc b f s)))" if "\<And>l. l_flags (f l) = l_flags l" for b f q v
    by (rule preserves_modify) (auto simp: lc_excl_def set_lc_def is_flag_set_def that)
  have rest: "preserves (lc_excl a) (mseq (modify (set_lc b (\<lambda>l. clear_flag FLAG_IS_AWAIT_HOMING (clear_flag FLAG_IS_HOMING
             (clear_flag FLAG_IS_HOMING_TRIGGER l))))) m)" if "preserves (?R b) m" for b and m :: "('s lces_scheme, unit) cmd"
    by (rule preserves_strengthen [where R = "?R b", OF _ that])
      (auto simp: lc_excl_def set_lc_def flag_other lc_flag_masks flag_cleared_same)
  show ?thesis
    unfolding command_load_cell_endstop_home_def load_cell_endstop_oid_lookup_def trsync_oid_lookup_def reset_filter_state_def
    by (rule preserves_mbind, intro preserves_intros lc_only_deref lc_only_lookup lc_only_excl,
        rule preserves_mseq, rule lc_only_stop(1) [OF lc_only_excl], rule rest,
        intro preserves_intros lc_only_deref lc_only_lookup [OF R] lc_only_add [OF R] lc_only_modify [OF R] m aw w)
      simp_all
qed

lemma excl_range: "preserves (lc_excl a) (command_set_range_load_cell_endstop args)"
  unfolding command_set_range_load_cell_endstop_def load_cell_endstop_oid_lookup_def set_endstop_range_def reset_filter_state_def
  by (intro preserves_intros lc_only_deref lc_only_lookup lc_only_board lc_only_excl lc_only_modify excl_modify;
      simp add: is_flag_set_def lc_only_excl)

text \<open>
  The states a load cell can be in: configuring it clears the flags, then samples, watchdog events and commands
  follow in any order, for this or for another load cell, and anything that does not touch the load cell.
\<close>

inductive load_cell_run :: "step_config \<Rightarrow> nat \<Rightarrow> 's lces_scheme \<Rightarrow> bool" for c :: step_config and a :: nat where
  configured: "l_flags (lces s a) = 0 \<Longrightarrow> load_cell_run c a s"
| sample: "load_cell_run c a s \<Longrightarrow> load_cell_run c a (snd (load_cell_endstop_report_sample (signal_call c) b x t s))"
| watchdog: "load_cell_run c a s \<Longrightarrow> load_cell_run c a (snd (watchdog_event (signal_call c) b s))"
| home: "load_cell_run c a s \<Longrightarrow> load_cell_run c a (snd (command_load_cell_endstop_home args s))"
| range: "load_cell_run c a s \<Longrightarrow> load_cell_run c a (snd (command_set_range_load_cell_endstop args s))"
| other: "load_cell_run c a s \<Longrightarrow> lces t a = lces s a \<Longrightarrow> load_cell_run c a t"

lemma load_cell_run_excl: "load_cell_run c a s \<Longrightarrow> lc_excl a s"
proof (induction rule: load_cell_run.induct)
  case (configured s)
  then show ?case by (simp add: lc_excl_def is_flag_set_def)
next
  case (other s t)
  then show ?case by (simp add: lc_excl_def)
qed (auto intro: preservesD [OF excl_sample] preservesD [OF excl_watchdog] preservesD [OF excl_home] preservesD [OF excl_range])

section \<open>Properties\<close>

text \<open>
  C34: The watchdog of a load cell end stop never acts.  It monitors only while the load cell is both homing and
  waiting to home, and in no state that samples, events and commands can reach are both flags set: the timer
  ends at its first event and a sensor that stops delivering samples is not reported.\<close>

theorem load_cell_watchdog_inert:
  assumes "load_cell_run c a s"
  shows "watchdog_event call a s = (Inr SF_DONE, s)"
  using load_cell_run_excl [OF assms] by (auto simp: watchdog_event_def run_simps lc_excl_def)

theorem load_cell_watchdog_inert_witness:
  "let s = snd (command_load_cell_endstop_home [0, 1, 2, 3, 100000, 2, 1000, 5]
      (lces_static\<lparr>oids := Some [\<lparr>o_type = Some Oid_load_cell_endstop, o_data = Some 5000\<rparr>], oid_count := 1\<rparr>)) in
    watchdog_event (signal_call full_config) 5000 s = (Inr SF_DONE, s)"
proof -
  have "load_cell_run full_config 5000 (lces_static\<lparr>oids := Some [\<lparr>o_type = Some Oid_load_cell_endstop, o_data = Some 5000\<rparr>], oid_count := 1\<rparr>)"
    by (rule load_cell_run.configured) (simp add: lces_static_simps zero_load_cell_def)
  then show ?thesis unfolding Let_def by (rule load_cell_watchdog_inert [OF load_cell_run.home])
qed

end
