(* ===== verification/Spicmds.thy ===== *)
theory Spicmds
  imports Load_Cell
begin

text \<open>
  SPI devices (\<open>src/src/spicmds.c\<close>), the bit-banged bus (\<open>src/src/spi_software.c\<close>) and the thermocouple
  readers on top of them (\<open>src/src/thermocouple.c\<close>).  The hardware bus of the board is a stream of the
  bytes it receives and a log of the bytes it sends.
\<close>

section \<open>State\<close>

record spi_software =
  ss_miso :: u32
  ss_mosi :: u32
  ss_sclk :: u32
  ss_mode :: u8

record spi_config =
  sc_bus :: u32
  sc_mode :: u8
  sc_rate :: u32

record spidev_s =
  p_spi_config :: spi_config
  p_spi_software :: "nat option"
  p_pin :: u32
  p_flags :: u8

record spidev_shutdown_s =
  ps_spi :: "nat option"
  ps_shutdown_msg :: "u8 list"           \<comment> \<open>shutdown_msg_len bytes\<close>

datatype ts_chip = TS_CHIP_MAX31855 | TS_CHIP_MAX31856 | TS_CHIP_MAX31865 | TS_CHIP_MAX6675

record thermocouple_spi =
  th_rest_time :: u32
  th_min_value :: u32
  th_max_value :: u32
  th_spi :: "nat option"
  th_max_invalid :: u8
  th_invalid_count :: u8
  th_chip_type :: ts_chip
  th_flags :: u8

record spis = lces +
  spidevs :: "nat \<Rightarrow> spidev_s"
  spi_softwares :: "nat \<Rightarrow> spi_software"
  spi_shutdowns :: "nat \<Rightarrow> spidev_shutdown_s"
  thermocouples :: "nat \<Rightarrow> thermocouple_spi"
  spi_bus_ok :: "u32 \<Rightarrow> bool"
  spi_in :: "nat \<Rightarrow> u8"
  spi_n :: nat
  spi_log :: "u8 list"

definition SF_HAVE_PIN :: u8 where "SF_HAVE_PIN = 1"
definition SF_SOFTWARE :: u8 where "SF_SOFTWARE = 2"
definition SF_HARDWARE :: u8 where "SF_HARDWARE = 4"
definition SF_CS_ACTIVE_HIGH :: u8 where "SF_CS_ACTIVE_HIGH = 8"
definition TS_PENDING :: u8 where "TS_PENDING = 1"

lemmas spi_flags = SF_HAVE_PIN_def SF_SOFTWARE_def SF_HARDWARE_def SF_CS_ACTIVE_HIGH_def TS_PENDING_def

definition SIZEOF_spidev :: nat where "SIZEOF_spidev = 20"
definition SIZEOF_spidev_shutdown :: nat where "SIZEOF_spidev_shutdown = 8"
definition SIZEOF_spi_software :: nat where "SIZEOF_spi_software = 28"
definition SIZEOF_thermocouple :: nat where "SIZEOF_thermocouple = 32"

definition set_spi :: "nat \<Rightarrow> (spidev_s \<Rightarrow> spidev_s) \<Rightarrow> 's spis_scheme \<Rightarrow> 's spis_scheme" where
  "set_spi a f s = s\<lparr>spidevs := (spidevs s)(a := f (spidevs s a))\<rparr>"

definition set_ss :: "nat \<Rightarrow> (spi_software \<Rightarrow> spi_software) \<Rightarrow> 's spis_scheme \<Rightarrow> 's spis_scheme" where
  "set_ss a f s = s\<lparr>spi_softwares := (spi_softwares s)(a := f (spi_softwares s a))\<rparr>"

definition set_th :: "nat \<Rightarrow> (thermocouple_spi \<Rightarrow> thermocouple_spi) \<Rightarrow> 's spis_scheme \<Rightarrow> 's spis_scheme" where
  "set_th a f s = s\<lparr>thermocouples := (thermocouples s)(a := f (thermocouples s a))\<rparr>"

definition zero_spidev :: spidev_s where
  "zero_spidev = \<lparr>p_spi_config = \<lparr>sc_bus = 0, sc_mode = 0, sc_rate = 0\<rparr>, p_spi_software = None, p_pin = 0, p_flags = 0\<rparr>"

definition zero_thermocouple :: thermocouple_spi where
  "zero_thermocouple = \<lparr>th_rest_time = 0, th_min_value = 0, th_max_value = 0, th_spi = None, th_max_invalid = 0,
     th_invalid_count = 0, th_chip_type = TS_CHIP_MAX31855, th_flags = 0\<rparr>"

text \<open>The board's interface to its SPI buses.\<close>

definition spi_setup :: "u32 \<Rightarrow> u8 \<Rightarrow> u32 \<Rightarrow> ('s spis_scheme, spi_config) cmd" where
  "spi_setup bus mode rate = mbind (gets (\<lambda>s. spi_bus_ok s bus)) (\<lambda>ok.
     if \<not> ok then shutdown ''spi_setup'' ''Invalid spi bus''
     else ret \<lparr>sc_bus = bus, sc_mode = mode, sc_rate = rate\<rparr>)"

definition spi_transfer :: "bool \<Rightarrow> u8 list \<Rightarrow> ('s spis_scheme, u8 list) cmd" where
  "spi_transfer receive_data data = mbind (gets (\<lambda>s. map (\<lambda>i. spi_in s (spi_n s + i)) [0..<length data])) (\<lambda>got.
     mseq (modify (\<lambda>s. s\<lparr>spi_n := spi_n s + length data, spi_log := spi_log s @ data\<rparr>))
     (ret (if receive_data then got else data)))"

section \<open>The software bus\<close>

definition gpio_out_toggle :: "u32 \<Rightarrow> ('s hw_scheme, unit) cmd" where
  "gpio_out_toggle g = gpio_out_toggle_noirq g"

definition spi_software_prepare :: "spi_software \<Rightarrow> ('s hw_scheme, unit) cmd" where
  "spi_software_prepare ss = gpio_out_write (ss_sclk ss) (ucast (ss_mode ss AND 2))"

text \<open>One bit: the outgoing byte is shifted out at the top and the incoming one in at the bottom.\<close>

definition spi_software_bit :: "spi_software \<Rightarrow> u8 \<times> u8 \<Rightarrow> ('s hw_scheme, u8 \<times> u8) cmd" where
  "spi_software_bit ss = (\<lambda>(outbuf, inbuf).
     if ss_mode ss AND 1 \<noteq> 0 then
       mseq (gpio_out_toggle (ss_sclk ss)) (
       mseq (gpio_out_write (ss_mosi ss) (ucast (outbuf AND 0x80))) (
       mseq (gpio_out_toggle (ss_sclk ss)) (
       mbind (gpio_in_read (ss_miso ss)) (\<lambda>v.
       ret (push_bit 1 outbuf, push_bit 1 inbuf OR (if v then 1 else 0))))))
     else
       mseq (gpio_out_write (ss_mosi ss) (ucast (outbuf AND 0x80))) (
       mseq (gpio_out_toggle (ss_sclk ss)) (
       mbind (gpio_in_read (ss_miso ss)) (\<lambda>v.
       mseq (gpio_out_toggle (ss_sclk ss))
       (ret (push_bit 1 outbuf, push_bit 1 inbuf OR (if v then 1 else 0)))))))"

fun spi_software_bits :: "spi_software \<Rightarrow> nat \<Rightarrow> u8 \<times> u8 \<Rightarrow> ('s hw_scheme, u8 \<times> u8) cmd" where
  "spi_software_bits ss 0 b = ret b"
| "spi_software_bits ss (Suc n) b = mbind (spi_software_bit ss b) (spi_software_bits ss n)"

fun spi_software_transfer :: "spi_software \<Rightarrow> bool \<Rightarrow> u8 list \<Rightarrow> ('s hw_scheme, u8 list) cmd" where
  "spi_software_transfer ss receive_data [] = ret []"
| "spi_software_transfer ss receive_data (d # ds) = mbind (spi_software_bits ss 8 (d, 0)) (\<lambda>(_, inbuf).
     mbind (spi_software_transfer ss receive_data ds) (\<lambda>rest.
     ret ((if receive_data then inbuf else d) # rest)))"

section \<open>SPI devices\<close>

definition new_spidev :: "u8 \<Rightarrow> ('s spis_scheme, nat) cmd" where
  "new_spidev oid = mbind (oid_alloc oid Oid_spi SIZEOF_spidev) (\<lambda>a.
     mseq (modify (set_spi a (\<lambda>_. zero_spidev))) (ret a))"

definition command_config_spi :: "u32 list \<Rightarrow> ('s spis_scheme, unit) cmd" where
  "command_config_spi args = mbind (new_spidev (ucast (args ! 0))) (\<lambda>a.
     let cs_active_high = args ! 2 in
     mbind (gpio_out_setup (args ! 1) (if cs_active_high = 0 then 1 else 0)) (\<lambda>pin.
     modify (set_spi a (\<lambda>p. p\<lparr>p_pin := pin,
       p_flags := p_flags p OR SF_HAVE_PIN OR (if cs_active_high \<noteq> 0 then SF_CS_ACTIVE_HIGH else 0)\<rparr>))))"

definition command_config_spi_without_cs :: "u32 list \<Rightarrow> ('s spis_scheme, unit) cmd" where
  "command_config_spi_without_cs args = mbind (new_spidev (ucast (args ! 0))) (\<lambda>a. ret ())"

definition spidev_oid_lookup :: "u8 \<Rightarrow> ('s spis_scheme, nat) cmd" where
  "spidev_oid_lookup oid = mbind (oid_lookup ''spidev_oid_lookup'' oid Oid_spi) deref"

definition command_spi_set_bus :: "u32 list \<Rightarrow> ('s spis_scheme, unit) cmd" where
  "command_spi_set_bus args = mbind (spidev_oid_lookup (ucast (args ! 0))) (\<lambda>a.
     let mode = ucast (args ! 2) :: u8 in
     mbind (gets (\<lambda>s. p_flags (spidevs s a))) (\<lambda>flags.
     if mode > 3 \<or> flags AND (SF_SOFTWARE OR SF_HARDWARE) \<noteq> 0 then shutdown ''command_spi_set_bus'' ''Invalid spi config''
     else mbind (spi_setup (args ! 1) mode (args ! 3)) (\<lambda>cfg.
       modify (set_spi a (\<lambda>p. p\<lparr>p_spi_config := cfg, p_flags := p_flags p OR SF_HARDWARE\<rparr>)))))"

definition spidev_set_software_bus :: "nat \<Rightarrow> nat \<Rightarrow> ('s spis_scheme, unit) cmd" where
  "spidev_set_software_bus a ss = mbind (gets (\<lambda>s. p_flags (spidevs s a))) (\<lambda>flags.
     if flags AND (SF_SOFTWARE OR SF_HARDWARE) \<noteq> 0 then shutdown ''spidev_set_software_bus'' ''Invalid spi config''
     else modify (set_spi a (\<lambda>p. p\<lparr>p_spi_software := Some ss, p_flags := p_flags p OR SF_SOFTWARE\<rparr>)))"

definition command_spi_set_software_bus :: "u32 list \<Rightarrow> ('s spis_scheme, unit) cmd" where
  "command_spi_set_software_bus args =
     (let mode = ucast (args ! 4) :: u8 in
      if mode > 3 then shutdown ''command_spi_set_software_bus'' ''Invalid spi config''
      else mbind (spidev_oid_lookup (ucast (args ! 0))) (\<lambda>a.
        mbind (alloc_chunk SIZEOF_spi_software) (\<lambda>ss.
        mbind (gpio_in_setup (args ! 1) 1) (\<lambda>miso.
        mbind (gpio_out_setup (args ! 2) 0) (\<lambda>mosi.
        mbind (gpio_out_setup (args ! 3) 0) (\<lambda>sclk.
        mseq (modify (set_ss ss (\<lambda>_. \<lparr>ss_miso = miso, ss_mosi = mosi, ss_sclk = sclk, ss_mode = mode\<rparr>)))
        (spidev_set_software_bus a ss)))))))"

text \<open>\<open>want_software\<close> is CONFIG_WANT_SOFTWARE_SPI.\<close>

definition spidev_transfer :: "bool \<Rightarrow> nat \<Rightarrow> bool \<Rightarrow> u8 list \<Rightarrow> ('s spis_scheme, u8 list) cmd" where
  "spidev_transfer want_software a receive_data data = mbind (gets (\<lambda>s. spidevs s a)) (\<lambda>p.
     let flags = p_flags p; soft = (want_software \<and> flags AND SF_SOFTWARE \<noteq> 0) in
     if flags AND (SF_SOFTWARE OR SF_HARDWARE) = 0 then ret data
     else
       mbind (if soft then mbind (deref (p_spi_software p)) (\<lambda>ss.
                mbind (gets (\<lambda>s. spi_softwares s ss)) (\<lambda>x. mseq (spi_software_prepare x) (ret (Some x))))
              else ret None) (\<lambda>ss.
       mseq (mwhen (flags AND SF_HAVE_PIN \<noteq> 0)
               (gpio_out_write (p_pin p) (bool32 (flags AND SF_CS_ACTIVE_HIGH \<noteq> 0)))) (
       mbind (case ss of Some x \<Rightarrow> spi_software_transfer x receive_data data
              | None \<Rightarrow> spi_transfer receive_data data) (\<lambda>got.
       mseq (mwhen (flags AND SF_HAVE_PIN \<noteq> 0)
               (gpio_out_write (p_pin p) (bool32 (flags AND SF_CS_ACTIVE_HIGH = 0))))
       (ret got)))))"

text \<open>The received bytes replace those of the command in the receive buffer.\<close>

definition store_ptr :: "u32 \<Rightarrow> u8 list \<Rightarrow> ('s comm_scheme, unit) cmd" where
  "store_ptr v bs = mbind (gets receive_buf) (\<lambda>buf. case write_bytes buf (unat v) bs of
       None \<Rightarrow> fail (Fault ''write past the buffer'')
     | Some buf' \<Rightarrow> modify (\<lambda>s. s\<lparr>receive_buf := buf'\<rparr>))"

definition command_spi_transfer :: "bool \<Rightarrow> u32 list \<Rightarrow> ('s spis_scheme, unit) cmd" where
  "command_spi_transfer want_software args =
     (let oid = ucast (args ! 0) :: u8; data_len = ucast (args ! 1) :: u8 in
      mbind (spidev_oid_lookup oid) (\<lambda>a.
      mbind (command_decode_ptr (ucast data_len) (args ! 2)) (\<lambda>data.
      mbind (spidev_transfer want_software a True data) (\<lambda>got.
      mseq (store_ptr (args ! 2) got)
      (sendf ''spi_transfer_response oid=%c response=%*s'' [U (ucast oid), Buf got])))))"

definition command_spi_send :: "bool \<Rightarrow> u32 list \<Rightarrow> ('s spis_scheme, unit) cmd" where
  "command_spi_send want_software args =
     mbind (spidev_oid_lookup (ucast (args ! 0))) (\<lambda>a.
     mbind (command_decode_ptr (ucast (ucast (args ! 1) :: u8)) (args ! 2)) (\<lambda>data.
     mbind (spidev_transfer want_software a False data) (\<lambda>_. ret ())))"

definition command_config_spi_shutdown :: "u32 list \<Rightarrow> ('s spis_scheme, unit) cmd" where
  "command_config_spi_shutdown args =
     mbind (spidev_oid_lookup (ucast (args ! 1))) (\<lambda>spi.
     let shutdown_msg_len = ucast (args ! 2) :: u8 in
     mbind (oid_alloc (ucast (args ! 0)) Oid_spi_shutdown (SIZEOF_spidev_shutdown + unat shutdown_msg_len)) (\<lambda>a.
     mbind (command_decode_ptr (ucast shutdown_msg_len) (args ! 3)) (\<lambda>msg.
     modify (\<lambda>s. s\<lparr>spi_shutdowns := (spi_shutdowns s)(a := \<lparr>ps_spi = Some spi, ps_shutdown_msg = msg\<rparr>)\<rparr>))))"

definition spidev_release :: "nat \<Rightarrow> ('s spis_scheme, unit) cmd" where
  "spidev_release a = mbind (gets (\<lambda>s. spidevs s a)) (\<lambda>p.
     mwhen (p_flags p AND SF_HAVE_PIN \<noteq> 0)
       (gpio_out_write (p_pin p) (bool32 (p_flags p AND SF_CS_ACTIVE_HIGH = 0))))"

definition spidev_shutdown :: "bool \<Rightarrow> ('s spis_scheme, unit) cmd" where
  "spidev_shutdown want_software =
     mseq (foreach_oid Oid_spi (\<lambda>oid a. spidev_release a))
     (foreach_oid Oid_spi_shutdown (\<lambda>oid sd. mbind (gets (\<lambda>s. spi_shutdowns s sd)) (\<lambda>x.
        mbind (deref (ps_spi x)) (\<lambda>a.
        mbind (spidev_transfer want_software a False (ps_shutdown_msg x)) (\<lambda>_. ret ())))))"

section \<open>Thermocouples\<close>

definition thermocouple_event :: "nat \<Rightarrow> ('s spis_scheme, sf) cmd" where
  "thermocouple_event a = mseq (sched_wake_task Thermocouple_wake) (
     mseq (modify (set_th a (\<lambda>t. t\<lparr>th_flags := th_flags t OR TS_PENDING\<rparr>))) (
     mseq (modify (\<lambda>s. set_wake (Obj_timer a 0) (waketime s (Obj_timer a 0) + th_rest_time (thermocouples s a)) s))
     (ret SF_RESCHEDULE)))"

definition ts_chip_of :: "u8 \<Rightarrow> ts_chip option" where
  "ts_chip_of n = (if n = 0 then Some TS_CHIP_MAX31855 else if n = 1 then Some TS_CHIP_MAX31856
     else if n = 2 then Some TS_CHIP_MAX31865 else if n = 3 then Some TS_CHIP_MAX6675 else None)"

definition command_config_thermocouple :: "u32 list \<Rightarrow> ('s spis_scheme, unit) cmd" where
  "command_config_thermocouple args = (case ts_chip_of (ucast (args ! 2)) of
       None \<Rightarrow> shutdown ''command_config_thermocouple'' ''Invalid thermocouple chip type''
     | Some chip \<Rightarrow>
         mbind (oid_alloc (ucast (args ! 0)) Oid_thermocouple SIZEOF_thermocouple) (\<lambda>a.
         mseq (modify (\<lambda>s. set_th a (\<lambda>_. zero_thermocouple) (zero_timer (Obj_timer a 0) s))) (
         mseq (modify (set_func (Obj_timer a 0) (Some Thermocouple_event))) (
         mbind (spidev_oid_lookup (ucast (args ! 1))) (\<lambda>spi.
         modify (set_th a (\<lambda>t. t\<lparr>th_spi := Some spi, th_chip_type := chip\<rparr>)))))))"

definition command_query_thermocouple :: "u32 list \<Rightarrow> ('s spis_scheme, unit) cmd" where
  "command_query_thermocouple args =
     mbind (mbind (oid_lookup ''command_query_thermocouple'' (ucast (args ! 0)) Oid_thermocouple) deref) (\<lambda>a.
     mseq (sched_del_timer (Obj_timer a 0)) (
     mseq (modify (set_wake (Obj_timer a 0) (args ! 1))) (
     mseq (modify (set_th a (\<lambda>t. t\<lparr>th_rest_time := args ! 2\<rparr>))) (
     if args ! 2 = 0 then ret ()
     else
       mseq (modify (set_th a (\<lambda>t. t\<lparr>th_min_value := args ! 3, th_max_value := args ! 4,
               th_max_invalid := ucast (args ! 5), th_invalid_count := 0\<rparr>)))
       (sched_add_timer ''command_query_thermocouple'' (Obj_timer a 0))))))"

definition thermocouple_respond :: "nat \<Rightarrow> u32 \<Rightarrow> u32 \<Rightarrow> u8 \<Rightarrow> u8 \<Rightarrow> ('s spis_scheme, unit) cmd" where
  "thermocouple_respond a next_begin_time val fault oid =
     mseq (sendf ''thermocouple_result oid=%c next_clock=%u value=%u fault=%c''
             [U (ucast oid), U next_begin_time, U val, U (ucast fault)]) (
     mbind (gets (\<lambda>s. thermocouples s a)) (\<lambda>t.
     let reset = modify (set_th a (\<lambda>t. t\<lparr>th_invalid_count := 0\<rparr>)) in
     if fault \<noteq> 0 \<or> val < th_min_value t \<or> val > th_max_value t then
       mseq (modify (set_th a (\<lambda>t. t\<lparr>th_invalid_count := th_invalid_count t + 1\<rparr>))) (
       if th_invalid_count t + 1 < th_max_invalid t then ret ()
       else mseq (sched_try_shutdown ''thermocouple_respond'' ''Thermocouple reader fault'') reset)
     else reset))"

definition be32 :: "u8 list \<Rightarrow> u32" where
  "be32 bs = push_bit 24 (ucast (bs ! 0)) OR push_bit 16 (ucast (bs ! 1)) OR push_bit 8 (ucast (bs ! 2)) OR ucast (bs ! 3)"

definition be16 :: "u8 list \<Rightarrow> u16" where
  "be16 bs = push_bit 8 (ucast (bs ! 0)) OR ucast (bs ! 1)"

text \<open>A transfer on the device of a thermocouple, which replaces the first bytes of \<open>msg\<close>.\<close>

definition thermocouple_transfer :: "bool \<Rightarrow> nat \<Rightarrow> nat \<Rightarrow> u8 list \<Rightarrow> ('s spis_scheme, u8 list) cmd" where
  "thermocouple_transfer want_software a n msg =
     mbind (mbind (gets (\<lambda>s. th_spi (thermocouples s a))) deref) (\<lambda>spi.
     mbind (spidev_transfer want_software spi True (take n msg)) (\<lambda>got. ret (got @ drop n msg)))"

definition thermocouple_handle_max31855 :: "bool \<Rightarrow> nat \<Rightarrow> u32 \<Rightarrow> u8 \<Rightarrow> ('s spis_scheme, unit) cmd" where
  "thermocouple_handle_max31855 ws a next_begin_time oid =
     mbind (thermocouple_transfer ws a 4 [0, 0, 0, 0]) (\<lambda>msg.
     let val = be32 msg in thermocouple_respond a next_begin_time val (ucast (val AND 7)) oid)"

definition thermocouple_handle_max31856 :: "bool \<Rightarrow> nat \<Rightarrow> u32 \<Rightarrow> u8 \<Rightarrow> ('s spis_scheme, unit) cmd" where
  "thermocouple_handle_max31856 ws a next_begin_time oid =
     mbind (thermocouple_transfer ws a 4 [0x0c, 0, 0, 0]) (\<lambda>msg.
     let val = be32 msg AND 0x00ffffff in
     mbind (thermocouple_transfer ws a 2 (msg[0 := 0x0f, 1 := 0])) (\<lambda>msg.
     thermocouple_respond a next_begin_time val (msg ! 1) oid))"

definition thermocouple_handle_max31865 :: "bool \<Rightarrow> nat \<Rightarrow> u32 \<Rightarrow> u8 \<Rightarrow> ('s spis_scheme, unit) cmd" where
  "thermocouple_handle_max31865 ws a next_begin_time oid =
     mbind (thermocouple_transfer ws a 3 [0x01, 0, 0, 0]) (\<lambda>msg.
     let val = drop_bit 8 (be32 msg) AND 0xffff in
     mbind (thermocouple_transfer ws a 2 (msg[0 := 0x07, 1 := 0])) (\<lambda>msg.
     thermocouple_respond a next_begin_time val ((msg ! 1 AND NOT 3) OR ucast (val AND 1)) oid))"

definition thermocouple_handle_max6675 :: "bool \<Rightarrow> nat \<Rightarrow> u32 \<Rightarrow> u8 \<Rightarrow> ('s spis_scheme, unit) cmd" where
  "thermocouple_handle_max6675 ws a next_begin_time oid =
     mbind (thermocouple_transfer ws a 2 [0, 0]) (\<lambda>msg.
     let val = be16 msg in thermocouple_respond a next_begin_time (ucast val) (ucast (val AND 6)) oid)"

definition thermocouple_task_one :: "bool \<Rightarrow> u8 \<Rightarrow> nat \<Rightarrow> ('s spis_scheme, unit) cmd" where
  "thermocouple_task_one ws oid a = mbind (gets (\<lambda>s. thermocouples s a)) (\<lambda>t.
     if th_flags t AND TS_PENDING = 0 then ret ()
     else mbind (gets (\<lambda>s. waketime s (Obj_timer a 0))) (\<lambda>next_begin_time.
       mseq (modify (set_th a (\<lambda>t. t\<lparr>th_flags := th_flags t AND NOT TS_PENDING\<rparr>))) (
       case th_chip_type t of
         TS_CHIP_MAX31855 \<Rightarrow> thermocouple_handle_max31855 ws a next_begin_time oid
       | TS_CHIP_MAX31856 \<Rightarrow> thermocouple_handle_max31856 ws a next_begin_time oid
       | TS_CHIP_MAX31865 \<Rightarrow> thermocouple_handle_max31865 ws a next_begin_time oid
       | TS_CHIP_MAX6675 \<Rightarrow> thermocouple_handle_max6675 ws a next_begin_time oid)))"

definition thermocouple_task :: "bool \<Rightarrow> ('s spis_scheme, unit) cmd" where
  "thermocouple_task ws = mbind (sched_check_wake Thermocouple_wake) (\<lambda>w.
     mwhen w (foreach_oid Oid_thermocouple (thermocouple_task_one ws)))"

text \<open>The SPI devices before anything is configured.\<close>

definition spis_static :: spis where
  "spis_static = lces.extend lces_static \<lparr>spidevs = (\<lambda>_. zero_spidev),
     spi_softwares = (\<lambda>_. \<lparr>ss_miso = 0, ss_mosi = 0, ss_sclk = 0, ss_mode = 0\<rparr>),
     spi_shutdowns = (\<lambda>_. \<lparr>ps_spi = None, ps_shutdown_msg = []\<rparr>), thermocouples = (\<lambda>_. zero_thermocouple),
     spi_bus_ok = (\<lambda>_. True), spi_in = (\<lambda>_. 0), spi_n = 0, spi_log = []\<rparr>"

lemmas spis_static_simps = lces_static_simps spis_static_def lces.extend_def

section \<open>The software bus\<close>

text \<open>The bits of a byte in the order they go over the wire, and the byte they make.\<close>

definition wire_bits :: "u8 \<Rightarrow> bool list" where
  "wire_bits d = map (\<lambda>j. bit d (7 - j)) [0..<8]"

definition wire_byte :: "bool list \<Rightarrow> u8" where
  "wire_byte vs = foldl (\<lambda>b v. push_bit 1 b OR (if v then 1 else 0)) 0 vs"

text \<open>The levels a pin was set to in a part of the log.\<close>

definition levels :: "u32 \<Rightarrow> (u32 \<times> bool) list \<Rightarrow> bool list" where
  "levels p log = map snd (filter (\<lambda>e. fst e = p) log)"

lemma high_bit: "ucast (x AND 0x80 :: u8) \<noteq> (0 :: u32) \<longleftrightarrow> bit x 7"
proof
  assume "bit x 7"
  then have "bit (ucast (x AND 0x80) :: u32) 7" by (simp add: bit_simps bit_0x80)
  then show "ucast (x AND 0x80) \<noteq> (0 :: u32)" by auto
next
  assume "ucast (x AND 0x80) \<noteq> (0 :: u32)"
  then have "x AND 0x80 \<noteq> 0" by auto
  then show "bit x 7" using and_exp_eq_0_iff_not_bit [of x 7] by simp
qed

lemma spi_bit_run:
  assumes "ss_mosi ss \<noteq> ss_sclk ss"
  shows "\<exists>t L. spi_software_bit ss (ob, ib) s
      = (Inr (push_bit 1 ob, push_bit 1 ib OR (if gpio_idr s (idr_n s) (ss_miso ss) then 1 else 0)), t)
    \<and> idr_n t = Suc (idr_n s) \<and> gpio_idr t = gpio_idr s \<and> gpio_log t = gpio_log s @ L \<and> levels (ss_mosi ss) L = [bit ob 7]"
  using assms high_bit [of ob]
  by (auto simp: spi_software_bit_def run_simps gpio_out_toggle_def gpio_out_toggle_noirq_def gpio_out_write_def levels_def)

lemma spi_bits_run:
  assumes "ss_mosi ss \<noteq> ss_sclk ss"
  shows "n \<le> 8 \<Longrightarrow> \<exists>t L ob'. spi_software_bits ss n (ob, ib) s
      = (Inr (ob', foldl (\<lambda>b v. push_bit 1 b OR (if v then 1 else 0)) ib (map (\<lambda>j. gpio_idr s (idr_n s + j) (ss_miso ss)) [0..<n])), t)
    \<and> idr_n t = idr_n s + n \<and> gpio_idr t = gpio_idr s \<and> gpio_log t = gpio_log s @ L
    \<and> levels (ss_mosi ss) L = map (\<lambda>j. bit ob (7 - j)) [0..<n]"
proof (induction n arbitrary: ob ib s)
  case 0
  then show ?case by (auto simp: levels_def)
next
  case (Suc n)
  let ?ib = "push_bit 1 ib OR (if gpio_idr s (idr_n s) (ss_miso ss) then 1 else 0)"
  obtain u K where u: "spi_software_bit ss (ob, ib) s = (Inr (push_bit 1 ob, ?ib), u)"
      "idr_n u = Suc (idr_n s)" "gpio_idr u = gpio_idr s" "gpio_log u = gpio_log s @ K" "levels (ss_mosi ss) K = [bit ob 7]"
    using spi_bit_run [OF assms, of ob ib s] by auto
  obtain t L ob' where t: "spi_software_bits ss n (push_bit 1 ob, ?ib) u
      = (Inr (ob', foldl (\<lambda>b v. push_bit 1 b OR (if v then 1 else 0)) ?ib (map (\<lambda>j. gpio_idr u (idr_n u + j) (ss_miso ss)) [0..<n])), t)"
      "idr_n t = idr_n u + n" "gpio_idr t = gpio_idr u" "gpio_log t = gpio_log u @ L"
      "levels (ss_mosi ss) L = map (\<lambda>j. bit (push_bit 1 ob) (7 - j)) [0..<n]"
    using Suc.IH [of "push_bit 1 ob" ?ib u] Suc.prems by auto
  have r: "spi_software_bits ss (Suc n) (ob, ib) s = spi_software_bits ss n (push_bit 1 ob, ?ib) u"
    using u(1) by (simp add: mbind_def)
  have m: "map (\<lambda>j. gpio_idr s (idr_n s + j) (ss_miso ss)) [0..<Suc n]
      = gpio_idr s (idr_n s) (ss_miso ss) # map (\<lambda>j. gpio_idr u (idr_n u + j) (ss_miso ss)) [0..<n]"
    by (simp add: upt_conv_Cons map_Suc_upt [symmetric] u(2,3) del: upt_Suc)
  have "bit (push_bit 1 ob) (7 - j) = bit ob (7 - Suc j)" if "j < n" for j
    unfolding bit_push_bit_iff using that Suc.prems by (auto simp: possible_bit_def)
  then have "map (\<lambda>j. bit (push_bit 1 ob) (7 - j)) [0..<n] = map (\<lambda>j. bit ob (7 - Suc j)) [0..<n]"
    by (intro map_cong refl) simp_all
  then have "levels (ss_mosi ss) (K @ L) = map (\<lambda>j. bit ob (7 - j)) [0..<Suc n]"
    using u(5) t(5) by (simp add: levels_def upt_conv_Cons map_Suc_upt [symmetric] del: upt_Suc)
  then show ?case unfolding r m using t(1-4) u(2-4) by (auto simp del: upt_Suc)
qed

section \<open>Properties\<close>

text \<open>
  C23: The bit-banged bus exchanges bytes most significant bit first, in every mode: the data pin is set to the bits
  of the bytes to send in order, and each received byte is made of the eight levels read for it.\<close>

theorem spi_software_msb_first:
  assumes "ss_mosi ss \<noteq> ss_sclk ss"
  shows "\<exists>t L. spi_software_transfer ss receive data s = (Inr (if receive
        then map (\<lambda>k. wire_byte (map (\<lambda>j. gpio_idr s (idr_n s + 8 * k + j) (ss_miso ss)) [0..<8])) [0..<length data] else data), t)
    \<and> gpio_log t = gpio_log s @ L \<and> levels (ss_mosi ss) L = concat (map wire_bits data)"
proof (induction data arbitrary: s)
  case Nil
  then show ?case by (simp add: levels_def)
next
  case (Cons d ds)
  obtain u K ob where u: "spi_software_bits ss 8 (d, 0) s
      = (Inr (ob, wire_byte (map (\<lambda>j. gpio_idr s (idr_n s + j) (ss_miso ss)) [0..<8])), u)"
      "idr_n u = idr_n s + 8" "gpio_idr u = gpio_idr s" "gpio_log u = gpio_log s @ K" "levels (ss_mosi ss) K = wire_bits d"
    using spi_bits_run [OF assms order_refl, of d 0 s] unfolding wire_byte_def wire_bits_def by blast
  let ?got = "if receive then map (\<lambda>k. wire_byte (map (\<lambda>j. gpio_idr u (idr_n u + 8 * k + j) (ss_miso ss)) [0..<8])) [0..<length ds] else ds"
  obtain t L where t: "spi_software_transfer ss receive ds u = (Inr ?got, t)" "gpio_log t = gpio_log u @ L"
      "levels (ss_mosi ss) L = concat (map wire_bits ds)"
    using Cons.IH [of u] by blast
  have "spi_software_transfer ss receive (d # ds) s
      = (Inr ((if receive then wire_byte (map (\<lambda>j. gpio_idr s (idr_n s + j) (ss_miso ss)) [0..<8]) else d) # ?got), t)"
    by (simp add: run_simps u(1) t(1) del: spi_software_bits.simps)
  moreover have "levels (ss_mosi ss) (K @ L) = concat (map wire_bits (d # ds))" using u(5) t(3) by (simp add: levels_def)
  moreover have "map (\<lambda>k. wire_byte (map (\<lambda>j. gpio_idr s (idr_n s + 8 * k + j) (ss_miso ss)) [0..<8])) [0..<length (d # ds)]
      = wire_byte (map (\<lambda>j. gpio_idr s (idr_n s + j) (ss_miso ss)) [0..<8])
        # map (\<lambda>k. wire_byte (map (\<lambda>j. gpio_idr u (idr_n u + 8 * k + j) (ss_miso ss)) [0..<8])) [0..<length ds]"
    by (simp add: upt_conv_Cons [of 0 "Suc (length ds)"] map_Suc_upt [symmetric] u(2,3) algebra_simps del: upt_Suc upt_rec_numeral)
  ultimately show ?case using u(4) t(2)
    by (intro exI [of _ t] exI [of _ "K @ L"]) (simp del: upt_Suc)
qed

theorem spi_software_msb_first_witness:
  "\<exists>t L. spi_software_transfer \<lparr>ss_miso = 1, ss_mosi = 2, ss_sclk = 3, ss_mode = 0\<rparr> False [0xa5] board_at_rest = (Inr [0xa5], t)
    \<and> gpio_log t = gpio_log board_at_rest @ L \<and> levels 2 L = [True, False, True, False, False, True, False, True]"
proof -
  have "wire_bits 0xa5 = [True, False, True, False, False, True, False, True]" by (simp add: wire_bits_def upt_conv_Cons)
  then show ?thesis
    using spi_software_msb_first [of "\<lparr>ss_miso = 1, ss_mosi = 2, ss_sclk = 3, ss_mode = 0\<rparr>" False "[0xa5]" board_at_rest] by simp
qed

end
