(* ===== verification/Por.thy ===== *)
theory Por
  imports Spicmds
begin

text \<open>
  Detection of a power loss, \<open>src/src/por.c\<close>: a pin is sampled by a timer, and when the supply is gone for
  a number of samples, a list of pins is set and the firmware shuts down.  The timer of an object is
  \<open>Obj_timer\<close> 0 of its address.
\<close>

section \<open>State\<close>

record shutdown_pins =
  sd_pin :: "u8 list"
  sd_value :: "u8 list"
  sd_count :: u8

record por_s =
  po_pin :: u32
  po_rest_time :: u32
  po_sample_time :: u32
  po_nextwake :: u32
  po_flags :: u8
  po_sample_count :: u8
  po_trigger_count :: u8
  po_sp :: "nat option"

record pors = spis +
  shutdown_pinss :: "nat \<Rightarrow> shutdown_pins"
  pors :: "nat \<Rightarrow> por_s"

definition SHUTDOWN_PIN_SIZE :: nat where "SHUTDOWN_PIN_SIZE = 64"
definition SIZEOF_shutdown_pins :: nat where "SIZEOF_shutdown_pins = 129"
definition SIZEOF_por :: nat where "SIZEOF_por = 40"

definition set_po :: "nat \<Rightarrow> (por_s \<Rightarrow> por_s) \<Rightarrow> 's pors_scheme \<Rightarrow> 's pors_scheme" where
  "set_po a f s = s\<lparr>pors := (pors s)(a := f (pors s a))\<rparr>"

definition set_sd :: "nat \<Rightarrow> (shutdown_pins \<Rightarrow> shutdown_pins) \<Rightarrow> 's pors_scheme \<Rightarrow> 's pors_scheme" where
  "set_sd a f s = s\<lparr>shutdown_pinss := (shutdown_pinss s)(a := f (shutdown_pinss s a))\<rparr>"

definition zero_shutdown_pins :: shutdown_pins where
  "zero_shutdown_pins = \<lparr>sd_pin = replicate SHUTDOWN_PIN_SIZE 0, sd_value = replicate SHUTDOWN_PIN_SIZE 0, sd_count = 0\<rparr>"

definition zero_por :: por_s where
  "zero_por = \<lparr>po_pin = 0, po_rest_time = 0, po_sample_time = 0, po_nextwake = 0, po_flags = 0, po_sample_count = 0,
     po_trigger_count = 0, po_sp = None\<rparr>"

section \<open>The pins to set\<close>

definition config_shutdown_pins :: "u32 list \<Rightarrow> ('s pors_scheme, unit) cmd" where
  "config_shutdown_pins args = mbind (oid_alloc (ucast (args ! 0)) Oid_shutdown_pins SIZEOF_shutdown_pins) (\<lambda>e.
     modify (set_sd e (\<lambda>_. zero_shutdown_pins)))"

text \<open>A write outside of the arrays is a \<open>Fault\<close>.\<close>

definition command_shutdown_pins_add :: "u32 list \<Rightarrow> ('s pors_scheme, unit) cmd" where
  "command_shutdown_pins_add args =
     mbind (mbind (oid_lookup ''command_shutdown_pins_add'' (ucast (args ! 0)) Oid_shutdown_pins) deref) (\<lambda>e.
     mbind (gets (\<lambda>s. unat (sd_count (shutdown_pinss s e)))) (\<lambda>n.
     if n + 1 > SHUTDOWN_PIN_SIZE then shutdown ''command_shutdown_pins_add'' ''shutdown_pin_count limits''
     else mbind (gets (\<lambda>s. n < length (sd_pin (shutdown_pinss s e)) \<and> n < length (sd_value (shutdown_pinss s e)))) (\<lambda>ok.
     if \<not> ok then fail (Fault ''write past the pins'')
     else mseq (modify (set_sd e (\<lambda>p. p\<lparr>sd_pin := (sd_pin p)[n := ucast (args ! 1)]\<rparr>))) (
          mseq (modify (set_sd e (\<lambda>p. p\<lparr>sd_value := (sd_value p)[n := ucast (args ! 2)]\<rparr>)))
          (modify (set_sd e (\<lambda>p. p\<lparr>sd_count := sd_count p + 1\<rparr>)))))))"

fun set_each_pin :: "shutdown_pins \<Rightarrow> nat list \<Rightarrow> ('s pors_scheme, unit) cmd" where
  "set_each_pin e [] = ret ()"
| "set_each_pin e (i # is) = (if length (sd_pin e) \<le> i \<or> length (sd_value e) \<le> i then fail (Fault ''read past the pins'')
     else mbind (gpio_out_setup (ucast (sd_pin e ! i)) (ucast (sd_value e ! i))) (\<lambda>_. set_each_pin e is))"

definition shutdown_pins_set :: "nat \<Rightarrow> ('s pors_scheme, unit) cmd" where
  "shutdown_pins_set a = mbind (gets (\<lambda>s. shutdown_pinss s a)) (\<lambda>e. set_each_pin e [0..<unat (sd_count e)])"

definition command_shutdown_pins_set :: "u32 list \<Rightarrow> ('s pors_scheme, unit) cmd" where
  "command_shutdown_pins_set args =
     mbind (mbind (oid_lookup ''command_shutdown_pins_set'' (ucast (args ! 0)) Oid_shutdown_pins) deref) (\<lambda>e.
     mseq (shutdown_pins_set e) (shutdown ''command_shutdown_pins_set'' ''shutdown_pins''))"

section \<open>Sampling\<close>

text \<open>The flag ESF_PIN_HIGH has the value it has for end stops, and so does the test of the level.\<close>

definition por_oversample_event :: "nat \<Rightarrow> ('s pors_scheme, sf) cmd" where
  "por_oversample_event a =
     mbind (gets (\<lambda>s. pors s a)) (\<lambda>e.
     mbind (gpio_in_read (po_pin e)) (\<lambda>val.
     if endstop_no_match val (po_flags e) then
       mseq (modify (set_func (Obj_timer a 0) (Some Por_event))) (
       mseq (modify (set_wake (Obj_timer a 0) (po_nextwake e))) (
       mseq (modify (set_po a (\<lambda>e. e\<lparr>po_trigger_count := po_sample_count e\<rparr>)))
       (ret SF_RESCHEDULE)))
     else
       let cnt = po_trigger_count e - 1 in
       if cnt = 0 then
         mbind (deref (po_sp e)) (\<lambda>sp.
         mseq (shutdown_pins_set sp) (shutdown ''por_oversample_event'' ''power_off''))
       else
         mseq (modify (set_po a (\<lambda>e. e\<lparr>po_trigger_count := cnt\<rparr>))) (
         mseq (modify (\<lambda>s. set_wake (Obj_timer a 0) (waketime s (Obj_timer a 0) + po_sample_time e) s))
         (ret SF_RESCHEDULE))))"

definition por_event :: "nat \<Rightarrow> ('s pors_scheme, sf) cmd" where
  "por_event a =
     mbind (gets (\<lambda>s. pors s a)) (\<lambda>e.
     mbind (gpio_in_read (po_pin e)) (\<lambda>val.
     mbind (gets (\<lambda>s. waketime s (Obj_timer a 0) + po_rest_time e)) (\<lambda>nextwake.
     if endstop_no_match val (po_flags e) then
       mseq (modify (set_wake (Obj_timer a 0) nextwake)) (ret SF_RESCHEDULE)
     else
       mseq (modify (set_po a (\<lambda>e. e\<lparr>po_nextwake := nextwake\<rparr>))) (
       mseq (modify (set_func (Obj_timer a 0) (Some Por_oversample_event)))
       (por_oversample_event a)))))"

text \<open>Starting the timer, at the end of the configuration.\<close>

definition por_start :: "tptr \<Rightarrow> u32 \<Rightarrow> ('s sched_scheme, unit) cmd" where
  "por_start p rest_time = mseq (sched_del_timer p) (
     mseq (modify (set_func p (Some Por_event))) (
     mbind timer_read_time (\<lambda>now.
     mseq (modify (set_wake p (now + rest_time)))
     (sched_add_timer ''command_config_por'' p))))"

definition command_config_por :: "u32 list \<Rightarrow> ('s pors_scheme, unit) cmd" where
  "command_config_por args = mbind (oid_alloc (ucast (args ! 0)) Oid_por SIZEOF_por) (\<lambda>a.
     mseq (modify (\<lambda>s. set_po a (\<lambda>_. zero_por) (zero_timer (Obj_timer a 0) s))) (
     mbind (oid_lookup ''command_config_por'' (ucast (args ! 1)) Oid_shutdown_pins) (\<lambda>sp.
     mseq (modify (set_po a (\<lambda>e. e\<lparr>po_sp := sp\<rparr>))) (
     mbind (gpio_in_setup (args ! 2) (sint (args ! 3))) (\<lambda>pin.
     mseq (modify (set_po a (\<lambda>e. e\<lparr>po_pin := pin, po_flags := (if args ! 4 \<noteq> 0 then ESF_PIN_HIGH else 0),
       po_sample_time := args ! 5, po_sample_count := ucast (args ! 6), po_rest_time := args ! 7,
       po_trigger_count := ucast (args ! 6)\<rparr>))) (
     por_start (Obj_timer a 0) (args ! 7)))))))"

section \<open>Setting the pins\<close>

text \<open>A list of pins as the commands build it, and the pins with their values.\<close>

definition sd_ok :: "shutdown_pins \<Rightarrow> bool" where
  "sd_ok e \<longleftrightarrow> length (sd_pin e) = SHUTDOWN_PIN_SIZE \<and> length (sd_value e) = SHUTDOWN_PIN_SIZE
     \<and> unat (sd_count e) \<le> SHUTDOWN_PIN_SIZE"

definition sd_list :: "shutdown_pins \<Rightarrow> (u32 \<times> bool) list" where
  "sd_list e = map (\<lambda>i. (ucast (sd_pin e ! i), sd_value e ! i \<noteq> 0)) [0..<unat (sd_count e)]"

lemma ucast_u8_zero: "((ucast (x :: u8) :: u32) = 0) = (x = 0)"
  using unat_bounds(1) [of x] by (simp add: word_unat_eq_iff unsigned_ucast_eq take_bit_nat_eq_self)

definition drive_pins :: "(u32 \<times> bool) list \<Rightarrow> 's hw_scheme \<Rightarrow> 's hw_scheme" where
  "drive_pins ps s = s\<lparr>gpio_odr := fold (\<lambda>(p, v) f. f(p := v)) ps (gpio_odr s), gpio_log := gpio_log s @ ps,
     gpio_mode := fold (\<lambda>(p, v) f. f(p := GPIO_OUTPUT)) ps (gpio_mode s)\<rparr>"

lemma set_each_pin_run:
  assumes "\<forall>i\<in>set is. i < length (sd_pin e) \<and> i < length (sd_value e) \<and> gpio_valid s (ucast (sd_pin e ! i))"
  shows "set_each_pin e is s = (Inr (), drive_pins (map (\<lambda>i. (ucast (sd_pin e ! i), sd_value e ! i \<noteq> 0)) is) s)"
  using assms
proof (induction "is" arbitrary: s)
  case Nil
  then show ?case by (simp add: drive_pins_def)
next
  case (Cons i js)
  let ?t = "drive_pins [(ucast (sd_pin e ! i), sd_value e ! i \<noteq> 0)] s"
  have "gpio_out_setup (ucast (sd_pin e ! i)) (ucast (sd_value e ! i)) s = (Inr (ucast (sd_pin e ! i)), ?t)"
    using Cons.prems by (simp add: gpio_defs run_simps gpio_valid_def drive_pins_def ucast_u8_zero)
  moreover have "\<forall>i\<in>set js. i < length (sd_pin e) \<and> i < length (sd_value e) \<and> gpio_valid ?t (ucast (sd_pin e ! i))"
    using Cons.prems by (simp add: drive_pins_def gpio_valid_def)
  ultimately show ?case using Cons.prems Cons.IH [of ?t]
    by (auto simp: run_simps drive_pins_def not_le)
qed

section \<open>Samples\<close>

text \<open>The event that the timer runs.\<close>

definition por_timer :: "nat \<Rightarrow> ('s pors_scheme, sf) cmd" where
  "por_timer a = mbind (gets (\<lambda>s. t_func (timers s (Obj_timer a 0)))) (\<lambda>f.
     if f = Some Por_event then por_event a
     else if f = Some Por_oversample_event then por_oversample_event a
     else fail (Fault ''timer''))"

text \<open>Reading number \<open>i\<close> shows that the supply is gone.\<close>

definition lost :: "'s pors_scheme \<Rightarrow> nat \<Rightarrow> nat \<Rightarrow> bool" where
  "lost s a i \<longleftrightarrow> \<not> endstop_no_match (gpio_idr s i (po_pin (pors s a))) (po_flags (pors s a))"

text \<open>What the events do not change.\<close>

definition same_por :: "nat \<Rightarrow> 's pors_scheme \<Rightarrow> 's pors_scheme \<Rightarrow> bool" where
  "same_por a s t \<longleftrightarrow> gpio_idr t = gpio_idr s \<and> gpio_port t = gpio_port s \<and> gpio_log t = gpio_log s \<and> gpio_odr t = gpio_odr s
     \<and> gpio_mode t = gpio_mode s
     \<and> shutdown_pinss t = shutdown_pinss s \<and> po_pin (pors t a) = po_pin (pors s a) \<and> po_flags (pors t a) = po_flags (pors s a)
     \<and> po_sample_count (pors t a) = po_sample_count (pors s a) \<and> po_sp (pors t a) = po_sp (pors s a)"

lemma same_por_refl: "same_por a s s"
  by (simp add: same_por_def)

lemma same_por_trans: "same_por a s t \<Longrightarrow> same_por a t u \<Longrightarrow> same_por a s u"
  by (simp add: same_por_def)

lemma same_por_lost: "same_por a s t \<Longrightarrow> lost t a i = lost s a i"
  by (simp add: same_por_def lost_def)

text \<open>
  The last \<open>k\<close> readings showed a loss, and the counter has gone down by \<open>k\<close>; \<open>f\<close> is the event to come.
\<close>

definition watching :: "nat \<Rightarrow> nat \<Rightarrow> timer_fn \<Rightarrow> 's pors_scheme \<Rightarrow> bool" where
  "watching a k f s \<longleftrightarrow> k < unat (po_sample_count (pors s a))
     \<and> unat (po_trigger_count (pors s a)) = unat (po_sample_count (pors s a)) - k
     \<and> t_func (timers s (Obj_timer a 0)) = Some f \<and> f \<in> {Por_event, Por_oversample_event} \<and> (f = Por_event \<longrightarrow> k = 0)
     \<and> k \<le> idr_n s \<and> (\<forall>i. idr_n s \<le> i + k \<longrightarrow> i < idr_n s \<longrightarrow> lost s a i)"

text \<open>What the last sample starts.\<close>

definition power_off :: "nat \<Rightarrow> ('s pors_scheme, sf) cmd" where
  "power_off a s = mbind (deref (po_sp (pors s a))) (\<lambda>sp.
     mseq (shutdown_pins_set sp) (shutdown ''por_oversample_event'' ''power_off'')) s"

lemmas por_run_simps = run_simps set_po_def set_wake_def set_func_def Let_def

lemma oversample_step:
  assumes w: "watching a k Por_oversample_event s"
  shows "por_oversample_event a s =
    (if \<not> lost s a (idr_n s) then (Inr SF_RESCHEDULE, set_po a (\<lambda>e. e\<lparr>po_trigger_count := po_sample_count e\<rparr>)
        (set_wake (Obj_timer a 0) (po_nextwake (pors s a)) (set_func (Obj_timer a 0) (Some Por_event) (s\<lparr>idr_n := Suc (idr_n s)\<rparr>))))
     else if Suc k = unat (po_sample_count (pors s a)) then power_off a (s\<lparr>idr_n := Suc (idr_n s)\<rparr>)
     else (Inr SF_RESCHEDULE, set_wake (Obj_timer a 0) (waketime s (Obj_timer a 0) + po_sample_time (pors s a))
        (set_po a (\<lambda>x. x\<lparr>po_trigger_count := po_trigger_count (pors s a) - 1\<rparr>) (s\<lparr>idr_n := Suc (idr_n s)\<rparr>))))"
proof -
  have c: "unat (po_trigger_count (pors s a)) = unat (po_sample_count (pors s a)) - k" "k < unat (po_sample_count (pors s a))"
    using w by (simp_all add: watching_def)
  then have "po_trigger_count (pors s a) = 1 \<longleftrightarrow> Suc k = unat (po_sample_count (pors s a))"
    by (auto simp: word_unat_eq_iff)
  then show ?thesis
    by (auto simp: por_oversample_event_def run_simps lost_def Let_def power_off_def set_po_def)
qed

text \<open>One event: back to waiting, one more sample, or the end.\<close>

lemma por_oversample_cases:
  assumes w: "watching a k Por_oversample_event s"
  obtains t where "\<not> lost s a (idr_n s)" "por_oversample_event a s = (Inr SF_RESCHEDULE, t)" "watching a 0 Por_event t"
      "same_por a s t" "idr_n t = Suc (idr_n s)"
  | t where "lost s a (idr_n s)" "por_oversample_event a s = (Inr SF_RESCHEDULE, t)" "watching a (Suc k) Por_oversample_event t"
      "same_por a s t" "idr_n t = Suc (idr_n s)" "Suc k < unat (po_sample_count (pors s a))"
  | t where "lost s a (idr_n s)" "por_oversample_event a s = power_off a t" "same_por a s t" "idr_n t = Suc (idr_n s)"
      "Suc k = unat (po_sample_count (pors s a))"
proof -
  have c: "unat (po_trigger_count (pors s a)) = unat (po_sample_count (pors s a)) - k" "k < unat (po_sample_count (pors s a))"
    using w by (simp_all add: watching_def)
  note run = oversample_step [OF w]
  consider "\<not> lost s a (idr_n s)" | "lost s a (idr_n s)" "Suc k = unat (po_sample_count (pors s a))"
    | "lost s a (idr_n s)" "Suc k < unat (po_sample_count (pors s a))" using c by linarith
  then show thesis
  proof cases
    case 1
    show thesis
      by (rule that(1) [OF 1, of "set_po a (\<lambda>e. e\<lparr>po_trigger_count := po_sample_count e\<rparr>) (set_wake (Obj_timer a 0)
           (po_nextwake (pors s a)) (set_func (Obj_timer a 0) (Some Por_event) (s\<lparr>idr_n := Suc (idr_n s)\<rparr>)))"]) (use c 1 w in \<open>auto simp: run watching_def same_por_def set_po_def set_wake_def set_func_def\<close>)
  next
    case 2
    show thesis by (rule that(3) [OF 2(1) _ _ _ 2(2), of "s\<lparr>idr_n := Suc (idr_n s)\<rparr>"]) (use 2 in \<open>simp_all add: run same_por_def\<close>)
  next
    case 3
    have nz: "po_trigger_count (pors s a) \<noteq> 0" using c by auto
    have m: "unat (po_trigger_count (pors s a) - 1) = unat (po_sample_count (pors s a)) - Suc k"
      using c nz by (simp add: unat_minus_one)
    have "\<forall>i. Suc (idr_n s) \<le> i + Suc k \<longrightarrow> i < Suc (idr_n s) \<longrightarrow> lost s a i"
      unfolding recent_Suc using w 3(1) by (simp add: watching_def)
    then show thesis
      by (intro that(2) [OF 3(1) _ _ _ _ 3(2), of "set_wake (Obj_timer a 0) (waketime s (Obj_timer a 0) + po_sample_time (pors s a))
          (set_po a (\<lambda>x. x\<lparr>po_trigger_count := po_trigger_count (pors s a) - 1\<rparr>) (s\<lparr>idr_n := Suc (idr_n s)\<rparr>))"])
        (use 3 m w in \<open>auto simp: run watching_def same_por_def set_po_def set_wake_def lost_def\<close>)
  qed
qed

lemma por_timer_cases:
  assumes w: "watching a k f s"
  obtains t k' f' where "por_timer a s = (Inr SF_RESCHEDULE, t)" "watching a k' f' t" "same_por a s t" "idr_n s < idr_n t"
      "idr_n t \<le> idr_n s + (if f = Por_event then 2 else 1)"
      "(\<forall>i. idr_n s \<le> i \<longrightarrow> i < idr_n t \<longrightarrow> lost s a i) \<longrightarrow> k' = Suc k \<and> f' = Por_oversample_event
         \<and> Suc k < unat (po_sample_count (pors s a))"
  | t where "por_timer a s = power_off a t" "same_por a s t" "unat (po_sample_count (pors s a)) \<le> idr_n t"
      "\<forall>i. idr_n t \<le> i + unat (po_sample_count (pors s a)) \<longrightarrow> i < idr_n t \<longrightarrow> lost s a i"
      "Suc k = unat (po_sample_count (pors s a))"
proof -
  note goon = that(1) and off = that(2)
  have over: thesis if u: "watching a k Por_oversample_event u" "same_por a s u" "idr_n s \<le> idr_n u"
      "idr_n u < idr_n s + (if f = Por_event then 2 else 1)"
    and e: "por_timer a s = por_oversample_event a u" for u
  proof (cases rule: por_oversample_cases [OF u(1)])
    case (1 t)
    have "idr_n u < idr_n t" using 1 by simp
    then show thesis
      using goon [of t 0 Por_event] 1 e u same_por_lost [OF u(2)] same_por_trans [OF u(2) 1(4)] by auto
  next
    case (2 t)
    have "po_sample_count (pors u a) = po_sample_count (pors s a)" using u(2) by (simp add: same_por_def)
    then show thesis
      using goon [of t "Suc k" Por_oversample_event] 2 e u same_por_trans [OF u(2) 2(4)] by auto
  next
    case (3 t)
    have c: "po_sample_count (pors u a) = po_sample_count (pors s a)" using u(2) by (simp add: same_por_def)
    have "\<forall>i. Suc (idr_n u) \<le> i + Suc k \<longrightarrow> i < Suc (idr_n u) \<longrightarrow> lost u a i"
      unfolding recent_Suc using u(1) 3(1) by (simp add: watching_def)
    then have l: "\<forall>i. idr_n t \<le> i + unat (po_sample_count (pors s a)) \<longrightarrow> i < idr_n t \<longrightarrow> lost s a i"
      using 3(4,5) c same_por_lost [OF u(2)] by simp
    have n: "unat (po_sample_count (pors s a)) \<le> idr_n t" using 3(4,5) c u(1) by (simp add: watching_def)
    show thesis
      by (rule off [OF _ same_por_trans [OF u(2) 3(3)] n l]) (use e 3 c in simp_all)
  qed
  show thesis
  proof (cases "f = Por_event")
    case False
    then have fo: "f = Por_oversample_event" using w by (auto simp: watching_def)
    then have "por_timer a s = por_oversample_event a s" using w by (simp add: por_timer_def run_simps watching_def)
    then show thesis using over [of s] w fo same_por_refl [of a s] by simp
  next
    case True
    then have k: "k = 0" and tf: "t_func (timers s (Obj_timer a 0)) = Some Por_event" using w by (auto simp: watching_def)
    let ?n = "waketime s (Obj_timer a 0) + po_rest_time (pors s a)"
    let ?u = "set_func (Obj_timer a 0) (Some Por_oversample_event) (set_po a (\<lambda>e. e\<lparr>po_nextwake := ?n\<rparr>) (s\<lparr>idr_n := Suc (idr_n s)\<rparr>))"
    let ?v = "set_wake (Obj_timer a 0) ?n (s\<lparr>idr_n := Suc (idr_n s)\<rparr>)"
    have e: "por_timer a s = (if lost s a (idr_n s) then por_oversample_event a ?u else (Inr SF_RESCHEDULE, ?v))"
      using tf by (auto simp: por_timer_def por_event_def run_simps lost_def)
    have u: "watching a 0 Por_oversample_event ?u" "same_por a s ?u" "idr_n ?u = Suc (idr_n s)"
      using w k by (simp_all add: watching_def same_por_def set_func_def set_po_def)
    have v: "watching a 0 Por_event ?v" "same_por a s ?v" "idr_n ?v = Suc (idr_n s)"
      using w k True by (simp_all add: watching_def same_por_def set_wake_def)
    show thesis
    proof (cases "lost s a (idr_n s)")
      case True
      then show thesis using over [of ?u] u k e \<open>f = Por_event\<close> by simp
    next
      case False
      then have "\<not> (\<forall>i. idr_n s \<le> i \<longrightarrow> i < idr_n ?v \<longrightarrow> lost s a i)" using v(3) by auto
      then show thesis using that(1) [of ?v 0 Por_event] v e False by simp
    qed
  qed
qed

text \<open>The pins are driven in order; an abort other than the intended one comes from a pin that is not there.\<close>

lemma set_each_pin_idr: "preserves (\<lambda>s. idr_n s = n) (set_each_pin e is)"
proof (induction "is")
  case (Cons i js)
  have "preserves (\<lambda>s. idr_n s = n) (gpio_out_setup p v)" for p v
    by (simp add: preserves_def gpio_defs run_simps shutdown_run)
  then show ?case unfolding set_each_pin.simps by (intro preserves_if preserves_fail preserves_mbind Cons)
qed (simp only: set_each_pin.simps preserves_ret)

lemma power_off_idr:
  fixes s :: "'a pors_scheme"
  shows "idr_n (snd (power_off a s)) = idr_n s"
proof -
  have sh: "preserves (\<lambda>t. idr_n t = idr_n s) (shutdown f m)" for f m
    by (simp add: preserves_def shutdown_run)
  have d: "preserves (\<lambda>t. idr_n t = idr_n s) (deref p)" for p
    by (cases p) (simp_all add: deref_def preserves_def)
  have "preserves (\<lambda>t. idr_n t = idr_n s) (mbind (deref (po_sp (pors s a))) (\<lambda>sp.
     mseq (shutdown_pins_set sp) (shutdown ''por_oversample_event'' ''power_off'')) :: ('a pors_scheme, sf) cmd)"
    unfolding shutdown_pins_set_def
    by (intro preserves_mbind preserves_mseq preserves_gets set_each_pin_idr sh d)
  then show ?thesis unfolding power_off_def by (simp add: preserves_def)
qed

lemma power_off_aborts: obtains e u where "power_off a s = (Inl e, u)"
  by (cases "fst (power_off a s)"; cases "power_off a s")
    (auto simp: power_off_def run_simps shutdown_run split: prod.splits sum.splits)

lemma power_off_run:
  assumes "po_sp (pors s a) = Some e" "sd_ok (shutdown_pinss s e)" "\<forall>(p, v)\<in>set (sd_list (shutdown_pinss s e)). gpio_valid s p"
  shows "power_off a s = (Inl (Shutdown ''power_off''),
    snd (shutdown ''por_oversample_event'' ''power_off'' (drive_pins (sd_list (shutdown_pinss s e)) s) :: (abort + unit) \<times> _))"
proof -
  have "set_each_pin (shutdown_pinss s e) [0..<unat (sd_count (shutdown_pinss s e))] s
      = (Inr (), drive_pins (sd_list (shutdown_pinss s e)) s)"
    unfolding sd_list_def by (rule set_each_pin_run) (use assms(2,3) in \<open>auto simp: sd_ok_def sd_list_def\<close>)
  then show ?thesis
    using assms(1) by (simp add: power_off_def shutdown_pins_set_def deref_def run_simps shutdown_run)
qed

section \<open>Properties\<close>

lemma fold_pins: "p \<in> fst ` set ps \<Longrightarrow> map_of (rev ps) p = Some (fold (\<lambda>(p, v) f. f(p := v)) ps g p)"
proof (induction ps rule: rev_induct)
  case (snoc x xs)
  then show ?case by (cases x) (auto split: if_splits)
qed simp

lemma fold_modes: "p \<in> fst ` set ps \<Longrightarrow> fold (\<lambda>(p, v) f. f(p := m)) ps g p = m"
proof (induction ps rule: rev_induct)
  case (snoc x xs)
  then show ?case by (cases x) (auto split: if_splits)
qed simp

text \<open>Samples that all show a loss lead to the end after as many events as samples are asked for.\<close>

lemma losses_end:
  assumes "watching a k f s" "\<forall>i. idr_n s \<le> i \<longrightarrow> i < idr_n s + (n + (if f = Por_event then 1 else 0)) \<longrightarrow> lost s a i"
    "n = unat (po_sample_count (pors s a)) - k"
  shows "\<exists>t e u. run_events (por_timer a) n s = (Inl e, u) \<and> power_off a t = (Inl e, u) \<and> same_por a s t"
  using assms
proof (induction n arbitrary: k f s)
  case 0
  then show ?case by (simp add: watching_def)
next
  case (Suc n)
  show ?case
  proof (cases rule: por_timer_cases [OF Suc.prems(1)])
    case (1 t k' f')
    have "\<forall>i. idr_n s \<le> i \<longrightarrow> i < idr_n t \<longrightarrow> lost s a i" using Suc.prems(2) 1(5) by (auto split: if_splits)
    then have k: "k' = Suc k" "f' = Por_oversample_event" using 1(6) by auto
    have c: "po_sample_count (pors t a) = po_sample_count (pors s a)" using 1(3) by (simp add: same_por_def)
    have "\<forall>i. idr_n t \<le> i \<longrightarrow> i < idr_n t + (n + (if f' = Por_event then 1 else 0)) \<longrightarrow> lost t a i"
      using Suc.prems(2) 1(4,5) k same_por_lost [OF 1(3)] by (auto split: if_splits)
    moreover have "n = unat (po_sample_count (pors t a)) - k'" using Suc.prems(3) k c by simp
    ultimately obtain u e v where "run_events (por_timer a) n t = (Inl e, v)" "power_off a u = (Inl e, v)" "same_por a t u"
      using Suc.IH [OF 1(2)] by blast
    then show ?thesis using 1(1) same_por_trans [OF 1(3)] by (auto simp: run_simps)
  next
    case (2 t)
    then have "n = 0" using Suc.prems(3) by simp
    moreover obtain e u where "power_off a t = (Inl e, u)" by (rule power_off_aborts)
    ultimately show ?thesis using 2(1,2) by (auto simp: run_simps)
  qed
qed

text \<open>And the end comes only after such samples.\<close>

lemma end_confirmed:
  assumes "watching a k f s" "run_events (por_timer a) n s = (Inl e, u)"
  shows "let c = unat (po_sample_count (pors s a)) in
    c \<le> idr_n u \<and> (\<forall>i\<in>{idr_n u - c..<idr_n u}. lost s a i)"
  using assms
proof (induction n arbitrary: k f s)
  case (Suc n)
  show ?case
  proof (cases rule: por_timer_cases [OF Suc.prems(1)])
    case (1 t k' f')
    have c: "po_sample_count (pors t a) = po_sample_count (pors s a)" using 1(3) by (simp add: same_por_def)
    have "run_events (por_timer a) n t = (Inl e, u)" using Suc.prems(2) 1(1) by (simp add: run_simps)
    from Suc.IH [OF 1(2) this] show ?thesis unfolding c using same_por_lost [OF 1(3)] by simp
  next
    case (2 t)
    obtain e' v where p: "power_off a t = (Inl e', v)" by (rule power_off_aborts)
    then have "idr_n u = idr_n t" using Suc.prems(2) 2(1) power_off_idr [of a t] by (simp add: run_simps)
    then show ?thesis using 2(3,4) by (auto simp: Let_def)
  qed
qed simp

text \<open>The commands build such lists: a pin is added at the end, and the 65th is refused.\<close>

lemma shutdown_pins_add_run:
  assumes "mbind (oid_lookup ''command_shutdown_pins_add'' (ucast (args ! 0)) Oid_shutdown_pins) deref s = (Inr e, s)"
    "sd_ok (shutdown_pinss s e)" "unat (sd_count (shutdown_pinss s e)) < SHUTDOWN_PIN_SIZE"
  obtains t where "command_shutdown_pins_add args s = (Inr (), t)" "sd_ok (shutdown_pinss t e)"
    "sd_list (shutdown_pinss t e) = sd_list (shutdown_pinss s e) @ [(ucast (ucast (args ! 1) :: u8), (ucast (args ! 2) :: u8) \<noteq> 0)]"
proof -
  let ?e = "shutdown_pinss s e" and ?n = "unat (sd_count (shutdown_pinss s e))"
  let ?f = "?e\<lparr>sd_pin := (sd_pin ?e)[?n := ucast (args ! 1)], sd_value := (sd_value ?e)[?n := ucast (args ! 2)], sd_count := sd_count ?e + 1\<rparr>"
  let ?t = "s\<lparr>shutdown_pinss := (shutdown_pinss s)(e := ?f)\<rparr>"
  have l: "?n < length (sd_pin ?e)" "?n < length (sd_value ?e)" using assms(2,3) by (simp_all add: sd_ok_def)
  have "command_shutdown_pins_add args s = (Inr (), ?t)"
    using assms(1,3) l by (simp add: command_shutdown_pins_add_def run_simps set_sd_def)
  moreover have c: "unat (sd_count ?e + 1) = Suc ?n"
    using assms(3) by (simp add: unat_word_ariths SHUTDOWN_PIN_SIZE_def)
  have "sd_ok ?f" using assms(2,3) c by (simp add: sd_ok_def)
  moreover have "sd_list ?f = sd_list ?e @ [(ucast (ucast (args ! 1) :: u8), (ucast (args ! 2) :: u8) \<noteq> 0)]"
    using l by (simp add: sd_list_def c)
  ultimately show thesis using that by simp
qed

lemma shutdown_pins_add_full:
  assumes "mbind (oid_lookup ''command_shutdown_pins_add'' (ucast (args ! 0)) Oid_shutdown_pins) deref s = (Inr e, s)"
    "unat (sd_count (shutdown_pinss s e)) = SHUTDOWN_PIN_SIZE"
  shows "fst (command_shutdown_pins_add args s) = Inl (Shutdown ''shutdown_pin_count limits'')"
  using assms by (simp add: command_shutdown_pins_add_def run_simps shutdown_run)

text \<open>
  A pin of the list is not checked when it is added: one that the board does not have ends the setting of
  the pins, and those behind it keep their level.
\<close>

lemma bad_pin_ends_setting:
  assumes "\<forall>i\<in>set is. i < length (sd_pin e) \<and> i < length (sd_value e) \<and> gpio_valid s (ucast (sd_pin e ! i))"
    "j < length (sd_pin e)" "j < length (sd_value e)" "\<not> gpio_valid s (ucast (sd_pin e ! j))"
  shows "set_each_pin e (is @ j # js) s = (Inl (Shutdown ''Not an output pin''), snd (shutdown ''gpio_out_setup'' ''Not an output pin''
    (drive_pins (map (\<lambda>i. (ucast (sd_pin e ! i), sd_value e ! i \<noteq> 0)) is) s) :: (abort + unit) \<times> _))"
proof -
  have app: "set_each_pin e (is @ ks) s = mseq (set_each_pin e is) (set_each_pin e ks) s" for ks and s :: "'a pors_scheme"
    by (induction "is" arbitrary: s) (auto simp: run_simps split: prod.splits sum.splits)
  let ?t = "drive_pins (map (\<lambda>i. (ucast (sd_pin e ! i), sd_value e ! i \<noteq> 0)) is) s"
  have "\<not> gpio_valid ?t (ucast (sd_pin e ! j))" using assms(4) by (simp add: gpio_valid_def drive_pins_def)
  then show ?thesis using set_each_pin_run [OF assms(1)] assms(2,3)
    by (simp add: app run_simps gpio_out_setup_def shutdown_run)
qed

text \<open>The configuration command starts the detector.\<close>

lemma por_start_run:
  assumes "por_start p w s = (Inr (), t)"
  shows "pors t = pors s" "t_func (timers t p) = Some Por_event"
proof -
  obtain u where u: "sched_del_timer p s = (Inr (), u)"
    using assms unfolding por_start_def by (elim mseq_cases) auto
  let ?v = "set_wake p (clk u (clk_n u) + w) ((set_func p (Some Por_event) u)\<lparr>clk_n := Suc (clk_n u)\<rparr>)"
  have t: "sched_add_timer ''command_config_por'' p ?v = (Inr (), t)"
    using assms u by (simp add: por_start_def run_simps set_func_def)
  have more: "sched.more s = sched.more t \<Longrightarrow> pors s = pors t" for s t :: "'a pors_scheme"
    by (cases s, cases t) simp
  have "client_view t = client_view ?v" using client_view_add [of "''command_config_por''" p ?v] t by simp
  moreover have "client_view u = client_view s" using client_view_del [of p s] u by simp
  ultimately have "sched.more t = sched.more s" "t_func (timers t p) = t_func (timers ?v p)"
    by (auto simp: client_view_def set_wake_def set_func_def dest: fun_cong [of _ _ p])
  then show "pors t = pors s" "t_func (timers t p) = Some Por_event"
    using more [of t s] by (auto simp: set_wake_def set_func_def)
qed

lemma config_por_watches:
  assumes run: "command_config_por args s = (Inr (), t)" and n: "(ucast (args ! 6) :: u8) \<noteq> 0"
  shows "\<exists>a. watching a 0 Por_event t \<and> po_pin (pors t a) = args ! 2
    \<and> po_flags (pors t a) = (if args ! 4 \<noteq> 0 then ESF_PIN_HIGH else 0) \<and> po_sample_count (pors t a) = ucast (args ! 6)"
proof -
  obtain a u where u: "por_start (Obj_timer a 0) (args ! 7) u = (Inr (), t)"
    "po_pin (pors u a) = args ! 2" "po_flags (pors u a) = (if args ! 4 \<noteq> 0 then ESF_PIN_HIGH else 0)"
    "po_sample_count (pors u a) = ucast (args ! 6)" "po_trigger_count (pors u a) = ucast (args ! 6)"
    using run unfolding command_config_por_def
    by (elim mbind_cases mseq_cases) (auto simp: set_po_def gpio_in_setup_def gpio_in_reset_def run_simps shutdown_run split: if_splits)
  then show ?thesis
    using por_start_run [OF u(1)] n by (intro exI [of _ a]) (simp add: watching_def unat_gt_0)
qed


text \<open>
  C29: no false alarm.  Whatever the readings, the timer of the detector ends in a shutdown only when as many
  consecutive readings as configured, the latest ones, showed the loss.
\<close>

theorem power_off_confirmed:
  assumes "watching a 0 Por_event s" "run_events (por_timer a) n s = (Inl e, t)" "c = unat (po_sample_count (pors s a))"
  shows "c \<le> idr_n t \<and> (\<forall>i\<in>{idr_n t - c..<idr_n t}. lost s a i)"
  using end_confirmed [OF assms(1,2)] unfolding assms(3) [symmetric] by (simp add: Let_def)

text \<open>A detector at 9000 that asks for three samples of a low level at pin 7, and sets pins 3 and 20.\<close>

definition pors_static :: pors where
  "pors_static = spis.extend spis_static \<lparr>shutdown_pinss = (\<lambda>_. zero_shutdown_pins), pors = (\<lambda>_. zero_por)\<rparr>"

lemmas pors_static_simps = spis_static_simps pors_static_def spis.extend_def

definition example_por :: pors where
  "example_por = pors_static\<lparr>pors := (\<lambda>_. zero_por\<lparr>po_pin := 7, po_sample_count := 3, po_trigger_count := 3, po_sp := Some 9100\<rparr>),
     shutdown_pinss := (\<lambda>_. zero_shutdown_pins\<lparr>sd_pin := [3, 20] @ replicate 62 0, sd_value := [1, 0] @ replicate 62 0, sd_count := 2\<rparr>),
     timers := (timers pors_static)(Obj_timer 9000 0 := \<lparr>t_next = None, t_func = Some Por_event, t_wake = 5000\<rparr>)\<rparr>"

lemma example_por_fields:
  "watching 9000 0 Por_event example_por" "lost example_por 9000 i" "po_sample_count (pors example_por 9000) = 3"
  "po_sp (pors example_por 9000) = Some 9100" "sd_ok (shutdown_pinss example_por 9100)"
  "sd_list (shutdown_pinss example_por 9100) = [(3, True), (20, False)]" "gpio_valid example_por p" "gpio_log example_por = []"
  by (simp_all add: watching_def lost_def endstop_no_match_def sd_ok_def sd_list_def SHUTDOWN_PIN_SIZE_def gpio_valid_def
      example_por_def zero_por_def zero_shutdown_pins_def pors_static_simps upt_rec)


theorem power_off_confirmed_witness:
  "\<exists>t. run_events (por_timer 9000) 3 example_por = (Inl (Shutdown ''power_off''), t) \<and> 3 \<le> idr_n t
    \<and> (\<forall>i\<in>{idr_n t - 3..<idr_n t}. lost example_por 9000 i)"
proof -
  have n: "3 = unat (po_sample_count (pors example_por 9000))" by (simp add: example_por_fields)
  have l: "\<forall>i. idr_n example_por \<le> i \<longrightarrow> i < idr_n example_por + (3 + (if Por_event = Por_event then 1 else 0)) \<longrightarrow> lost example_por 9000 i"
    by (simp add: example_por_fields)
  have v: "\<forall>(p, v)\<in>set (sd_list (shutdown_pinss example_por 9100)). gpio_valid example_por p" by (simp add: example_por_fields)
  obtain t e u where t: "run_events (por_timer 9000) 3 example_por = (Inl e, u)" "power_off 9000 t = (Inl e, u)" "same_por 9000 example_por t"
    using losses_end [OF example_por_fields(1) l] n by auto
  then have "e = Shutdown ''power_off''"
    using power_off_run [of t 9000 9100] v by (auto simp: same_por_def example_por_fields gpio_valid_def)
  with power_off_confirmed [OF example_por_fields(1) t(1) n] t(1) show ?thesis by blast
qed

end
