(* ===== verification/Sensor_Bulk.thy ===== *)
theory Sensor_Bulk
  imports Por
begin

text \<open>
  What the sensors that report in bulk share: the buffer of \<open>src/src/sensor_bulk.c\<close>, the function
  \<open>add_sample\<close> that two drivers have a copy of, and the delay between the edges of a clock made in software.
  A \<open>struct sensor_bulk\<close> is part of the object of a sensor; the functions on it return its new value.
\<close>

section \<open>The buffer\<close>

record sensor_bulk =
  sb_sequence :: u16
  sb_possible_overflows :: u16
  sb_data_count :: u8
  sb_data :: "u8 list"

definition SENSOR_BULK_SIZE :: nat where "SENSOR_BULK_SIZE = 51"
definition BYTES_PER_SAMPLE :: nat where "BYTES_PER_SAMPLE = 4"

lemmas bulk_consts = SENSOR_BULK_SIZE_def BYTES_PER_SAMPLE_def

definition zero_bulk :: sensor_bulk where
  "zero_bulk = \<lparr>sb_sequence = 0, sb_possible_overflows = 0, sb_data_count = 0, sb_data = replicate SENSOR_BULK_SIZE 0\<rparr>"

definition sensor_bulk_reset :: "sensor_bulk \<Rightarrow> sensor_bulk" where
  "sensor_bulk_reset sb = sb\<lparr>sb_sequence := 0, sb_possible_overflows := 0, sb_data_count := 0\<rparr>"

text \<open>The message carries the first \<open>data_count\<close> bytes; more than there are is a \<open>Fault\<close>.\<close>

definition sensor_bulk_report :: "sensor_bulk \<Rightarrow> u8 \<Rightarrow> ('s hw_scheme, sensor_bulk) cmd" where
  "sensor_bulk_report sb oid =
     (if length (sb_data sb) < unat (sb_data_count sb) then fail (Fault ''read past the data'')
      else mseq (sendf ''sensor_bulk_data oid=%c sequence=%hu data=%*s''
             [U (ucast oid), U (ucast (sb_sequence sb)), Buf (take (unat (sb_data_count sb)) (sb_data sb))])
           (ret (sb\<lparr>sb_data_count := 0, sb_sequence := sb_sequence sb + 1\<rparr>)))"

definition sensor_bulk_status :: "sensor_bulk \<Rightarrow> u8 \<Rightarrow> u32 \<Rightarrow> u32 \<Rightarrow> u32 \<Rightarrow> ('s hw_scheme, unit) cmd" where
  "sensor_bulk_status sb oid time1 query_ticks fifo_bytes =
     sendf ''sensor_bulk_status oid=%c clock=%u query_ticks=%u next_sequence=%hu buffered=%u possible_overflows=%hu''
       [U (ucast oid), U time1, U query_ticks, U (ucast (sb_sequence sb)), U (ucast (sb_data_count sb) + fifo_bytes),
        U (ucast (sb_possible_overflows sb))]"

text \<open>The four bytes of a sample, the lowest first.\<close>

definition sample_bytes :: "u32 \<Rightarrow> u8 list" where
  "sample_bytes counts = [ucast counts, ucast (drop_bit 8 counts), ucast (drop_bit 16 counts), ucast (drop_bit 24 counts)]"

text \<open>
  Storing a sample of \<open>n\<close> bytes, as every driver does it: the bytes go behind those in the buffer, and the buffer
  is reported when there is no room for another sample.
\<close>

definition bulk_put :: "nat \<Rightarrow> sensor_bulk \<Rightarrow> u8 \<Rightarrow> u8 list \<Rightarrow> bool \<Rightarrow> ('s hw_scheme, sensor_bulk) cmd" where
  "bulk_put n sb oid bytes force_flush =
     (case write_bytes (sb_data sb) (unat (sb_data_count sb)) bytes of
        None \<Rightarrow> fail (Fault ''write past the data'')
      | Some data \<Rightarrow>
          let sb' = sb\<lparr>sb_data := data, sb_data_count := sb_data_count sb + of_nat n\<rparr> in
          if unat (sb_data_count sb') + n > SENSOR_BULK_SIZE \<or> force_flush
          then sensor_bulk_report sb' oid else ret sb')"

text \<open>The body of \<open>add_sample\<close>.\<close>

definition bulk_add_sample :: "sensor_bulk \<Rightarrow> u8 \<Rightarrow> u32 \<Rightarrow> bool \<Rightarrow> ('s hw_scheme, sensor_bulk) cmd" where
  "bulk_add_sample sb oid counts force_flush = bulk_put BYTES_PER_SAMPLE sb oid (sample_bytes counts) force_flush"

section \<open>Delays\<close>

definition nsecs_to_ticks :: "'s hw_scheme \<Rightarrow> u32 \<Rightarrow> u32" where
  "nsecs_to_ticks s ns = timer_from_us s (ns * 1000) div 1000000"

text \<open>The loop that waits until the clock is not before the time \<open>t\<close>.\<close>

definition wait_until :: "u32 \<Rightarrow> ('s hw_scheme, unit) cmd" where
  "wait_until t = cloop (\<lambda>_. mbind timer_read_time (\<lambda>now. ret (if timer_is_before now t then Inl () else Inr ()))) ()"

definition pulse_delay :: "u32 \<Rightarrow> ('s hw_scheme, unit) cmd" where
  "pulse_delay ns = mbind timer_read_time (\<lambda>now.
     mbind (gets (\<lambda>s. now + nsecs_to_ticks s ns)) wait_until)"

text \<open>A clock that goes on passes the end of every delay.\<close>

definition clock_passes :: "u32 \<Rightarrow> 's hw_scheme \<Rightarrow> bool" where
  "clock_passes ns s \<longleftrightarrow> (\<forall>n. \<exists>m>n. \<not> timer_is_before (clk s m) (clk s n + nsecs_to_ticks s ns))"

lemma wait_until_run:
  assumes "\<not> timer_is_before (clk s m) t" "clk_n s \<le> m"
  shows "\<exists>k\<ge>clk_n s. wait_until t s = (Inr (), s\<lparr>clk_n := Suc k\<rparr>) \<and> \<not> timer_is_before (clk s k) t"
  using assms
proof (induction "m - clk_n s" arbitrary: s)
  case 0
  then have "m = clk_n s" by simp
  then show ?case using 0 by (intro exI [of _ m]) (simp add: wait_until_def cloop_return run_simps)
next
  case (Suc d)
  let ?s = "s\<lparr>clk_n := Suc (clk_n s)\<rparr>"
  show ?case
  proof (cases "timer_is_before (clk s (clk_n s)) t")
    case False
    then show ?thesis by (intro exI [of _ "clk_n s"]) (simp add: wait_until_def cloop_return run_simps)
  next
    case True
    obtain k where k: "k \<ge> clk_n ?s" "wait_until t ?s = (Inr (), ?s\<lparr>clk_n := Suc k\<rparr>)" "\<not> timer_is_before (clk ?s k) t"
      using Suc.hyps(1) [of ?s] Suc.hyps(2) Suc.prems by fastforce
    have "wait_until t s = wait_until t ?s"
      using k(2) True unfolding wait_until_def by (intro cloop_step) (simp_all add: run_simps)
    then show ?thesis using k by (intro exI [of _ k]) auto
  qed
qed

lemma pulse_delay_run:
  assumes "clock_passes ns s"
  obtains k where "pulse_delay ns s = (Inr (), s\<lparr>clk_n := k\<rparr>)" "clk_n s < k"
    "\<not> timer_is_before (clk s (k - 1)) (clk s (clk_n s) + nsecs_to_ticks s ns)"
proof -
  let ?s = "s\<lparr>clk_n := Suc (clk_n s)\<rparr>" and ?t = "clk s (clk_n s) + nsecs_to_ticks s ns"
  obtain m where m: "m > clk_n s" "\<not> timer_is_before (clk s m) ?t" using assms by (auto simp: clock_passes_def)
  then obtain k where k: "k \<ge> clk_n ?s" "wait_until ?t ?s = (Inr (), ?s\<lparr>clk_n := Suc k\<rparr>)" "\<not> timer_is_before (clk s k) ?t"
    using wait_until_run [of ?s m ?t] by auto
  have n: "nsecs_to_ticks ?s ns = nsecs_to_ticks s ns" by (simp add: nsecs_to_ticks_def timer_from_us_def)
  have "pulse_delay ns s = (Inr (), s\<lparr>clk_n := Suc k\<rparr>)"
    using k(2) by (simp add: pulse_delay_def run_simps n)
  then show thesis by (rule that) (use k in auto)
qed

section \<open>Reading bits\<close>

text \<open>
  A bit: a pulse of the clock with interrupts disabled, then the level of the data pin.  Between two bits
  interrupts are enabled; what the handlers do there is the argument \<open>window\<close>.
\<close>

definition read_bit ::
  "('s hw_scheme, unit) cmd \<Rightarrow> ('s hw_scheme, unit) cmd \<Rightarrow> ('s hw_scheme, unit) cmd \<Rightarrow> u32 \<Rightarrow> u32 \<Rightarrow> ('s hw_scheme, bool) cmd" where
  "read_bit delay_noirq window delay dout sclk =
     mseq (gpio_out_toggle_noirq sclk) (
     mseq delay_noirq (
     mseq (gpio_out_toggle_noirq sclk) (
     mbind (gpio_in_read dout) (\<lambda>b.
     mseq window (mseq delay (ret b))))))"

fun raw_read ::
  "('s hw_scheme, unit) cmd \<Rightarrow> ('s hw_scheme, unit) cmd \<Rightarrow> ('s hw_scheme, unit) cmd \<Rightarrow> u32 \<Rightarrow> u32 \<Rightarrow> nat \<Rightarrow> u32 \<Rightarrow> ('s hw_scheme, u32) cmd" where
  "raw_read delay_noirq window delay dout sclk 0 bits_read = ret bits_read"
| "raw_read delay_noirq window delay dout sclk (Suc n) bits_read = mbind (read_bit delay_noirq window delay dout sclk)
     (\<lambda>b. raw_read delay_noirq window delay dout sclk n (push_bit 1 bits_read OR of_bool b))"

text \<open>
  What a driver can rely on while others run: the inputs are a stream, the clock goes on, and \<open>obs\<close>, the part of
  the state that the driver cares about, stays.
\<close>

definition rely :: "('s hw_scheme \<Rightarrow> 'o) \<Rightarrow> 's hw_scheme \<Rightarrow> 's hw_scheme \<Rightarrow> bool" where
  "rely obs s t \<longleftrightarrow> gpio_idr t = gpio_idr s \<and> idr_n s \<le> idr_n t \<and> clk t = clk s \<and> clock_mhz t = clock_mhz s \<and> obs t = obs s"

definition window_ok :: "u32 \<Rightarrow> ('s hw_scheme \<Rightarrow> 'o) \<Rightarrow> ('s hw_scheme, unit) cmd \<Rightarrow> bool" where
  "window_ok ns obs m \<longleftrightarrow> (\<forall>s. clock_passes ns s \<longrightarrow> (\<exists>t. m s = (Inr (), t) \<and> rely obs s t))"

definition pin_blind :: "('s hw_scheme \<Rightarrow> 'o) \<Rightarrow> bool" where
  "pin_blind obs \<longleftrightarrow> (\<forall>s v. obs (s\<lparr>clk_n := v\<rparr>) = obs s) \<and> (\<forall>s v. obs (s\<lparr>idr_n := v\<rparr>) = obs s)
     \<and> (\<forall>s v. obs (s\<lparr>gpio_odr := v\<rparr>) = obs s) \<and> (\<forall>s v. obs (s\<lparr>gpio_log := v\<rparr>) = obs s)"

lemma rely_refl: "rely obs s s"
  by (simp add: rely_def)

lemma rely_trans: "rely obs s t \<Longrightarrow> rely obs t u \<Longrightarrow> rely obs s u"
  by (auto simp: rely_def)

lemma rely_clock: "rely obs s t \<Longrightarrow> clock_passes ns t = clock_passes ns s"
  by (simp add: rely_def clock_passes_def nsecs_to_ticks_def timer_from_us_def)

lemma window_run:
  assumes "window_ok ns obs m" "clock_passes ns s"
  obtains t where "m s = (Inr (), t)" "rely obs s t" "clock_passes ns t"
  using assms rely_clock unfolding window_ok_def by blast

lemma window_skip: "window_ok ns obs (ret ())"
  by (simp add: window_ok_def rely_refl)

lemma window_toggle: "pin_blind obs \<Longrightarrow> window_ok ns obs (gpio_out_toggle_noirq g)"
  by (simp add: window_ok_def gpio_out_toggle_noirq_def rely_def pin_blind_def)

lemma window_delay:
  assumes "pin_blind obs"
  shows "window_ok ns obs (pulse_delay ns)"
  unfolding window_ok_def
proof (intro allI impI)
  fix s :: "'a hw_scheme" assume "clock_passes ns s"
  then obtain k where "pulse_delay ns s = (Inr (), s\<lparr>clk_n := k\<rparr>)" by (rule pulse_delay_run)
  then show "\<exists>t. pulse_delay ns s = (Inr (), t) \<and> rely obs s t" using assms by (simp add: rely_def pin_blind_def)
qed

lemma window_seq: "window_ok ns obs m \<Longrightarrow> window_ok ns obs n \<Longrightarrow> window_ok ns obs (mseq m n)"
  unfolding window_ok_def by (metis mseq_Inr rely_clock rely_trans)

lemma read_bit_run:
  assumes d: "window_ok ns obs d1" "window_ok ns obs w" "window_ok ns obs d2" "pin_blind obs" and c: "clock_passes ns s"
  obtains i t where "read_bit d1 w d2 dout sclk s = (Inr (gpio_idr s i dout), t)" "rely obs s t" "idr_n s \<le> i" "i < idr_n t"
proof -
  note tg = window_toggle [OF d(4)]
  obtain s1 where s1: "gpio_out_toggle_noirq sclk s = (Inr (), s1)" "rely obs s s1" "clock_passes ns s1" by (rule window_run [OF tg c])
  obtain s2 where s2: "d1 s1 = (Inr (), s2)" "rely obs s1 s2" "clock_passes ns s2" by (rule window_run [OF d(1) s1(3)])
  obtain s3 where s3: "gpio_out_toggle_noirq sclk s2 = (Inr (), s3)" "rely obs s2 s3" "clock_passes ns s3" by (rule window_run [OF tg s2(3)])
  have r3: "rely obs s s3" using s1(2) s2(2) s3(2) by (blast intro: rely_trans)
  let ?s4 = "s3\<lparr>idr_n := Suc (idr_n s3)\<rparr>"
  have r4: "rely obs s3 ?s4" using d(4) by (simp add: rely_def pin_blind_def)
  have c4: "clock_passes ns ?s4" using s3(3) rely_clock [OF r4] by simp
  obtain s5 where s5: "w ?s4 = (Inr (), s5)" "rely obs ?s4 s5" "clock_passes ns s5" by (rule window_run [OF d(2) c4])
  obtain s6 where s6: "d2 s5 = (Inr (), s6)" "rely obs s5 s6" "clock_passes ns s6" by (rule window_run [OF d(3) s5(3)])
  have "read_bit d1 w d2 dout sclk s = (Inr (gpio_idr s3 (idr_n s3) dout), s6)"
    by (simp add: read_bit_def run_simps s1(1) s2(1) s3(1) s5(1) s6(1))
  then show thesis
    using r3 r4 s5(2) s6(2) by (intro that [of "idr_n s3" s6]) (auto simp: rely_def)
qed

text \<open>Shifting bits into a word, the highest first.\<close>

definition shift_bits :: "u32 \<Rightarrow> bool list \<Rightarrow> u32" where
  "shift_bits w bs = foldl (\<lambda>w b. push_bit 1 w OR of_bool b) w bs"

lemma raw_read_run:
  assumes "window_ok ns obs d1" "window_ok ns obs w" "window_ok ns obs d2" "pin_blind obs" "clock_passes ns s"
  shows "\<exists>is t. raw_read d1 w d2 dout sclk n acc s = (Inr (shift_bits acc (map (\<lambda>i. gpio_idr s i dout) is)), t)
    \<and> rely obs s t \<and> length is = n \<and> sorted_wrt (<) is \<and> (\<forall>i\<in>set is. idr_n s \<le> i \<and> i < idr_n t)"
  using assms(5)
proof (induction n arbitrary: acc s)
  case 0
  then show ?case by (intro exI [of _ "[]"] exI [of _ s]) (simp add: shift_bits_def rely_refl)
next
  case (Suc n)
  obtain i t where t: "read_bit d1 w d2 dout sclk s = (Inr (gpio_idr s i dout), t)" "rely obs s t" "idr_n s \<le> i" "i < idr_n t"
    by (rule read_bit_run [OF assms(1-4) Suc.prems])
  have c: "clock_passes ns t" using Suc.prems rely_clock [OF t(2)] by simp
  obtain js u where u: "raw_read d1 w d2 dout sclk n (push_bit 1 acc OR of_bool (gpio_idr s i dout)) t
      = (Inr (shift_bits (push_bit 1 acc OR of_bool (gpio_idr s i dout)) (map (\<lambda>i. gpio_idr t i dout) js)), u)"
      "rely obs t u" "length js = n" "sorted_wrt (<) js" "\<forall>i\<in>set js. idr_n t \<le> i \<and> i < idr_n u"
    using Suc.IH [OF c] by blast
  have g: "gpio_idr t = gpio_idr s" "idr_n s \<le> idr_n t" "idr_n t \<le> idr_n u" using t(2) u(2) by (auto simp: rely_def)
  show ?case
    by (intro exI [of _ "i # js"] exI [of _ u] conjI)
      (use t u g rely_trans [OF t(2) u(2)] in \<open>auto simp: run_simps shift_bits_def\<close>)
qed

section \<open>Numbers from bits\<close>

definition msb_value :: "bool list \<Rightarrow> nat" where
  "msb_value bs = foldl (\<lambda>v b. 2 * v + of_bool b) 0 bs"

lemma msb_value_simps [simp]: "msb_value [] = 0" "msb_value (bs @ [b]) = 2 * msb_value bs + of_bool b"
  by (simp_all add: msb_value_def)

lemma msb_value_append: "msb_value (xs @ ys) = msb_value xs * 2 ^ length ys + msb_value ys"
  by (induction ys rule: rev_induct) (simp_all add: append_assoc [symmetric] algebra_simps del: append_assoc)

lemma msb_value_Cons: "msb_value (x # ys) = of_bool x * 2 ^ length ys + msb_value ys"
  using msb_value_append [of "[x]" ys] msb_value_simps(2) [of "[]" x] by simp

lemma msb_value_less: "msb_value bs < 2 ^ length bs"
  by (induction bs rule: rev_induct) auto

lemma msb_value_ones: "msb_value bs = 2 ^ length bs - 1 \<longleftrightarrow> (\<forall>b\<in>set bs. b)"
proof (induction bs rule: rev_induct)
  case (snoc b bs)
  have "msb_value bs < 2 ^ length bs" by (rule msb_value_less)
  moreover have "(2 * v + of_bool b = 2 * p - 1) = (b \<and> v = p - 1)" if "v < p" for v p :: nat
    using that by (cases b; simp; arith)
  ultimately have "(2 * msb_value bs + of_bool b = 2 * 2 ^ length bs - 1) = (b \<and> msb_value bs = 2 ^ length bs - 1)" by blast
  then show ?case using snoc by auto
qed simp

lemma shift_in_bit: "push_bit 1 w OR of_bool b = 2 * w + (of_bool b :: u32)"
proof -
  have "push_bit 1 w + of_bool b = push_bit 1 w OR (of_bool b :: u32)"
    by (rule disjunctive_add) (auto simp: bit_push_bit_iff bit_of_bool_iff simp del: push_bit_of_1 push_bit_Suc One_nat_def)
  then show ?thesis by (simp add: push_bit_eq_mult mult.commute)
qed

lemma shift_bits_value: "shift_bits 0 bs = of_nat (msb_value bs)"
  by (induction bs rule: rev_induct) (simp_all add: shift_bits_def shift_in_bit [simplified])

text \<open>A reading of 24 bits followed by \<open>g\<close> extra ones.\<close>

lemma split_reading:
  assumes "length xs = 24" "length ys = g" "g \<le> 8"
  defines "adc \<equiv> of_nat (msb_value (xs @ ys)) :: u32"
  shows "drop_bit g adc = of_nat (msb_value xs)" "adc AND (push_bit g 1 - 1) = push_bit g 1 - 1 \<longleftrightarrow> (\<forall>b\<in>set ys. b)"
proof -
  let ?x = "msb_value xs" and ?y = "msb_value ys"
  have y: "?y < 2 ^ g" using msb_value_less [of ys] assms(2) by simp
  have x: "?x < 2 ^ 24" using msb_value_less [of xs] assms(1) by simp
  have "?x * 2 ^ g + ?y < Suc ?x * 2 ^ g" using y by simp
  also have "\<dots> \<le> 2 ^ 24 * 2 ^ g" using x by (intro mult_le_mono1) simp
  also have "\<dots> \<le> 2 ^ 32" using assms(3) power_increasing [of "24 + g" 32 "2 :: nat"] by (simp add: power_add)
  finally have lim: "?x * 2 ^ g + ?y < 2 ^ 32" .
  then have u: "unat adc = ?x * 2 ^ g + ?y"
    unfolding adc_def msb_value_append assms(2) by (simp add: unat_of_nat take_bit_nat_eq_self del: of_nat_add of_nat_mult)
  have "unat (drop_bit g adc) = ?x" using y lim unfolding unsigned_drop_bit_eq u by (simp add: drop_bit_eq_div take_bit_nat_eq_self)
  then show "drop_bit g adc = of_nat ?x" unfolding word_unat_eq_iff using x by (simp add: unat_of_nat take_bit_nat_eq_self)
  have m: "push_bit g 1 - 1 = (mask g :: u32)" by (simp add: mask_eq_exp_minus_1 push_bit_eq_mult)
  have "unat (adc AND mask g) = ?y" using y unfolding take_bit_eq_mask [symmetric] unsigned_take_bit_eq u by (simp add: take_bit_eq_mod)
  moreover have "unat (mask g :: u32) = 2 ^ g - 1"
  proof -
    have "(2 :: nat) ^ g \<le> 2 ^ 8" using assms(3) by (rule power_increasing) simp
    then have "unat (of_nat (2 ^ g - 1) :: u32) = 2 ^ g - 1" by (simp add: unat_of_nat take_bit_nat_eq_self del: of_nat_diff)
    then show ?thesis by (simp add: mask_eq_exp_minus_1 of_nat_diff)
  qed
  ultimately show "adc AND (push_bit g 1 - 1) = push_bit g 1 - 1 \<longleftrightarrow> (\<forall>b\<in>set ys. b)"
    unfolding m by (metis assms(2) msb_value_ones word_unat_eq_iff)
qed

text \<open>The sign extension of 24 bits.\<close>

definition extend24 :: "u32 \<Rightarrow> u32" where
  "extend24 w = (if w AND 0x800000 \<noteq> 0 then w OR 0xFF000000 else w)"

lemma extend24_value:
  assumes "v < 2 ^ 24"
  shows "sint (extend24 (of_nat v)) = int v - (if 2 ^ 23 \<le> v then 2 ^ 24 else 0)"
proof -
  let ?w = "of_nat v :: u32"
  have "bit ?w 23 \<longleftrightarrow> bit v 23" by (simp add: bit_simps)
  also have "\<dots> \<longleftrightarrow> odd (v div 2 ^ 23)" by (rule bit_iff_odd)
  also have "\<dots> \<longleftrightarrow> 2 ^ 23 \<le> v" using assms by (cases "2 ^ 23 \<le> v") (simp_all add: le_div_geq)
  finally have sgn: "?w AND 0x800000 \<noteq> 0 \<longleftrightarrow> 2 ^ 23 \<le> v" using and_exp_eq_0_iff_not_bit [of ?w 23] by simp
  have small: "sint (word_of_int k :: u32) = k" if "- 2147483648 \<le> k" "k < 2147483648" for k
    using that by (simp add: sint_sbintrunc' signed_take_bit_int_eq_self)
  show ?thesis
  proof (cases "2 ^ 23 \<le> v")
    case False
    then show ?thesis using sgn small [of "int v"] by (simp add: extend24_def)
  next
    case True
    have "?w OR 0xFF000000 = ?w + 0xFF000000"
    proof (rule disjunctive_add [symmetric])
      fix n
      have "bit ?w n \<Longrightarrow> n < 24"
      proof (rule ccontr)
        assume "bit ?w n" "\<not> n < 24"
        then have "bit v n" by (simp add: bit_simps)
        then have "odd (v div 2 ^ n)" by (simp only: bit_iff_odd) simp
        moreover have "v < 2 ^ n" using assms \<open>\<not> n < 24\<close> power_increasing [of 24 n "2 :: nat"] by auto
        ultimately show False by simp
      qed
      moreover have "bit (0xFF000000 :: u32) n \<Longrightarrow> \<not> n < 24"
        by (auto simp: less_Suc_eq numeral_eq_Suc)
      ultimately show "\<not> bit ?w n \<or> \<not> bit (0xFF000000 :: u32) n" by blast
    qed
    moreover have "?w + 0xFF000000 = word_of_int (int v - 16777216)" by simp
    ultimately have "extend24 ?w = word_of_int (int v - 16777216)" using sgn True by (simp add: extend24_def)
    then show ?thesis using small [of "int v - 16777216"] assms True by simp
  qed
qed

lemma extend24_sint:
  assumes "length bs = 24"
  shows "sint (extend24 (of_nat (msb_value bs))) = int (msb_value bs) - (if hd bs then 2 ^ 24 else 0)"
proof -
  obtain x ys where bs: "bs = x # ys" "length ys = 23" using assms by (cases bs) auto
  then have "hd bs \<longleftrightarrow> 2 ^ 23 \<le> msb_value bs" using msb_value_less [of ys] by (auto simp: msb_value_Cons)
  then show ?thesis using extend24_value [of "msb_value bs"] msb_value_less [of bs] assms by simp
qed

text \<open>Putting a byte behind a word.\<close>

lemma shift_in_byte: "push_bit 8 w OR ucast (b :: u8) = 256 * w + (ucast b :: u32)"
proof -
  have "push_bit 8 w + ucast b = push_bit 8 w OR (ucast b :: u32)"
    by (rule disjunctive_add) (auto simp: bit_simps dest: bit_imp_le_length)
  then show ?thesis by (simp add: push_bit_eq_mult mult.commute)
qed

section \<open>Samples get through\<close>

text \<open>A buffer between two samples of \<open>n\<close> bytes, the bytes in it, and the number of samples in a full one.\<close>

definition bulk_ok :: "nat \<Rightarrow> sensor_bulk \<Rightarrow> bool" where
  "bulk_ok n sb \<longleftrightarrow> 0 < n \<and> length (sb_data sb) = SENSOR_BULK_SIZE \<and> n dvd unat (sb_data_count sb)
     \<and> unat (sb_data_count sb) + n \<le> SENSOR_BULK_SIZE"

definition bulk_pending :: "sensor_bulk \<Rightarrow> u8 list" where
  "bulk_pending sb = take (unat (sb_data_count sb)) (sb_data sb)"

definition block_size :: "nat \<Rightarrow> nat" where
  "block_size n = n * (SENSOR_BULK_SIZE div n)"

text \<open>The messages of a sensor that carry the blocks \<open>ds\<close>, numbered from \<open>n\<close> on.\<close>

fun bulk_messages :: "u8 \<Rightarrow> u16 \<Rightarrow> u8 list list \<Rightarrow> outmsg list" where
  "bulk_messages oid n [] = []"
| "bulk_messages oid n (d # ds) =
     (''sensor_bulk_data oid=%c sequence=%hu data=%*s'', [U (ucast oid), U (ucast n), Buf d]) # bulk_messages oid (n + 1) ds"

lemma bulk_messages_append:
  "bulk_messages oid n (ds @ es) = bulk_messages oid n ds @ bulk_messages oid (n + of_nat (length ds)) es"
  by (induction ds arbitrary: n) (simp_all add: algebra_simps)

lemma full_block:
  fixes n k b :: nat
  assumes "n dvd k" "k \<le> b" "b < k + n"
  shows "k = n * (b div n)"
proof -
  obtain q where q: "k = n * q" using assms(1) by (elim dvdE)
  have "b div n = q" by (rule div_nat_eqI) (use assms(2,3) q in simp_all)
  then show ?thesis using q by simp
qed

lemma bulk_put_run:
  assumes ok: "bulk_ok n sb" and b: "length bytes = n" and q: "\<not> in_sendf s"
  obtains sb' ds where "bulk_put n sb oid bytes f s = (Inr sb', s\<lparr>sent := sent s @ bulk_messages oid (sb_sequence sb) ds\<rparr>)"
    "bulk_ok n sb'" "bulk_pending sb @ bytes = concat ds @ bulk_pending sb'"
    "sb_sequence sb' = sb_sequence sb + of_nat (length ds)" "sb_possible_overflows sb' = sb_possible_overflows sb"
    "\<forall>d\<in>set ds. length d = block_size n \<or> f"
proof -
  let ?k = "unat (sb_data_count sb)"
  let ?d = "take ?k (sb_data sb) @ bytes @ drop (?k + n) (sb_data sb)"
  let ?sb = "sb\<lparr>sb_data := ?d, sb_data_count := sb_data_count sb + of_nat n\<rparr>"
  have l: "length (sb_data sb) = 51" "?k + n \<le> 51" "0 < n" "n dvd ?k"
    using ok by (simp_all add: bulk_ok_def bulk_consts)
  then have w: "write_bytes (sb_data sb) ?k bytes = Some ?d" using b by (simp add: write_bytes_def)
  have n4: "unat (sb_data_count sb + of_nat n) = ?k + n" using l(2) by (simp add: unat_word_ariths unat_of_nat take_bit_nat_eq_self)
  have p: "bulk_pending ?sb = bulk_pending sb @ bytes" using l b by (simp add: bulk_pending_def n4)
  have lp: "length (bulk_pending ?sb) = ?k + n" using l b by (simp add: bulk_pending_def n4)
  show thesis
  proof (cases "?k + n + n > 51 \<or> f")
    case True
    have "length (bulk_pending ?sb) = block_size n \<or> f"
      using True full_block [of n "?k + n" 51] l unfolding lp block_size_def bulk_consts by auto
    then show thesis
      by (intro that [of "?sb\<lparr>sb_data_count := 0, sb_sequence := sb_sequence sb + 1\<rparr>" "[bulk_pending ?sb]"])
        (use True l w p q b in \<open>auto simp: bulk_put_def sensor_bulk_report_def run_simps Let_def bulk_consts n4 bulk_ok_def bulk_pending_def\<close>)
  next
    case False
    show thesis
      by (rule that [of ?sb "[]"])
        (use False l w p q b in \<open>auto simp: bulk_put_def Let_def bulk_consts n4 bulk_ok_def\<close>)
  qed
qed

lemma bulk_add_sample_run:
  assumes "bulk_ok BYTES_PER_SAMPLE sb" "\<not> in_sendf s"
  obtains sb' ds where "bulk_add_sample sb oid c f s = (Inr sb', s\<lparr>sent := sent s @ bulk_messages oid (sb_sequence sb) ds\<rparr>)"
    "bulk_ok BYTES_PER_SAMPLE sb'" "bulk_pending sb @ sample_bytes c = concat ds @ bulk_pending sb'"
    "sb_sequence sb' = sb_sequence sb + of_nat (length ds)" "\<forall>d\<in>set ds. length d = block_size BYTES_PER_SAMPLE \<or> f"
proof -
  have l: "length (sample_bytes c) = BYTES_PER_SAMPLE" by (simp add: sample_bytes_def bulk_consts)
  show thesis by (rule bulk_put_run [OF assms(1) l assms(2), of oid f, folded bulk_add_sample_def]) (rule that)
qed

text \<open>
  The contract of a driver: adding a sample puts its bytes behind those that wait, and whatever it sends is a full block
  of the first of these bytes.  Then a sequence of samples arrives at the host complete, in order and numbered.
\<close>

locale bulk_sensor =
  fixes bytes_per_sample :: nat and encode :: "'c \<Rightarrow> u8 list"
    and sb_of :: "'s hw_scheme \<Rightarrow> sensor_bulk" and add_sample :: "u8 \<Rightarrow> 'c \<Rightarrow> ('s hw_scheme, unit) cmd"
  assumes add_step: "bulk_ok bytes_per_sample (sb_of s) \<Longrightarrow> \<not> in_sendf s \<Longrightarrow> \<exists>t ds. add_sample oid c s = (Inr (), t)
     \<and> bulk_ok bytes_per_sample (sb_of t) \<and> in_sendf t = in_sendf s \<and> sent t = sent s @ bulk_messages oid (sb_sequence (sb_of s)) ds
     \<and> bulk_pending (sb_of s) @ encode c = concat ds @ bulk_pending (sb_of t)
     \<and> sb_sequence (sb_of t) = sb_sequence (sb_of s) + of_nat (length ds) \<and> (\<forall>d\<in>set ds. length d = block_size bytes_per_sample)"
begin

lemma samples_delivered:
  "bulk_ok bytes_per_sample (sb_of s) \<Longrightarrow> \<not> in_sendf s \<Longrightarrow> \<exists>t ds. foldr (\<lambda>c. mseq (add_sample oid c)) cs (ret ()) s = (Inr (), t)
     \<and> bulk_ok bytes_per_sample (sb_of t) \<and> sent t = sent s @ bulk_messages oid (sb_sequence (sb_of s)) ds
     \<and> bulk_pending (sb_of s) @ concat (map encode cs) = concat ds @ bulk_pending (sb_of t)
     \<and> sb_sequence (sb_of t) = sb_sequence (sb_of s) + of_nat (length ds) \<and> (\<forall>d\<in>set ds. length d = block_size bytes_per_sample)"
proof (induction cs arbitrary: s)
  case Nil
  then show ?case by (auto intro!: exI [of _ "[] :: u8 list list"])
next
  case (Cons c cs)
  obtain t ds where t: "add_sample oid c s = (Inr (), t)" "bulk_ok bytes_per_sample (sb_of t)" "in_sendf t = in_sendf s"
      "sent t = sent s @ bulk_messages oid (sb_sequence (sb_of s)) ds"
      "bulk_pending (sb_of s) @ encode c = concat ds @ bulk_pending (sb_of t)"
      "sb_sequence (sb_of t) = sb_sequence (sb_of s) + of_nat (length ds)" "\<forall>d\<in>set ds. length d = block_size bytes_per_sample"
    using add_step [OF Cons.prems] by blast
  obtain u es where u: "foldr (\<lambda>c. mseq (add_sample oid c)) cs (ret ()) t = (Inr (), u)" "bulk_ok bytes_per_sample (sb_of u)"
      "sent u = sent t @ bulk_messages oid (sb_sequence (sb_of t)) es"
      "bulk_pending (sb_of t) @ concat (map encode cs) = concat es @ bulk_pending (sb_of u)"
      "sb_sequence (sb_of u) = sb_sequence (sb_of t) + of_nat (length es)" "\<forall>d\<in>set es. length d = block_size bytes_per_sample"
    using Cons.IH [OF t(2)] Cons.prems(2) unfolding t(3) [symmetric] by blast
  have "bulk_pending (sb_of s) @ concat (map encode (c # cs)) = concat (ds @ es) @ bulk_pending (sb_of u)"
    using t(5) u(4) by (metis append.assoc concat.simps(2) concat_append list.simps(9))
  then show ?case
    using t u by (intro exI [of _ u] exI [of _ "ds @ es"])
      (auto simp: mseq_Inr [of "add_sample oid c" s, OF t(1)] bulk_messages_append simp del: ret_run)
qed

end

end
