(* ===== verification/Hx71x.thy ===== *)
theory Hx71x
  imports Sensor_Bulk
begin

text \<open>
  The strain gauge converters HX711 and HX717, \<open>src/src/sensor_hx71x.c\<close>: a timer looks for a sample, a task
  clocks it out bit by bit, and the sample goes to the host and to the load cell end stop.  \<open>mach_avr\<close> is
  CONFIG_MACH_AVR; \<open>window\<close> is what the handlers do where the task enables interrupts between two bits, and
  \<open>call\<close> what the signals of a trigger call.  The rest of the task is one step.
\<close>

section \<open>State\<close>

record hx71x_adc =
  hx_gain_channel :: u8
  hx_flags :: u8
  hx_rest_ticks :: u32
  hx_last_error :: u32
  hx_dout :: u32
  hx_sclk :: u32
  hx_sb :: sensor_bulk
  hx_lce :: "nat option"

record hx71xs = pors +
  hx71xs :: "nat \<Rightarrow> hx71x_adc"

definition HX_PENDING :: u8 where "HX_PENDING = 1"
definition HX_OVERFLOW :: u8 where "HX_OVERFLOW = 2"
definition SAMPLE_ERROR_DESYNC :: u32 where "SAMPLE_ERROR_DESYNC = push_bit 31 1"
definition SAMPLE_ERROR_READ_TOO_LONG :: u32 where "SAMPLE_ERROR_READ_TOO_LONG = push_bit 30 1"
definition HX71X_MIN_PULSE_NS :: u32 where "HX71X_MIN_PULSE_NS = 200"

lemmas hx_consts = HX_PENDING_def HX_OVERFLOW_def SAMPLE_ERROR_DESYNC_def SAMPLE_ERROR_READ_TOO_LONG_def

definition SIZEOF_hx71x_adc :: nat where "SIZEOF_hx71x_adc = 100"

definition set_hx :: "nat \<Rightarrow> (hx71x_adc \<Rightarrow> hx71x_adc) \<Rightarrow> 's hx71xs_scheme \<Rightarrow> 's hx71xs_scheme" where
  "set_hx a f s = s\<lparr>hx71xs := (hx71xs s)(a := f (hx71xs s a))\<rparr>"

definition zero_hx71x :: hx71x_adc where
  "zero_hx71x = \<lparr>hx_gain_channel = 0, hx_flags = 0, hx_rest_ticks = 0, hx_last_error = 0, hx_dout = 0, hx_sclk = 0,
     hx_sb = zero_bulk, hx_lce = None\<rparr>"

section \<open>Reading\<close>

definition hx71x_delay_noirq :: "bool \<Rightarrow> ('s hw_scheme, unit) cmd" where
  "hx71x_delay_noirq mach_avr = (if mach_avr then ret () else pulse_delay HX71X_MIN_PULSE_NS)"

definition hx71x_delay :: "bool \<Rightarrow> ('s hw_scheme, unit) cmd" where
  "hx71x_delay mach_avr = (if mach_avr then ret () else pulse_delay HX71X_MIN_PULSE_NS)"

definition hx71x_raw_read :: "bool \<Rightarrow> ('s hw_scheme, unit) cmd \<Rightarrow> u32 \<Rightarrow> u32 \<Rightarrow> nat \<Rightarrow> ('s hw_scheme, u32) cmd" where
  "hx71x_raw_read mach_avr window dout sclk num_bits = raw_read (hx71x_delay_noirq mach_avr) window (hx71x_delay mach_avr) dout sclk num_bits 0"

definition hx71x_is_data_ready :: "nat \<Rightarrow> ('s hx71xs_scheme, bool) cmd" where
  "hx71x_is_data_ready a = mbind (gets (\<lambda>s. hx_dout (hx71xs s a))) (\<lambda>dout. mbind (gpio_in_read dout) (\<lambda>b. ret (\<not> b)))"

definition hx71x_event :: "nat \<Rightarrow> ('s hx71xs_scheme, sf) cmd" where
  "hx71x_event a = mbind (gets (\<lambda>s. hx71xs s a)) (\<lambda>h.
     mbind (if hx_flags h AND HX_PENDING \<noteq> 0 then
              mseq (modify (set_hx a (\<lambda>h. h\<lparr>hx_sb := (hx_sb h)\<lparr>sb_possible_overflows := sb_possible_overflows (hx_sb h) + 1\<rparr>,
                     hx_flags := HX_PENDING OR HX_OVERFLOW\<rparr>)))
              (ret (hx_rest_ticks h * 4))
            else mbind (hx71x_is_data_ready a) (\<lambda>ready.
              if ready then mseq (modify (set_hx a (\<lambda>h. h\<lparr>hx_flags := HX_PENDING\<rparr>)))
                (mseq (sched_wake_task Hx71x_wake) (ret (hx_rest_ticks h * 8)))
              else ret (hx_rest_ticks h))) (\<lambda>rest_ticks.
     mseq (modify (\<lambda>s. set_wake (Obj_timer a 0) (waketime s (Obj_timer a 0) + rest_ticks) s)) (ret SF_RESCHEDULE)))"

definition hx71x_add_sample :: "nat \<Rightarrow> u8 \<Rightarrow> u32 \<Rightarrow> bool \<Rightarrow> ('s hx71xs_scheme, unit) cmd" where
  "hx71x_add_sample a oid counts force_flush = mbind (gets (\<lambda>s. hx_sb (hx71xs s a))) (\<lambda>sb.
     mbind (bulk_add_sample sb oid counts force_flush) (\<lambda>sb. modify (set_hx a (\<lambda>h. h\<lparr>hx_sb := sb\<rparr>))))"

text \<open>The errors of a reading, and what is reported for it.\<close>

definition hx71x_check :: "u32 \<Rightarrow> u8 \<Rightarrow> u8 \<Rightarrow> u32 \<Rightarrow> u32" where
  "hx71x_check adc gain_channel flags last_error =
     (let extras_mask = push_bit (unat gain_channel) 1 - 1 in
      if adc AND extras_mask \<noteq> extras_mask then SAMPLE_ERROR_DESYNC
      else if flags AND HX_OVERFLOW \<noteq> 0 then SAMPLE_ERROR_READ_TOO_LONG
      else last_error)"

definition hx71x_deliver ::
  "(signal_fn \<Rightarrow> nat \<Rightarrow> u8 \<Rightarrow> ('s hx71xs_scheme, unit) cmd) \<Rightarrow> nat \<Rightarrow> u8 \<Rightarrow> u32 \<Rightarrow> u32 \<Rightarrow> ('s hx71xs_scheme, unit) cmd" where
  "hx71x_deliver call a oid counts start = mseq (hx71x_add_sample a oid counts False) (
     mbind (gets (\<lambda>s. hx71xs s a)) (\<lambda>h.
     case hx_lce h of
       None \<Rightarrow> ret ()
     | Some lce \<Rightarrow> mwhen (hx_last_error h = 0) (load_cell_endstop_report_sample call lce counts start)))"

definition hx71x_read_adc ::
  "bool \<Rightarrow> ('s hx71xs_scheme, unit) cmd \<Rightarrow> (signal_fn \<Rightarrow> nat \<Rightarrow> u8 \<Rightarrow> ('s hx71xs_scheme, unit) cmd) \<Rightarrow> nat \<Rightarrow> u8 \<Rightarrow> ('s hx71xs_scheme, unit) cmd" where
  "hx71x_read_adc mach_avr window call a oid =
     mbind timer_read_time (\<lambda>start.
     mbind (gets (\<lambda>s. hx71xs s a)) (\<lambda>h.
     let gain_channel = hx_gain_channel h in
     mbind (hx71x_raw_read mach_avr window (hx_dout h) (hx_sclk h) (24 + unat gain_channel)) (\<lambda>adc.
     mbind (gets (\<lambda>s. hx_flags (hx71xs s a))) (\<lambda>flags.
     mseq (modify (set_hx a (\<lambda>h. h\<lparr>hx_flags := 0\<rparr>))) (
     let counts = extend24 (drop_bit (unat gain_channel) adc) in
     mseq (modify (set_hx a (\<lambda>h. h\<lparr>hx_last_error := hx71x_check adc gain_channel flags (hx_last_error h)\<rparr>))) (
     mbind (gets (\<lambda>s. hx_last_error (hx71xs s a))) (\<lambda>last_error.
     hx71x_deliver call a oid (if last_error \<noteq> 0 then last_error else counts) start)))))))"

section \<open>Commands\<close>

definition command_config_hx71x :: "u32 list \<Rightarrow> ('s hx71xs_scheme, unit) cmd" where
  "command_config_hx71x args = mbind (oid_alloc (ucast (args ! 0)) Oid_hx71x SIZEOF_hx71x_adc) (\<lambda>a.
     mseq (modify (\<lambda>s. set_hx a (\<lambda>_. zero_hx71x) (zero_timer (Obj_timer a 0) s))) (
     mseq (modify (set_func (Obj_timer a 0) (Some Hx71x_event))) (
     let gain_channel = ucast (args ! 1) :: u8 in
     if gain_channel < 1 \<or> gain_channel > 4 then shutdown ''command_config_hx71x'' ''HX71x gain/channel out of range 1-4''
     else
       mseq (modify (set_hx a (\<lambda>h. h\<lparr>hx_gain_channel := gain_channel\<rparr>))) (
       mbind (gpio_in_setup (args ! 2) 1) (\<lambda>dout.
       mseq (modify (set_hx a (\<lambda>h. h\<lparr>hx_dout := dout\<rparr>))) (
       mbind (gpio_out_setup (args ! 3) 0) (\<lambda>sclk.
       mseq (modify (set_hx a (\<lambda>h. h\<lparr>hx_sclk := sclk\<rparr>)))
       (gpio_out_write sclk 1))))))))"

definition command_attach_endstop_hx71x :: "u32 list \<Rightarrow> ('s hx71xs_scheme, unit) cmd" where
  "command_attach_endstop_hx71x args =
     mbind (mbind (oid_lookup ''command_attach_endstop_hx71x'' (ucast (args ! 0)) Oid_hx71x) deref) (\<lambda>a.
     mbind (load_cell_endstop_oid_lookup ''command_attach_endstop_hx71x'' (ucast (args ! 1))) (\<lambda>lce.
     modify (set_hx a (\<lambda>h. h\<lparr>hx_lce := Some lce\<rparr>))))"

definition command_query_hx71x :: "u32 list \<Rightarrow> ('s hx71xs_scheme, unit) cmd" where
  "command_query_hx71x args =
     mbind (mbind (oid_lookup ''command_query_hx71x'' (ucast (args ! 0)) Oid_hx71x) deref) (\<lambda>a.
     mseq (sched_del_timer (Obj_timer a 0)) (
     mseq (modify (set_hx a (\<lambda>h. h\<lparr>hx_flags := 0, hx_last_error := 0, hx_rest_ticks := args ! 1\<rparr>))) (
     mbind (gets (\<lambda>s. hx_sclk (hx71xs s a))) (\<lambda>sclk.
     if args ! 1 = 0 then gpio_out_write sclk 1
     else
       mseq (gpio_out_write sclk 0) (
       mseq (modify (set_hx a (\<lambda>h. h\<lparr>hx_sb := sensor_bulk_reset (hx_sb h)\<rparr>))) (
       mbind timer_read_time (\<lambda>now.
       mseq (modify (set_wake (Obj_timer a 0) (now + args ! 1)))
       (sched_add_timer ''command_query_hx71x'' (Obj_timer a 0)))))))))"

definition command_query_hx71x_status :: "u32 list \<Rightarrow> ('s hx71xs_scheme, unit) cmd" where
  "command_query_hx71x_status args =
     (let oid = ucast (args ! 0) in
      mbind (mbind (oid_lookup ''command_query_hx71x_status'' oid Oid_hx71x) deref) (\<lambda>a.
      mbind timer_read_time (\<lambda>start_t.
      mbind (hx71x_is_data_ready a) (\<lambda>ready.
      mbind (gets (\<lambda>s. hx_sb (hx71xs s a))) (\<lambda>sb.
      sensor_bulk_status sb oid start_t 0 (if ready then of_nat BYTES_PER_SAMPLE else 0))))))"

definition hx71x_capture_one ::
  "bool \<Rightarrow> ('s hx71xs_scheme, unit) cmd \<Rightarrow> (signal_fn \<Rightarrow> nat \<Rightarrow> u8 \<Rightarrow> ('s hx71xs_scheme, unit) cmd) \<Rightarrow> u8 \<Rightarrow> nat \<Rightarrow> ('s hx71xs_scheme, unit) cmd" where
  "hx71x_capture_one mach_avr window call oid a = mbind (gets (\<lambda>s. hx_flags (hx71xs s a))) (\<lambda>flags.
     mwhen (flags \<noteq> 0) (hx71x_read_adc mach_avr window call a oid))"

definition hx71x_capture_task ::
  "bool \<Rightarrow> ('s hx71xs_scheme, unit) cmd \<Rightarrow> (signal_fn \<Rightarrow> nat \<Rightarrow> u8 \<Rightarrow> ('s hx71xs_scheme, unit) cmd) \<Rightarrow> ('s hx71xs_scheme, unit) cmd" where
  "hx71x_capture_task mach_avr window call = mbind (sched_check_wake Hx71x_wake) (\<lambda>w.
     mwhen w (foreach_oid Oid_hx71x (hx71x_capture_one mach_avr window call)))"

section \<open>Samples\<close>

lemma set_hx_sel [simp]:
  "hx71xs (set_hx a f s) = (hx71xs s)(a := f (hx71xs s a))" "in_sendf (set_hx a f s) = in_sendf s" "sent (set_hx a f s) = sent s"
  by (simp_all add: set_hx_def)

interpretation hx71x: bulk_sensor BYTES_PER_SAMPLE sample_bytes "\<lambda>s. hx_sb (hx71xs s a)" "\<lambda>oid c. hx71x_add_sample a oid c False" for a
proof
  fix s :: "'a hx71xs_scheme" and oid c
  assume "bulk_ok BYTES_PER_SAMPLE (hx_sb (hx71xs s a))" "\<not> in_sendf s"
  then obtain sb' ds where "bulk_add_sample (hx_sb (hx71xs s a)) oid c False s
      = (Inr sb', s\<lparr>sent := sent s @ bulk_messages oid (sb_sequence (hx_sb (hx71xs s a))) ds\<rparr>)"
    "bulk_ok BYTES_PER_SAMPLE sb'" "bulk_pending (hx_sb (hx71xs s a)) @ sample_bytes c = concat ds @ bulk_pending sb'"
    "sb_sequence sb' = sb_sequence (hx_sb (hx71xs s a)) + of_nat (length ds)" "\<forall>d\<in>set ds. length d = block_size BYTES_PER_SAMPLE"
    by (rule bulk_add_sample_run) blast
  then show "\<exists>t ds. hx71x_add_sample a oid c False s = (Inr (), t) \<and> bulk_ok BYTES_PER_SAMPLE (hx_sb (hx71xs t a))
     \<and> in_sendf t = in_sendf s \<and> sent t = sent s @ bulk_messages oid (sb_sequence (hx_sb (hx71xs s a))) ds
     \<and> bulk_pending (hx_sb (hx71xs s a)) @ sample_bytes c = concat ds @ bulk_pending (hx_sb (hx71xs t a))
     \<and> sb_sequence (hx_sb (hx71xs t a)) = sb_sequence (hx_sb (hx71xs s a)) + of_nat (length ds)
     \<and> (\<forall>d\<in>set ds. length d = block_size BYTES_PER_SAMPLE)"
    by (auto simp: hx71x_add_sample_def run_simps)
qed

text \<open>What the handlers must leave alone while a sample is read: everything of the sensor but its flags.\<close>

definition hx_obs :: "nat \<Rightarrow> 's hx71xs_scheme \<Rightarrow> hx71x_adc" where
  "hx_obs a s = (hx71xs s a)\<lparr>hx_flags := 0, hx_sb := (hx_sb (hx71xs s a))\<lparr>sb_possible_overflows := 0\<rparr>\<rparr>"

lemma hx_obs_eqD:
  assumes "hx_obs a t = hx_obs a s"
  shows "hx_gain_channel (hx71xs t a) = hx_gain_channel (hx71xs s a)" "hx_last_error (hx71xs t a) = hx_last_error (hx71xs s a)"
    "hx_lce (hx71xs t a) = hx_lce (hx71xs s a)" "bulk_pending (hx_sb (hx71xs t a)) = bulk_pending (hx_sb (hx71xs s a))"
    "bulk_ok BYTES_PER_SAMPLE (hx_sb (hx71xs t a)) = bulk_ok BYTES_PER_SAMPLE (hx_sb (hx71xs s a))"
proof -
  have "hx_gain_channel (hx_obs a t) = hx_gain_channel (hx_obs a s)" "hx_last_error (hx_obs a t) = hx_last_error (hx_obs a s)"
    "hx_lce (hx_obs a t) = hx_lce (hx_obs a s)" "sb_data_count (hx_sb (hx_obs a t)) = sb_data_count (hx_sb (hx_obs a s))"
    "sb_data (hx_sb (hx_obs a t)) = sb_data (hx_sb (hx_obs a s))" using assms by simp_all
  then show "hx_gain_channel (hx71xs t a) = hx_gain_channel (hx71xs s a)" "hx_last_error (hx71xs t a) = hx_last_error (hx71xs s a)"
    "hx_lce (hx71xs t a) = hx_lce (hx71xs s a)" "bulk_pending (hx_sb (hx71xs t a)) = bulk_pending (hx_sb (hx71xs s a))"
    "bulk_ok BYTES_PER_SAMPLE (hx_sb (hx71xs t a)) = bulk_ok BYTES_PER_SAMPLE (hx_sb (hx71xs s a))"
    by (simp_all add: hx_obs_def bulk_pending_def bulk_ok_def)
qed

lemma hx_obs_blind: "pin_blind (hx_obs a)"
  by (simp add: pin_blind_def hx_obs_def)

lemma hx_delays: "window_ok HX71X_MIN_PULSE_NS (hx_obs a) (hx71x_delay_noirq m)" "window_ok HX71X_MIN_PULSE_NS (hx_obs a) (hx71x_delay m)"
  by (simp_all add: hx71x_delay_noirq_def hx71x_delay_def window_skip window_delay hx_obs_blind)

text \<open>The event of the sensor itself may run in a window.\<close>

lemma hx71x_event_window: "\<exists>t. hx71x_event a s = (Inr SF_RESCHEDULE, t) \<and> rely (hx_obs a) s t"
  by (auto simp: hx71x_event_def hx71x_is_data_ready_def run_simps rely_def hx_obs_def set_hx_def set_wake_def sched_wake_task_run)

lemma hx_rely_fields:
  assumes "rely (hx_obs a) s t"
  shows "hx_last_error (hx71xs t a) = hx_last_error (hx71xs s a)"
  using assms hx_obs_eqD by (auto simp: rely_def)

section \<open>Properties\<close>


text \<open>
  C31: the samples that the driver adds arrive at the host.  The messages carry consecutive sequence numbers, and
  their data, followed by what still waits in the buffer, is what waited before followed by the samples in order,
  four bytes each, the lowest first.
\<close>

theorem hx71x_samples_delivered:
  assumes "bulk_ok BYTES_PER_SAMPLE (hx_sb (hx71xs s a))" "\<not> in_sendf s"
  shows "\<exists>t ds. foldr (\<lambda>c. mseq (hx71x_add_sample a oid c False)) cs (ret ()) s = (Inr (), t)
    \<and> bulk_ok BYTES_PER_SAMPLE (hx_sb (hx71xs t a)) \<and> sent t = sent s @ bulk_messages oid (sb_sequence (hx_sb (hx71xs s a))) ds
    \<and> bulk_pending (hx_sb (hx71xs s a)) @ concat (map sample_bytes cs) = concat ds @ bulk_pending (hx_sb (hx71xs t a))
    \<and> sb_sequence (hx_sb (hx71xs t a)) = sb_sequence (hx_sb (hx71xs s a)) + of_nat (length ds)
    \<and> (\<forall>d\<in>set ds. length d = block_size BYTES_PER_SAMPLE)"
  using assms by (rule hx71x.samples_delivered)

definition hx71xs_static :: hx71xs where
  "hx71xs_static = pors.extend pors_static \<lparr>hx71xs = (\<lambda>_. zero_hx71x)\<rparr>"

lemmas hx71xs_static_simps = pors_static_simps hx71xs_static_def pors.extend_def

text \<open>A chip that sends ones only, read with a clock that runs.\<close>

definition example_hx71x :: hx71xs where
  "example_hx71x = hx71xs_static\<lparr>clk := (\<lambda>n. of_nat (1000 * n)), gpio_idr := (\<lambda>_ _. True),
     hx71xs := (\<lambda>_. zero_hx71x\<lparr>hx_gain_channel := 1, hx_dout := 5, hx_sclk := 6, hx_flags := HX_PENDING\<rparr>)\<rparr>"

lemma example_hx71x_fields:
  "hx71xs example_hx71x 500 = zero_hx71x\<lparr>hx_gain_channel := 1, hx_dout := 5, hx_sclk := 6, hx_flags := HX_PENDING\<rparr>"
  "gpio_idr example_hx71x i p" "clk example_hx71x n = of_nat (1000 * n)" "clk_n example_hx71x = 0" "clock_mhz example_hx71x = 100"
  "\<not> in_sendf example_hx71x" "sent example_hx71x = []"
  by (simp_all add: example_hx71x_def hx71xs_static_simps)

lemma example_clock: "clock_passes HX71X_MIN_PULSE_NS example_hx71x"
  unfolding clock_passes_def
proof
  fix n
  have k: "nsecs_to_ticks example_hx71x HX71X_MIN_PULSE_NS = 20"
    unfolding nsecs_to_ticks_def timer_from_us_def example_hx71x_fields HX71X_MIN_PULSE_NS_def by code_simp
  have "timer_is_before (clk example_hx71x (Suc n)) (clk example_hx71x n + nsecs_to_ticks example_hx71x HX71X_MIN_PULSE_NS) = False"
    unfolding k by (simp add: example_hx71x_fields timer_is_before_def algebra_simps)
  then show "\<exists>m>n. \<not> timer_is_before (clk example_hx71x m) (clk example_hx71x n + nsecs_to_ticks example_hx71x HX71X_MIN_PULSE_NS)"
    by blast
qed


theorem hx71x_samples_delivered_witness:
  "\<exists>t ds. foldr (\<lambda>c. mseq (hx71x_add_sample 500 7 c False)) [1, 0x80000000] (ret ()) example_hx71x = (Inr (), t)
    \<and> sent t = bulk_messages 7 0 ds \<and> [1, 0, 0, 0, 0, 0, 0, 0x80] = concat ds @ bulk_pending (hx_sb (hx71xs t 500))"
proof -
  have "bulk_ok BYTES_PER_SAMPLE (hx_sb (hx71xs example_hx71x 500))" "bulk_pending (hx_sb (hx71xs example_hx71x 500)) = []"
      "sb_sequence (hx_sb (hx71xs example_hx71x 500)) = 0"
    by (simp_all add: example_hx71x_fields zero_hx71x_def zero_bulk_def bulk_ok_def bulk_pending_def bulk_consts)
  moreover have "concat (map sample_bytes [1, 0x80000000]) = [1, 0, 0, 0, 0, 0, 0, 0x80]" by code_simp
  ultimately show ?thesis
    using hx71x_samples_delivered [of example_hx71x 500 7 "[1, 0x80000000]"]
    by (simp only: example_hx71x_fields) (auto elim!: ex_forward)
qed

end
