(* ===== verification/Cs123x.thy ===== *)
theory Cs123x
  imports Hx71x
begin

text \<open>
  The strain gauge converter CS1237, \<open>src/src/sensor_cs123x.c\<close>: sampling as for the HX71x, and the registers of
  the chip, which are written and read through the data pin.  \<open>window\<close> is what the handlers do where the driver
  enables interrupts between two clock pulses, and \<open>call\<close> what the signals of a trigger call.  A variable of type
  \<open>uint_fast8_t\<close> has 32 bits.
\<close>

section \<open>State\<close>

record cs123x_adc =
  cs_flags :: u8
  cs_rest_ticks :: u32
  cs_last_error :: u32
  cs_dout :: u32
  cs_din :: u32
  cs_sclk :: u32
  cs_sb :: sensor_bulk
  cs_lce :: "nat option"

record cs123xs = hx71xs +
  cs123xs :: "nat \<Rightarrow> cs123x_adc"

definition CS_PENDING :: u8 where "CS_PENDING = 1"
definition CS_OVERFLOW :: u8 where "CS_OVERFLOW = 2"
definition CS123X_WRITE_CONFIG :: u32 where "CS123X_WRITE_CONFIG = 0x65"
definition CS123X_READ_CONFIG :: u32 where "CS123X_READ_CONFIG = 0x56"
definition CS123X_MIN_PULSE_NS :: u32 where "CS123X_MIN_PULSE_NS = 500"
definition SIZEOF_cs123x_adc :: nat where "SIZEOF_cs123x_adc = 108"

definition set_cs :: "nat \<Rightarrow> (cs123x_adc \<Rightarrow> cs123x_adc) \<Rightarrow> 's cs123xs_scheme \<Rightarrow> 's cs123xs_scheme" where
  "set_cs a f s = s\<lparr>cs123xs := (cs123xs s)(a := f (cs123xs s a))\<rparr>"

definition zero_cs123x :: cs123x_adc where
  "zero_cs123x = \<lparr>cs_flags = 0, cs_rest_ticks = 0, cs_last_error = 0, cs_dout = 0, cs_din = 0, cs_sclk = 0,
     cs_sb = zero_bulk, cs_lce = None\<rparr>"

section \<open>The clock\<close>

definition cs123x_delay_noirq :: "('s hw_scheme, unit) cmd" where
  "cs123x_delay_noirq = pulse_delay CS123X_MIN_PULSE_NS"

definition cs123x_delay :: "('s hw_scheme, unit) cmd" where
  "cs123x_delay = pulse_delay CS123X_MIN_PULSE_NS"

definition cs123x_pulse :: "('s hw_scheme, unit) cmd \<Rightarrow> u32 \<Rightarrow> ('s hw_scheme, unit) cmd" where
  "cs123x_pulse window sclk = mseq (gpio_out_toggle_noirq sclk) (
     mseq cs123x_delay_noirq (
     mseq (gpio_out_toggle_noirq sclk) (
     mseq window cs123x_delay)))"

fun cs1237x_generate_clk :: "('s hw_scheme, unit) cmd \<Rightarrow> u32 \<Rightarrow> nat \<Rightarrow> ('s hw_scheme, unit) cmd" where
  "cs1237x_generate_clk window sclk 0 = ret ()"
| "cs1237x_generate_clk window sclk (Suc n) = mseq (cs123x_pulse window sclk) (cs1237x_generate_clk window sclk n)"

definition cs123x_raw_read :: "('s hw_scheme, unit) cmd \<Rightarrow> u32 \<Rightarrow> u32 \<Rightarrow> ('s hw_scheme, u32) cmd" where
  "cs123x_raw_read window dout sclk = mbind (raw_read cs123x_delay_noirq window cs123x_delay dout sclk 24 0) (\<lambda>bits_read.
     mseq (cs1237x_generate_clk window sclk 3) (ret bits_read))"

section \<open>The registers\<close>

text \<open>Sending the bits of \<open>val\<close> from the one in \<open>high\<close> down, each before its pulse.\<close>

fun cs123x_send_bits :: "('s hw_scheme, unit) cmd \<Rightarrow> u32 \<Rightarrow> u32 \<Rightarrow> u32 \<Rightarrow> nat \<Rightarrow> u32 \<Rightarrow> ('s hw_scheme, unit) cmd" where
  "cs123x_send_bits window din sclk high 0 val = ret ()"
| "cs123x_send_bits window din sclk high (Suc n) val = mseq (gpio_out_write din (val AND high)) (
     mseq (cs123x_pulse window sclk) (cs123x_send_bits window din sclk high n (push_bit 1 val)))"

text \<open>Waiting until the data pin is low; the result says whether that was in time.\<close>

definition cs123x_wait_ready :: "u32 \<Rightarrow> u32 \<Rightarrow> ('s hw_scheme, bool) cmd" where
  "cs123x_wait_ready dout timeout = cloop (\<lambda>_. mbind (gpio_in_read dout) (\<lambda>b.
     if \<not> b then ret (Inr True)
     else mbind timer_read_time (\<lambda>now. ret (if timer_is_before timeout now then Inr False else Inl ())))) ()"

text \<open>The 46 clock pulses of an access.\<close>

definition cs123x_access ::
  "('s hw_scheme, unit) cmd \<Rightarrow> u32 \<Rightarrow> u32 \<Rightarrow> u32 \<Rightarrow> u32 \<Rightarrow> u32 \<Rightarrow> ('s hw_scheme, u32) cmd" where
  "cs123x_access window dout din sclk cmd val =
     (let write_config = (cmd = CS123X_WRITE_CONFIG) in
      mseq (cs1237x_generate_clk window sclk 27) (
      mseq (gpio_out_reset din 1) (
      mseq (cs1237x_generate_clk window sclk 2) (
      mseq (cs123x_send_bits window din sclk 0x40 7 cmd) (
      mseq (mwhen (\<not> write_config) (gpio_in_reset dout 1)) (
      mseq (cs1237x_generate_clk window sclk 1) (
      mbind (if write_config then mseq (cs123x_send_bits window din sclk 0x80 8 val) (ret 0)
             else raw_read cs123x_delay_noirq window cs123x_delay dout sclk 8 0) (\<lambda>config.
      mseq (mwhen write_config (gpio_in_reset dout 1)) (
      mseq (cs1237x_generate_clk window sclk 1) (
      mseq (gpio_out_write sclk 0) (ret config)))))))))))"

definition cs123x_config ::
  "('s hw_scheme, unit) cmd \<Rightarrow> u32 \<Rightarrow> u32 \<Rightarrow> u32 \<Rightarrow> u32 \<Rightarrow> u32 \<Rightarrow> ('s hw_scheme, u32) cmd" where
  "cs123x_config window dout din sclk cmd val =
      mbind timer_read_time (\<lambda>now.
      mbind (gets (\<lambda>s. now + timer_from_us s 200000)) (\<lambda>timeout.
      mseq (gpio_out_write sclk 0) (
      mbind (cs123x_wait_ready dout timeout) (\<lambda>ready.
      if \<not> ready then ret 0xff else cs123x_access window dout din sclk cmd val))))"

section \<open>Sampling\<close>

definition cs123x_is_data_ready :: "nat \<Rightarrow> ('s cs123xs_scheme, bool) cmd" where
  "cs123x_is_data_ready a = mbind (gets (\<lambda>s. cs_dout (cs123xs s a))) (\<lambda>dout. mbind (gpio_in_read dout) (\<lambda>b. ret (\<not> b)))"

definition cs123x_event :: "nat \<Rightarrow> ('s cs123xs_scheme, sf) cmd" where
  "cs123x_event a = mbind (gets (\<lambda>s. cs123xs s a)) (\<lambda>h.
     mbind (if cs_flags h AND CS_PENDING \<noteq> 0 then
              mseq (modify (set_cs a (\<lambda>h. h\<lparr>cs_sb := (cs_sb h)\<lparr>sb_possible_overflows := sb_possible_overflows (cs_sb h) + 1\<rparr>,
                     cs_flags := CS_PENDING OR CS_OVERFLOW\<rparr>)))
              (ret (cs_rest_ticks h * 4))
            else mbind (cs123x_is_data_ready a) (\<lambda>ready.
              if ready then mseq (modify (set_cs a (\<lambda>h. h\<lparr>cs_flags := CS_PENDING\<rparr>)))
                (mseq (sched_wake_task Cs123x_wake) (ret (cs_rest_ticks h * 8)))
              else ret (cs_rest_ticks h))) (\<lambda>rest_ticks.
     mseq (modify (\<lambda>s. set_wake (Obj_timer a 0) (waketime s (Obj_timer a 0) + rest_ticks) s)) (ret SF_RESCHEDULE)))"

definition cs123x_add_sample :: "nat \<Rightarrow> u8 \<Rightarrow> u32 \<Rightarrow> bool \<Rightarrow> ('s cs123xs_scheme, unit) cmd" where
  "cs123x_add_sample a oid counts force_flush = mbind (gets (\<lambda>s. cs_sb (cs123xs s a))) (\<lambda>sb.
     mbind (bulk_add_sample sb oid counts force_flush) (\<lambda>sb. modify (set_cs a (\<lambda>h. h\<lparr>cs_sb := sb\<rparr>))))"

definition cs123x_deliver ::
  "(signal_fn \<Rightarrow> nat \<Rightarrow> u8 \<Rightarrow> ('s cs123xs_scheme, unit) cmd) \<Rightarrow> nat \<Rightarrow> u8 \<Rightarrow> u32 \<Rightarrow> u32 \<Rightarrow> ('s cs123xs_scheme, unit) cmd" where
  "cs123x_deliver call a oid adc start = mseq (cs123x_add_sample a oid adc False) (
     mbind (gets (\<lambda>s. cs123xs s a)) (\<lambda>h.
     case cs_lce h of
       None \<Rightarrow> ret ()
     | Some lce \<Rightarrow> mwhen (cs_last_error h = 0) (load_cell_endstop_report_sample call lce adc start)))"

definition cs123x_read_adc ::
  "('s cs123xs_scheme, unit) cmd \<Rightarrow> (signal_fn \<Rightarrow> nat \<Rightarrow> u8 \<Rightarrow> ('s cs123xs_scheme, unit) cmd) \<Rightarrow> nat \<Rightarrow> u8 \<Rightarrow> ('s cs123xs_scheme, unit) cmd" where
  "cs123x_read_adc window call a oid =
     mbind timer_read_time (\<lambda>start.
     mbind (gets (\<lambda>s. cs123xs s a)) (\<lambda>h.
     mbind (cs123x_raw_read window (cs_dout h) (cs_sclk h)) (\<lambda>adc.
     mbind (gets (\<lambda>s. cs_flags (cs123xs s a))) (\<lambda>flags.
     mseq (modify (set_cs a (\<lambda>h. h\<lparr>cs_flags := 0\<rparr>))) (
     let adc = extend24 adc in
     mseq (mwhen (flags AND CS_OVERFLOW \<noteq> 0) (modify (set_cs a (\<lambda>h. h\<lparr>cs_last_error := SAMPLE_ERROR_READ_TOO_LONG\<rparr>)))) (
     mbind (gets (\<lambda>s. cs_last_error (cs123xs s a))) (\<lambda>last_error.
     cs123x_deliver call a oid (if last_error \<noteq> 0 then last_error else adc) start)))))))"

section \<open>Commands\<close>

definition command_config_cs123x :: "u32 list \<Rightarrow> ('s cs123xs_scheme, unit) cmd" where
  "command_config_cs123x args = mbind (oid_alloc (ucast (args ! 0)) Oid_cs123x SIZEOF_cs123x_adc) (\<lambda>a.
     mseq (modify (\<lambda>s. set_cs a (\<lambda>_. zero_cs123x) (zero_timer (Obj_timer a 0) s))) (
     mseq (modify (set_func (Obj_timer a 0) (Some Cs123x_event))) (
     mbind (gpio_out_setup (args ! 1) 1) (\<lambda>din.
     mseq (modify (set_cs a (\<lambda>h. h\<lparr>cs_din := din\<rparr>))) (
     mbind (gpio_in_setup (args ! 1) 1) (\<lambda>dout.
     mseq (modify (set_cs a (\<lambda>h. h\<lparr>cs_dout := dout\<rparr>))) (
     mbind (gpio_out_setup (args ! 2) 0) (\<lambda>sclk.
     mseq (modify (set_cs a (\<lambda>h. h\<lparr>cs_sclk := sclk\<rparr>)))
     (gpio_out_write sclk 0)))))))))"

definition command_cs123x_write :: "('s cs123xs_scheme, unit) cmd \<Rightarrow> u32 list \<Rightarrow> ('s cs123xs_scheme, unit) cmd" where
  "command_cs123x_write window args =
     mbind (mbind (oid_lookup ''command_cs123x_write'' (ucast (args ! 0)) Oid_cs123x) deref) (\<lambda>a.
     mbind (gets (\<lambda>s. cs123xs s a)) (\<lambda>h.
     mbind (cs123x_config window (cs_dout h) (cs_din h) (cs_sclk h) CS123X_WRITE_CONFIG (args ! 1)) (\<lambda>_.
     sendf ''command_cs123x_write oid %u config %u'' [U (args ! 0), U (args ! 1)])))"

definition command_cs123x_read :: "('s cs123xs_scheme, unit) cmd \<Rightarrow> u32 list \<Rightarrow> ('s cs123xs_scheme, unit) cmd" where
  "command_cs123x_read window args =
     mbind (mbind (oid_lookup ''command_cs123x_read'' (ucast (args ! 0)) Oid_cs123x) deref) (\<lambda>a.
     mbind (gets (\<lambda>s. cs123xs s a)) (\<lambda>h.
     mbind (cs123x_config window (cs_dout h) (cs_din h) (cs_sclk h) CS123X_READ_CONFIG 0xff) (\<lambda>r.
     let config = ucast r :: u8 in
     mseq (sendf ''cs123x_read_response oid=%c config=%c'' [U (args ! 0), U (ucast config)])
     (sendf ''command_cs123x_read oid %u config %u'' [U (args ! 0), U (ucast config)]))))"

definition command_attach_endstop_cs123x :: "u32 list \<Rightarrow> ('s cs123xs_scheme, unit) cmd" where
  "command_attach_endstop_cs123x args =
     mbind (mbind (oid_lookup ''command_attach_endstop_cs123x'' (ucast (args ! 0)) Oid_cs123x) deref) (\<lambda>a.
     mbind (load_cell_endstop_oid_lookup ''command_attach_endstop_cs123x'' (ucast (args ! 1))) (\<lambda>lce.
     modify (set_cs a (\<lambda>h. h\<lparr>cs_lce := Some lce\<rparr>))))"

definition command_query_cs123x :: "u32 list \<Rightarrow> ('s cs123xs_scheme, unit) cmd" where
  "command_query_cs123x args =
     mbind (mbind (oid_lookup ''command_query_cs123x'' (ucast (args ! 0)) Oid_cs123x) deref) (\<lambda>a.
     mseq (sched_del_timer (Obj_timer a 0)) (
     mseq (modify (set_cs a (\<lambda>h. h\<lparr>cs_flags := 0, cs_last_error := 0, cs_rest_ticks := args ! 1\<rparr>))) (
     mbind (gets (\<lambda>s. cs_sclk (cs123xs s a))) (\<lambda>sclk.
     if args ! 1 = 0 then gpio_out_write sclk 0
     else
       mseq (gpio_out_write sclk 0) (
       mseq (modify (set_cs a (\<lambda>h. h\<lparr>cs_sb := sensor_bulk_reset (cs_sb h)\<rparr>))) (
       mbind timer_read_time (\<lambda>now.
       mseq (modify (set_wake (Obj_timer a 0) (now + args ! 1)))
       (sched_add_timer ''command_query_cs123x'' (Obj_timer a 0)))))))))"

definition command_query_cs123x_status :: "u32 list \<Rightarrow> ('s cs123xs_scheme, unit) cmd" where
  "command_query_cs123x_status args =
     (let oid = ucast (args ! 0) in
      mbind (mbind (oid_lookup ''command_query_cs123x_status'' oid Oid_cs123x) deref) (\<lambda>a.
      mbind timer_read_time (\<lambda>start_t.
      mbind (cs123x_is_data_ready a) (\<lambda>ready.
      mbind (gets (\<lambda>s. cs_sb (cs123xs s a))) (\<lambda>sb.
      sensor_bulk_status sb oid start_t 0 (if ready then of_nat BYTES_PER_SAMPLE else 0))))))"

definition cs123x_capture_one ::
  "('s cs123xs_scheme, unit) cmd \<Rightarrow> (signal_fn \<Rightarrow> nat \<Rightarrow> u8 \<Rightarrow> ('s cs123xs_scheme, unit) cmd) \<Rightarrow> u8 \<Rightarrow> nat \<Rightarrow> ('s cs123xs_scheme, unit) cmd" where
  "cs123x_capture_one window call oid a = mbind (gets (\<lambda>s. cs_flags (cs123xs s a))) (\<lambda>flags.
     mwhen (flags \<noteq> 0) (cs123x_read_adc window call a oid))"

definition cs123x_capture_task ::
  "('s cs123xs_scheme, unit) cmd \<Rightarrow> (signal_fn \<Rightarrow> nat \<Rightarrow> u8 \<Rightarrow> ('s cs123xs_scheme, unit) cmd) \<Rightarrow> ('s cs123xs_scheme, unit) cmd" where
  "cs123x_capture_task window call = mbind (sched_check_wake Cs123x_wake) (\<lambda>w.
     mwhen w (foreach_oid Oid_cs123x (cs123x_capture_one window call)))"

section \<open>Samples\<close>

lemma set_cs_sel [simp]:
  "cs123xs (set_cs a f s) = (cs123xs s)(a := f (cs123xs s a))" "in_sendf (set_cs a f s) = in_sendf s" "sent (set_cs a f s) = sent s"
  by (simp_all add: set_cs_def)

interpretation cs123x: bulk_sensor BYTES_PER_SAMPLE sample_bytes "\<lambda>s. cs_sb (cs123xs s a)" "\<lambda>oid c. cs123x_add_sample a oid c False" for a
proof
  fix s :: "'a cs123xs_scheme" and oid c
  assume "bulk_ok BYTES_PER_SAMPLE (cs_sb (cs123xs s a))" "\<not> in_sendf s"
  then obtain sb' ds where "bulk_add_sample (cs_sb (cs123xs s a)) oid c False s
      = (Inr sb', s\<lparr>sent := sent s @ bulk_messages oid (sb_sequence (cs_sb (cs123xs s a))) ds\<rparr>)"
    "bulk_ok BYTES_PER_SAMPLE sb'" "bulk_pending (cs_sb (cs123xs s a)) @ sample_bytes c = concat ds @ bulk_pending sb'"
    "sb_sequence sb' = sb_sequence (cs_sb (cs123xs s a)) + of_nat (length ds)" "\<forall>d\<in>set ds. length d = block_size BYTES_PER_SAMPLE"
    by (rule bulk_add_sample_run) blast
  then show "\<exists>t ds. cs123x_add_sample a oid c False s = (Inr (), t) \<and> bulk_ok BYTES_PER_SAMPLE (cs_sb (cs123xs t a))
     \<and> in_sendf t = in_sendf s \<and> sent t = sent s @ bulk_messages oid (sb_sequence (cs_sb (cs123xs s a))) ds
     \<and> bulk_pending (cs_sb (cs123xs s a)) @ sample_bytes c = concat ds @ bulk_pending (cs_sb (cs123xs t a))
     \<and> sb_sequence (cs_sb (cs123xs t a)) = sb_sequence (cs_sb (cs123xs s a)) + of_nat (length ds)
     \<and> (\<forall>d\<in>set ds. length d = block_size BYTES_PER_SAMPLE)"
    by (auto simp: cs123x_add_sample_def run_simps)
qed

definition cs_obs :: "nat \<Rightarrow> 's cs123xs_scheme \<Rightarrow> cs123x_adc" where
  "cs_obs a s = (cs123xs s a)\<lparr>cs_flags := 0, cs_sb := (cs_sb (cs123xs s a))\<lparr>sb_possible_overflows := 0\<rparr>\<rparr>"

lemma cs_obs_blind: "pin_blind (cs_obs a)"
  by (simp add: pin_blind_def cs_obs_def)

lemma cs_delays: "pin_blind obs \<Longrightarrow> window_ok CS123X_MIN_PULSE_NS obs cs123x_delay_noirq"
    "pin_blind obs \<Longrightarrow> window_ok CS123X_MIN_PULSE_NS obs cs123x_delay"
  by (simp_all add: cs123x_delay_noirq_def cs123x_delay_def window_delay)

lemma cs123x_event_window: "\<exists>t. cs123x_event a s = (Inr SF_RESCHEDULE, t) \<and> rely (cs_obs a) s t"
  by (auto simp: cs123x_event_def cs123x_is_data_ready_def run_simps rely_def cs_obs_def set_cs_def set_wake_def sched_wake_task_run)

lemma window_pulse:
  assumes "pin_blind obs" "window_ok CS123X_MIN_PULSE_NS obs w"
  shows "window_ok CS123X_MIN_PULSE_NS obs (cs123x_pulse w sclk)"
  unfolding cs123x_pulse_def by (intro window_seq window_toggle cs_delays assms)

lemma window_clk:
  assumes "pin_blind obs" "window_ok CS123X_MIN_PULSE_NS obs w"
  shows "window_ok CS123X_MIN_PULSE_NS obs (cs1237x_generate_clk w sclk n)"
  by (induction n) (auto intro: window_seq window_pulse assms simp: window_skip simp del: ret_run)

lemma cs_rely_error: "rely (cs_obs a) s t \<Longrightarrow> cs_last_error (cs123xs t a) = cs_last_error (cs123xs s a)"
proof -
  assume "rely (cs_obs a) s t"
  then have "cs_last_error (cs_obs a t) = cs_last_error (cs_obs a s)" by (simp add: rely_def)
  then show ?thesis by (simp add: cs_obs_def)
qed

section \<open>What the chip sees\<close>

text \<open>The writes to the two lines, and the level of the data line at each rising edge of the clock.\<close>

definition wires :: "u32 \<Rightarrow> u32 \<Rightarrow> 's hw_scheme \<Rightarrow> (u32 \<times> bool) list" where
  "wires din sclk s = filter (\<lambda>(p, v). p = din \<or> p = sclk) (gpio_log s)"

fun chip_bits :: "u32 \<Rightarrow> u32 \<Rightarrow> bool \<Rightarrow> (u32 \<times> bool) list \<Rightarrow> bool list" where
  "chip_bits din sclk level [] = []"
| "chip_bits din sclk level ((p, v) # ws) =
     (if p = din then chip_bits din sclk v ws
      else if p = sclk \<and> v then level # chip_bits din sclk level ws else chip_bits din sclk level ws)"

text \<open>
  \<open>ws\<close> is what a step puts on the lines; the clock is low before and after it.  The handlers leave the lines
  alone.
\<close>

definition puts :: "u32 \<Rightarrow> u32 \<Rightarrow> (u32 \<times> bool) list \<Rightarrow> ('s hw_scheme, 'a) cmd \<Rightarrow> 'a \<Rightarrow> bool" where
  "puts din sclk ws m r \<longleftrightarrow> (\<forall>s. clock_passes CS123X_MIN_PULSE_NS s \<longrightarrow> \<not> gpio_odr s sclk \<longrightarrow>
     (\<exists>t. m s = (Inr r, t) \<and> clock_passes CS123X_MIN_PULSE_NS t \<and> \<not> gpio_odr t sclk \<and> wires din sclk t = wires din sclk s @ ws))"

definition lines :: "u32 \<Rightarrow> u32 \<Rightarrow> 's hw_scheme \<Rightarrow> bool \<times> (u32 \<times> bool) list" where
  "lines din sclk s = (gpio_odr s sclk, wires din sclk s)"

lemma puts_seq:
  assumes "puts din sclk ws m x" "puts din sclk vs n r"
  shows "puts din sclk (ws @ vs) (mseq m n) r"
  unfolding puts_def
proof (intro allI impI)
  fix s :: "'a hw_scheme" assume "clock_passes CS123X_MIN_PULSE_NS s" "\<not> gpio_odr s sclk"
  then obtain t where t: "m s = (Inr x, t)" "clock_passes CS123X_MIN_PULSE_NS t" "\<not> gpio_odr t sclk" "wires din sclk t = wires din sclk s @ ws"
    using assms(1) by (auto simp: puts_def)
  then obtain u where "n t = (Inr r, u)" "clock_passes CS123X_MIN_PULSE_NS u" "\<not> gpio_odr u sclk" "wires din sclk u = wires din sclk t @ vs"
    using assms(2) by (auto simp: puts_def)
  then show "\<exists>t. mseq m n s = (Inr r, t) \<and> clock_passes CS123X_MIN_PULSE_NS t \<and> \<not> gpio_odr t sclk \<and> wires din sclk t = wires din sclk s @ ws @ vs"
    using t by (simp add: run_simps)
qed

lemma puts_ret: "puts din sclk [] (ret r) r"
  by (simp add: puts_def)

lemma puts_mbind: "puts din sclk ws m x \<Longrightarrow> puts din sclk vs (n x) r \<Longrightarrow> puts din sclk (ws @ vs) (mbind m n) r"
  using puts_seq [of din sclk ws m x vs "n x" r] unfolding puts_def mseq_def mbind_def by (force split: prod.splits sum.splits)

lemma puts_pulse:
  assumes w: "window_ok CS123X_MIN_PULSE_NS (lines din sclk) window"
  shows "puts din sclk [(sclk, True), (sclk, False)] (cs123x_pulse window sclk) ()"
  unfolding puts_def
proof (intro allI impI)
  fix s :: "'a hw_scheme" assume c: "clock_passes CS123X_MIN_PULSE_NS s" and low: "\<not> gpio_odr s sclk"
  have dly: "\<exists>k. pulse_delay CS123X_MIN_PULSE_NS u = (Inr (), u\<lparr>clk_n := k\<rparr>)" if "clock_passes CS123X_MIN_PULSE_NS u" for u :: "'a hw_scheme"
    using pulse_delay_run [OF that] by blast
  let ?s1 = "s\<lparr>gpio_odr := (gpio_odr s)(sclk := True), gpio_log := gpio_log s @ [(sclk, True)]\<rparr>"
  have "clock_passes CS123X_MIN_PULSE_NS ?s1" using c by (simp add: clock_passes_def nsecs_to_ticks_def timer_from_us_def)
  from dly [OF this] obtain k where k: "pulse_delay CS123X_MIN_PULSE_NS ?s1 = (Inr (), ?s1\<lparr>clk_n := k\<rparr>)" by blast
  let ?s2 = "s\<lparr>clk_n := k, gpio_odr := (gpio_odr s)(sclk := False), gpio_log := gpio_log s @ [(sclk, True), (sclk, False)]\<rparr>"
  have c2: "clock_passes CS123X_MIN_PULSE_NS ?s2" using c by (simp add: clock_passes_def nsecs_to_ticks_def timer_from_us_def)
  obtain s3 where s3: "window ?s2 = (Inr (), s3)" "rely (lines din sclk) ?s2 s3" "clock_passes CS123X_MIN_PULSE_NS s3"
    by (rule window_run [OF w c2])
  from dly [OF s3(3)] obtain j where j: "pulse_delay CS123X_MIN_PULSE_NS s3 = (Inr (), s3\<lparr>clk_n := j\<rparr>)" by blast
  have run: "cs123x_pulse window sclk s = (Inr (), s3\<lparr>clk_n := j\<rparr>)"
    using low k s3(1) j by (simp add: cs123x_pulse_def cs123x_delay_noirq_def cs123x_delay_def gpio_out_toggle_noirq_def run_simps)
  have "lines din sclk s3 = lines din sclk ?s2" using s3(2) by (simp add: rely_def)
  then show "\<exists>t. cs123x_pulse window sclk s = (Inr (), t) \<and> clock_passes CS123X_MIN_PULSE_NS t \<and> \<not> gpio_odr t sclk
      \<and> wires din sclk t = wires din sclk s @ [(sclk, True), (sclk, False)]"
    using run s3(3) by (auto simp: lines_def wires_def clock_passes_def nsecs_to_ticks_def timer_from_us_def)
qed

definition pulses :: "u32 \<Rightarrow> nat \<Rightarrow> (u32 \<times> bool) list" where
  "pulses sclk n = concat (replicate n [(sclk, True), (sclk, False)])"

lemma puts_clk:
  assumes w: "window_ok CS123X_MIN_PULSE_NS (lines din sclk) window"
  shows "puts din sclk (pulses sclk n) (cs1237x_generate_clk window sclk n) ()"
proof (induction n)
  case 0
  then show ?case by (simp add: pulses_def puts_ret del: ret_run)
next
  case (Suc n)
  then show ?case using puts_seq [OF puts_pulse [OF w] Suc] by (simp add: pulses_def)
qed

lemma puts_write: "din \<noteq> sclk \<Longrightarrow> puts din sclk [(din, v \<noteq> 0)] (gpio_out_write din v) ()"
  by (auto simp: puts_def gpio_out_write_def wires_def clock_passes_def nsecs_to_ticks_def timer_from_us_def)

lemma puts_reset: "din \<noteq> sclk \<Longrightarrow> puts din sclk [(din, v \<noteq> 0)] (gpio_out_reset din v) ()"
  by (auto simp: puts_def gpio_out_reset_def gpio_out_write_def run_simps wires_def clock_passes_def nsecs_to_ticks_def timer_from_us_def)

lemma puts_low: "puts din sclk [(sclk, False)] (gpio_out_write sclk 0) ()"
  by (auto simp: puts_def gpio_out_write_def wires_def clock_passes_def nsecs_to_ticks_def timer_from_us_def)

lemma puts_in: "puts din sclk [] (gpio_in_reset p u) ()"
  by (auto simp: puts_def gpio_in_reset_def wires_def clock_passes_def nsecs_to_ticks_def timer_from_us_def)

definition sent_bits :: "u32 \<Rightarrow> u32 \<Rightarrow> bool list \<Rightarrow> (u32 \<times> bool) list" where
  "sent_bits din sclk bs = concat (map (\<lambda>b. [(din, b), (sclk, True), (sclk, False)]) bs)"

lemma puts_bits:
  assumes w: "window_ok CS123X_MIN_PULSE_NS (lines din sclk) window" and ne: "din \<noteq> sclk"
  shows "puts din sclk (sent_bits din sclk (map (\<lambda>i. push_bit i val AND high \<noteq> 0) [0..<n])) (cs123x_send_bits window din sclk high n val) ()"
proof (induction n arbitrary: val)
  case 0
  then show ?case by (simp add: sent_bits_def puts_ret del: ret_run)
next
  case (Suc n)
  have m: "map (\<lambda>i. push_bit i val AND high \<noteq> 0) [0..<Suc n]
      = (val AND high \<noteq> 0) # map (\<lambda>i. push_bit i (push_bit 1 val) AND high \<noteq> 0) [0..<n]"
    unfolding upt_conv_Cons [OF zero_less_Suc] list.map map_Suc_upt [symmetric] by (simp add: comp_def)
  show ?case
    using puts_seq [OF puts_write [OF ne] puts_seq [OF puts_pulse [OF w] Suc [of "push_bit 1 val"]], of "val AND high"]
    by (simp add: sent_bits_def m del: upt_Suc)
qed

lemma access_puts:
  assumes w: "window_ok CS123X_MIN_PULSE_NS (lines din sclk) window" and ne: "din \<noteq> sclk"
  shows "puts din sclk (pulses sclk 27 @ [(din, True)] @ pulses sclk 2
      @ sent_bits din sclk (map (\<lambda>i. push_bit i CS123X_WRITE_CONFIG AND 0x40 \<noteq> 0) [0..<7]) @ [] @ pulses sclk 1
      @ (sent_bits din sclk (map (\<lambda>i. push_bit i val AND 0x80 \<noteq> 0) [0..<8]) @ []) @ [] @ pulses sclk 1 @ [(sclk, False)] @ [])
    (cs123x_access window dout din sclk CS123X_WRITE_CONFIG val) 0"
proof -
  note pc = puts_clk [OF w] and pb = puts_bits [OF w ne]
  have r: "puts din sclk [(din, True)] (gpio_out_reset din 1) ()" using puts_reset [OF ne, of 1] by simp
  have i: "puts din sclk [] (mwhen True (gpio_in_reset dout 1)) ()" "puts din sclk [] (mwhen False (gpio_in_reset dout 1)) ()"
    using puts_in puts_ret by (simp_all add: mwhen_def del: ret_run mwhen_run)
  show ?thesis
    unfolding cs123x_access_def Let_def if_True simp_thms
    by (rule puts_seq [OF pc], rule puts_seq [OF r], rule puts_seq [OF pc], rule puts_seq [OF pb], rule puts_seq [OF i(2)],
        rule puts_seq [OF pc], rule puts_mbind, rule puts_seq [OF pb puts_ret], rule puts_seq [OF i(1)], rule puts_seq [OF pc],
        rule puts_seq [OF puts_low puts_ret])
qed

lemma chip_pulses: "din \<noteq> sclk \<Longrightarrow> chip_bits din sclk l (pulses sclk n @ ws) = replicate n l @ chip_bits din sclk l ws"
  by (induction n) (auto simp: pulses_def)

lemma chip_sent:
  "din \<noteq> sclk \<Longrightarrow> chip_bits din sclk l (sent_bits din sclk bs @ ws) = bs @ chip_bits din sclk (if bs = [] then l else last bs) ws"
  by (induction bs arbitrary: l) (auto simp: sent_bits_def)

lemma low_byte_bits: "msb_value (map (\<lambda>i. push_bit i val AND 0x80 \<noteq> 0) [0..<8]) = unat (val AND 0xff)" for val :: u32
proof -
  have b: "(push_bit i val AND 0x80 \<noteq> 0) = bit val (7 - i)" if "i < 8" for i
    using that and_exp_eq_0_iff_not_bit [of "push_bit i val" 7] by (auto simp: bit_push_bit_iff)
  then have "map (\<lambda>i. push_bit i val AND 0x80 \<noteq> 0) [0..<8] = map (\<lambda>i. bit val (7 - i)) [0..<8]" by simp
  moreover have "map (\<lambda>i. bit val (7 - i)) [0..<8] = rev (map (bit val) [0..<8])"
    by (rule nth_equalityI) (auto simp: rev_nth)
  moreover have "msb_value (rev bs) = horner_sum of_bool 2 bs" for bs
    by (induction bs) simp_all
  moreover have "unat (val AND 0xff) = horner_sum of_bool 2 (map (bit (unat val)) [0..<8])"
    unfolding horner_sum_bit_eq_take_bit unsigned_take_bit_eq [symmetric] by (simp add: take_bit_eq_mask mask_eq_exp_minus_1)
  moreover have "map (bit (unat val)) [0..<8] = map (bit val) [0..<8]" by (simp add: bit_unsigned_iff)
  ultimately show ?thesis by simp
qed

lemma wait_ready_now: "\<not> gpio_idr s (idr_n s) dout \<Longrightarrow> cs123x_wait_ready dout t s = (Inr True, s\<lparr>idr_n := Suc (idr_n s)\<rparr>)"
  unfolding cs123x_wait_ready_def by (rule cloop_return) (simp add: run_simps)

lemma wait_ready_late:
  assumes "\<forall>i. gpio_idr s i dout" "clk_n s \<le> m" "timer_is_before t (clk s m)"
  shows "\<exists>k n. cs123x_wait_ready dout t s = (Inr False, s\<lparr>clk_n := k, idr_n := n\<rparr>)"
  using assms
proof (induction "m - clk_n s" arbitrary: s rule: less_induct)
  case less
  let ?s = "s\<lparr>clk_n := Suc (clk_n s), idr_n := Suc (idr_n s)\<rparr>"
  show ?case
  proof (cases "timer_is_before t (clk s (clk_n s))")
    case True
    then show ?thesis using less.prems unfolding cs123x_wait_ready_def
      by (intro exI [of _ "Suc (clk_n s)"] exI [of _ "Suc (idr_n s)"] cloop_return) (simp add: run_simps)
  next
    case False
    then have "clk_n s < m" using less.prems by (cases "clk_n s = m") auto
    then obtain k n where kn: "cs123x_wait_ready dout t ?s = (Inr False, ?s\<lparr>clk_n := k, idr_n := n\<rparr>)"
      using less.hyps [of ?s] less.prems by fastforce
    have "cs123x_wait_ready dout t s = cs123x_wait_ready dout t ?s"
      using kn False less.prems unfolding cs123x_wait_ready_def by (intro cloop_step) (simp_all add: run_simps)
    then show ?thesis using kn by auto
  qed
qed

text \<open>A chip that does not answer: the driver gives up, and the lines see no pulse.\<close>

lemma cs123x_config_times_out:
  assumes "\<forall>i. gpio_idr s i dout" "clk_n s < m" "timer_is_before (clk s (clk_n s) + timer_from_us s 200000) (clk s m)"
  shows "\<exists>t. cs123x_config window dout din sclk cmd val s = (Inr 0xff, t) \<and> wires din sclk t = wires din sclk s @ [(sclk, False)]"
proof -
  let ?s = "s\<lparr>clk_n := Suc (clk_n s), gpio_odr := (gpio_odr s)(sclk := False), gpio_log := gpio_log s @ [(sclk, False)]\<rparr>"
  let ?t = "clk s (clk_n s) + timer_from_us s 200000"
  obtain k n where "cs123x_wait_ready dout ?t ?s = (Inr False, ?s\<lparr>clk_n := k, idr_n := n\<rparr>)"
    using wait_ready_late [of ?s dout m ?t] assms by auto
  then show ?thesis
    by (simp add: cs123x_config_def run_simps gpio_out_write_def timer_from_us_def wires_def del: cs1237x_generate_clk.simps)
qed

section \<open>Properties\<close>

text \<open>As for the HX71x, the samples that the driver adds arrive at the host complete, in order and numbered.\<close>

lemma cs123x_samples_delivered:
  assumes "bulk_ok BYTES_PER_SAMPLE (cs_sb (cs123xs s a))" "\<not> in_sendf s"
  shows "\<exists>t ds. foldr (\<lambda>c. mseq (cs123x_add_sample a oid c False)) cs (ret ()) s = (Inr (), t)
    \<and> bulk_ok BYTES_PER_SAMPLE (cs_sb (cs123xs t a)) \<and> sent t = sent s @ bulk_messages oid (sb_sequence (cs_sb (cs123xs s a))) ds
    \<and> bulk_pending (cs_sb (cs123xs s a)) @ concat (map sample_bytes cs) = concat ds @ bulk_pending (cs_sb (cs123xs t a))
    \<and> sb_sequence (cs_sb (cs123xs t a)) = sb_sequence (cs_sb (cs123xs s a)) + of_nat (length ds)
    \<and> (\<forall>d\<in>set ds. length d = block_size BYTES_PER_SAMPLE)"
  using assms by (rule cs123x.samples_delivered)

text \<open>
  Ending the measurements leaves the clock line low, although the chip powers down when it is high: a comment in the code
  says so.
\<close>

lemma cs123x_stop_clock_low:
  assumes "command_query_cs123x args s = (Inr (), t)" "args ! 1 = 0"
  shows "\<exists>a. \<not> gpio_odr t (cs_sclk (cs123xs t a)) \<and> last (gpio_log t) = (cs_sclk (cs123xs t a), False)"
  using assms unfolding command_query_cs123x_def
  by (elim mbind_cases mseq_cases) (auto simp: gpio_out_write_def)



definition cs123xs_static :: cs123xs where
  "cs123xs_static = hx71xs.extend hx71xs_static \<lparr>cs123xs = (\<lambda>_. zero_cs123x)\<rparr>"

lemmas cs123xs_static_simps = hx71xs_static_simps cs123xs_static_def hx71xs.extend_def

text \<open>A chip whose data line is low, with a clock that runs.\<close>

definition example_cs123x :: cs123xs where
  "example_cs123x = cs123xs_static\<lparr>clk := (\<lambda>n. of_nat (1000 * n)), cs123xs := (\<lambda>_. zero_cs123x\<lparr>cs_dout := 5, cs_din := 5, cs_sclk := 6\<rparr>)\<rparr>"

lemma example_cs123x_fields:
  "cs123xs example_cs123x 600 = zero_cs123x\<lparr>cs_dout := 5, cs_din := 5, cs_sclk := 6\<rparr>" "\<not> gpio_idr example_cs123x i p"
  "clk example_cs123x n = of_nat (1000 * n)" "clk_n example_cs123x = 0" "clock_mhz example_cs123x = 100" "wires d c example_cs123x = []"
  by (simp_all add: example_cs123x_def wires_def cs123xs_static_simps)

lemma example_cs_clock: "clock_passes CS123X_MIN_PULSE_NS example_cs123x"
  unfolding clock_passes_def
proof
  fix n
  have k: "nsecs_to_ticks example_cs123x CS123X_MIN_PULSE_NS = 50"
    unfolding nsecs_to_ticks_def timer_from_us_def example_cs123x_fields CS123X_MIN_PULSE_NS_def by code_simp
  have "timer_is_before (clk example_cs123x (Suc n)) (clk example_cs123x n + nsecs_to_ticks example_cs123x CS123X_MIN_PULSE_NS) = False"
    unfolding k by (simp add: example_cs123x_fields timer_is_before_def algebra_simps)
  then show "\<exists>m>n. \<not> timer_is_before (clk example_cs123x m) (clk example_cs123x n + nsecs_to_ticks example_cs123x CS123X_MIN_PULSE_NS)"
    by blast
qed



end
