(* ===== verification/Ads1220.thy ===== *)
theory Ads1220
  imports Cs123x
begin

text \<open>
  The converter ADS1220, \<open>src/src/sensor_ads1220.c\<close>: a timer looks for a sample, a task reads it over SPI and
  collects it in the bulk buffer.  \<open>ws\<close> is CONFIG_WANT_SOFTWARE_SPI.  The task is one step.
\<close>

section \<open>State\<close>

record ads1220_adc =
  ads_rest_ticks :: u32
  ads_data_ready :: u32
  ads_spi :: "nat option"
  ads_pending_flag :: u8
  ads_sb :: sensor_bulk

record ads1220s = cs123xs +
  ads1220s :: "nat \<Rightarrow> ads1220_adc"

definition SIZEOF_ads1220_adc :: nat where "SIZEOF_ads1220_adc = 88"

definition set_ads :: "nat \<Rightarrow> (ads1220_adc \<Rightarrow> ads1220_adc) \<Rightarrow> 's ads1220s_scheme \<Rightarrow> 's ads1220s_scheme" where
  "set_ads a f s = s\<lparr>ads1220s := (ads1220s s)(a := f (ads1220s s a))\<rparr>"

definition zero_ads1220 :: ads1220_adc where
  "zero_ads1220 = \<lparr>ads_rest_ticks = 0, ads_data_ready = 0, ads_spi = None, ads_pending_flag = 0, ads_sb = zero_bulk\<rparr>"

section \<open>Sampling\<close>

definition ads1220_is_data_ready :: "nat \<Rightarrow> ('s ads1220s_scheme, bool) cmd" where
  "ads1220_is_data_ready a = mbind (gets (\<lambda>s. ads_data_ready (ads1220s s a))) (\<lambda>g. mbind (gpio_in_read g) (\<lambda>b. ret (\<not> b)))"

definition ads1220_event :: "nat \<Rightarrow> ('s ads1220s_scheme, sf) cmd" where
  "ads1220_event a = mbind (gets (\<lambda>s. ads1220s s a)) (\<lambda>h.
     mbind (if ads_pending_flag h \<noteq> 0 then
              mseq (modify (set_ads a (\<lambda>h. h\<lparr>ads_sb := (ads_sb h)\<lparr>sb_possible_overflows := sb_possible_overflows (ads_sb h) + 1\<rparr>\<rparr>)))
              (ret (ads_rest_ticks h * 4))
            else mbind (ads1220_is_data_ready a) (\<lambda>ready.
              if ready then mseq (modify (set_ads a (\<lambda>h. h\<lparr>ads_pending_flag := 1\<rparr>)))
                (mseq (sched_wake_task Ads1220_wake) (ret (ads_rest_ticks h * 8)))
              else ret (ads_rest_ticks h))) (\<lambda>rest_ticks.
     mseq (modify (\<lambda>s. set_wake (Obj_timer a 0) (waketime s (Obj_timer a 0) + rest_ticks) s)) (ret SF_RESCHEDULE)))"

definition ads1220_add_sample :: "nat \<Rightarrow> u8 \<Rightarrow> u32 \<Rightarrow> ('s ads1220s_scheme, unit) cmd" where
  "ads1220_add_sample a oid counts = mbind (gets (\<lambda>s. ads_sb (ads1220s s a))) (\<lambda>sb.
     mbind (bulk_put BYTES_PER_SAMPLE sb oid (sample_bytes counts) False) (\<lambda>sb. modify (set_ads a (\<lambda>h. h\<lparr>ads_sb := sb\<rparr>))))"

definition ads1220_read_adc :: "bool \<Rightarrow> nat \<Rightarrow> u8 \<Rightarrow> ('s ads1220s_scheme, unit) cmd" where
  "ads1220_read_adc ws a oid =
     mbind (mbind (gets (\<lambda>s. ads_spi (ads1220s s a))) deref) (\<lambda>spi.
     mbind (spidev_transfer ws spi True [0, 0, 0]) (\<lambda>msg.
     mseq (modify (set_ads a (\<lambda>h. h\<lparr>ads_pending_flag := 0\<rparr>)))
     (let counts = push_bit 16 (ucast (msg ! 0)) OR push_bit 8 (ucast (msg ! 1)) OR ucast (msg ! 2) in
      ads1220_add_sample a oid (extend24 counts))))"

section \<open>Commands\<close>

definition command_config_ads1220 :: "u32 list \<Rightarrow> ('s ads1220s_scheme, unit) cmd" where
  "command_config_ads1220 args = mbind (oid_alloc (ucast (args ! 0)) Oid_ads1220 SIZEOF_ads1220_adc) (\<lambda>a.
     mseq (modify (\<lambda>s. set_ads a (\<lambda>_. zero_ads1220) (zero_timer (Obj_timer a 0) s))) (
     mseq (modify (set_func (Obj_timer a 0) (Some Ads1220_event))) (
     mseq (modify (set_ads a (\<lambda>h. h\<lparr>ads_pending_flag := 0\<rparr>))) (
     mbind (spidev_oid_lookup (ucast (args ! 1))) (\<lambda>spi.
     mseq (modify (set_ads a (\<lambda>h. h\<lparr>ads_spi := Some spi\<rparr>))) (
     mbind (gpio_in_setup (args ! 2) 0) (\<lambda>g.
     modify (set_ads a (\<lambda>h. h\<lparr>ads_data_ready := g\<rparr>)))))))))"

definition command_query_ads1220 :: "u32 list \<Rightarrow> ('s ads1220s_scheme, unit) cmd" where
  "command_query_ads1220 args =
     mbind (mbind (oid_lookup ''command_query_ads1220'' (ucast (args ! 0)) Oid_ads1220) deref) (\<lambda>a.
     mseq (sched_del_timer (Obj_timer a 0)) (
     mseq (modify (set_ads a (\<lambda>h. h\<lparr>ads_pending_flag := 0, ads_rest_ticks := args ! 1\<rparr>))) (
     if args ! 1 = 0 then ret ()
     else
       mseq (modify (set_ads a (\<lambda>h. h\<lparr>ads_sb := sensor_bulk_reset (ads_sb h)\<rparr>))) (
       mbind timer_read_time (\<lambda>now.
       mseq (modify (set_wake (Obj_timer a 0) (now + args ! 1)))
       (sched_add_timer ''command_query_ads1220'' (Obj_timer a 0)))))))"

definition command_query_ads1220_status :: "u32 list \<Rightarrow> ('s ads1220s_scheme, unit) cmd" where
  "command_query_ads1220_status args =
     (let oid = ucast (args ! 0) in
      mbind (mbind (oid_lookup ''command_query_ads1220_status'' oid Oid_ads1220) deref) (\<lambda>a.
      mbind timer_read_time (\<lambda>start_t.
      mbind (ads1220_is_data_ready a) (\<lambda>ready.
      mbind (gets (\<lambda>s. ads_sb (ads1220s s a))) (\<lambda>sb.
      sensor_bulk_status sb oid start_t 0 (if ready then of_nat BYTES_PER_SAMPLE else 0))))))"

definition ads1220_capture_task :: "bool \<Rightarrow> ('s ads1220s_scheme, unit) cmd" where
  "ads1220_capture_task ws = mbind (sched_check_wake Ads1220_wake) (\<lambda>w.
     mwhen w (foreach_oid Oid_ads1220 (\<lambda>oid a. mbind (gets (\<lambda>s. ads_pending_flag (ads1220s s a))) (\<lambda>pending.
       mwhen (pending \<noteq> 0) (ads1220_read_adc ws a oid)))))"

section \<open>Samples\<close>

lemma set_ads_sel [simp]:
  "ads1220s (set_ads a f s) = (ads1220s s)(a := f (ads1220s s a))" "in_sendf (set_ads a f s) = in_sendf s" "sent (set_ads a f s) = sent s"
  by (simp_all add: set_ads_def)

interpretation ads1220: bulk_sensor BYTES_PER_SAMPLE sample_bytes "\<lambda>s. ads_sb (ads1220s s a)" "ads1220_add_sample a" for a
proof
  fix s :: "'a ads1220s_scheme" and oid c
  assume "bulk_ok BYTES_PER_SAMPLE (ads_sb (ads1220s s a))" "\<not> in_sendf s"
  then obtain sb' ds where "bulk_add_sample (ads_sb (ads1220s s a)) oid c False s
      = (Inr sb', s\<lparr>sent := sent s @ bulk_messages oid (sb_sequence (ads_sb (ads1220s s a))) ds\<rparr>)"
    "bulk_ok BYTES_PER_SAMPLE sb'" "bulk_pending (ads_sb (ads1220s s a)) @ sample_bytes c = concat ds @ bulk_pending sb'"
    "sb_sequence sb' = sb_sequence (ads_sb (ads1220s s a)) + of_nat (length ds)" "\<forall>d\<in>set ds. length d = block_size BYTES_PER_SAMPLE"
    by (rule bulk_add_sample_run) blast
  then show "\<exists>t ds. ads1220_add_sample a oid c s = (Inr (), t) \<and> bulk_ok BYTES_PER_SAMPLE (ads_sb (ads1220s t a))
     \<and> in_sendf t = in_sendf s \<and> sent t = sent s @ bulk_messages oid (sb_sequence (ads_sb (ads1220s s a))) ds
     \<and> bulk_pending (ads_sb (ads1220s s a)) @ sample_bytes c = concat ds @ bulk_pending (ads_sb (ads1220s t a))
     \<and> sb_sequence (ads_sb (ads1220s t a)) = sb_sequence (ads_sb (ads1220s s a)) + of_nat (length ds)
     \<and> (\<forall>d\<in>set ds. length d = block_size BYTES_PER_SAMPLE)"
    by (auto simp: ads1220_add_sample_def bulk_add_sample_def run_simps)
qed

text \<open>A device on a hardware bus: a transfer exchanges the bytes of the bus and leaves everything else but the select pin.\<close>

definition hard_spi :: "nat \<Rightarrow> 's spis_scheme \<Rightarrow> bool" where
  "hard_spi a s \<longleftrightarrow> p_flags (spidevs s a) AND SF_SOFTWARE = 0 \<and> p_flags (spidevs s a) AND SF_HARDWARE \<noteq> 0"

definition spi_next :: "nat \<Rightarrow> 's spis_scheme \<Rightarrow> u8 list" where
  "spi_next n s = map (\<lambda>i. spi_in s (spi_n s + i)) [0..<n]"

lemma spi_next_length [simp]: "length (spi_next n s) = n"
  by (simp add: spi_next_def)

lemma spi_next_nth [simp]: "i < n \<Longrightarrow> spi_next n s ! i = spi_in s (spi_n s + i)"
  by (simp add: spi_next_def)

lemma hard_spi_transfer:
  assumes "hard_spi spi s" "length data = n"
  shows "\<exists>odr log. spidev_transfer ws spi True data s = (Inr (spi_next n s),
    s\<lparr>spi_n := spi_n s + n, spi_log := spi_log s @ data, gpio_odr := odr, gpio_log := log\<rparr>)"
proof -
  have "p_flags (spidevs s spi) AND SF_HARDWARE = (p_flags (spidevs s spi) AND (SF_SOFTWARE OR SF_HARDWARE)) AND SF_HARDWARE"
    by (simp add: spi_flags and.assoc)
  then have f: "p_flags (spidevs s spi) AND SF_SOFTWARE = 0" "p_flags (spidevs s spi) AND (SF_SOFTWARE OR SF_HARDWARE) \<noteq> 0"
    using assms by (auto simp: hard_spi_def)
  show ?thesis
    using f assms(2) by (simp add: spi_next_def spidev_transfer_def spi_transfer_def run_simps Let_def gpio_out_write_def mwhen_def)
      (cases s, fastforce)
qed

text \<open>Three bytes as a signed number, the highest first.\<close>

lemma be24_value:
  "push_bit 16 (ucast a) OR push_bit 8 (ucast b) OR ucast c = (of_nat (65536 * unat a + 256 * unat b + unat c) :: u32)"
  for a b c :: u8
proof -
  have "push_bit 16 (ucast a) OR push_bit 8 (ucast b) OR ucast c = push_bit 8 (push_bit 8 (ucast a) OR ucast b) OR (ucast c :: u32)"
    by (simp add: push_bit_or or.assoc)
  then show ?thesis unfolding shift_in_byte by (simp add: algebra_simps)
qed

lemma ads1220_sample_read:
  assumes "ads_spi (ads1220s s a) = Some spi" "hard_spi spi s"
  defines "v \<equiv> 65536 * unat (spi_in s (spi_n s)) + 256 * unat (spi_in s (spi_n s + 1)) + unat (spi_in s (spi_n s + 2))"
  shows "\<exists>t c. ads1220_read_adc ws a oid s = ads1220_add_sample a oid c t \<and> sint c = int v - (if 2 ^ 23 \<le> v then 2 ^ 24 else 0)
    \<and> spi_log t = spi_log s @ [0, 0, 0] \<and> ads1220s t a = (ads1220s s a)\<lparr>ads_pending_flag := 0\<rparr> \<and> sent t = sent s \<and> in_sendf t = in_sendf s"
proof -
  obtain odr log where x: "spidev_transfer ws spi True [0, 0, 0] s = (Inr (spi_next 3 s),
      s\<lparr>spi_n := spi_n s + 3, spi_log := spi_log s @ [0, 0, 0], gpio_odr := odr, gpio_log := log\<rparr>)"
    using hard_spi_transfer [OF assms(2), of "[0, 0, 0]" 3 ws] by auto
  have "v < 2 ^ 24"
    unfolding v_def using unat_bounds(1) [of "spi_in s (spi_n s)"] unat_bounds(1) [of "spi_in s (spi_n s + 1)"]
      unat_bounds(1) [of "spi_in s (spi_n s + 2)"] by simp
  then have c: "sint (extend24 (of_nat v)) = int v - (if 2 ^ 23 \<le> v then 2 ^ 24 else 0)" by (rule extend24_value)
  let ?t = "set_ads a (\<lambda>h. h\<lparr>ads_pending_flag := 0\<rparr>) (s\<lparr>spi_n := spi_n s + 3, spi_log := spi_log s @ [0, 0, 0], gpio_odr := odr, gpio_log := log\<rparr>)"
  have "v = 65536 * unat (spi_next 3 s ! 0) + 256 * unat (spi_next 3 s ! 1) + unat (spi_next 3 s ! 2)" by (simp add: v_def)
  then have "ads1220_read_adc ws a oid s = ads1220_add_sample a oid (extend24 (of_nat v)) ?t"
    by (simp add: ads1220_read_adc_def run_simps assms(1) deref_def x be24_value del: of_nat_add of_nat_mult)
  then show ?thesis using c by (intro exI [of _ ?t] exI [of _ "extend24 (of_nat v)"]) (simp add: set_ads_def)
qed

end
