(* ===== verification/Accel.thy ===== *)
theory Accel
  imports Ads1220
begin

text \<open>
  The accelerometers ADXL345 and LIS2DW, \<open>src/src/sensor_adxl345.c\<close> and \<open>src/src/sensor_lis2dw.c\<close>: a timer starts
  the readings, a task reads the chip over SPI until its queue is empty, packs the readings and sleeps until the timer again.
  \<open>ws\<close> is CONFIG_WANT_SOFTWARE_SPI.  The tasks are single steps.
\<close>

section \<open>State\<close>

record adxl345 =
  ax_rest_ticks :: u32
  ax_spi :: "nat option"
  ax_flags :: u8
  ax_sb :: sensor_bulk

record lis2dw =
  lis_rest_ticks :: u32
  lis_spi :: "nat option"
  lis_flags :: u8
  lis_sb :: sensor_bulk

record accels = ads1220s +
  adxl345s :: "nat \<Rightarrow> adxl345"
  lis2dws :: "nat \<Rightarrow> lis2dw"

definition AX_PENDING :: u8 where "AX_PENDING = 1"
definition LIS_PENDING :: u8 where "LIS_PENDING = 1"

definition SIZEOF_adxl345 :: nat where "SIZEOF_adxl345 = 80"
definition SIZEOF_lis2dw :: nat where "SIZEOF_lis2dw = 80"

definition set_ax :: "nat \<Rightarrow> (adxl345 \<Rightarrow> adxl345) \<Rightarrow> 's accels_scheme \<Rightarrow> 's accels_scheme" where
  "set_ax a f s = s\<lparr>adxl345s := (adxl345s s)(a := f (adxl345s s a))\<rparr>"

definition set_lis :: "nat \<Rightarrow> (lis2dw \<Rightarrow> lis2dw) \<Rightarrow> 's accels_scheme \<Rightarrow> 's accels_scheme" where
  "set_lis a f s = s\<lparr>lis2dws := (lis2dws s)(a := f (lis2dws s a))\<rparr>"

definition zero_adxl345 :: adxl345 where
  "zero_adxl345 = \<lparr>ax_rest_ticks = 0, ax_spi = None, ax_flags = 0, ax_sb = zero_bulk\<rparr>"

definition zero_lis2dw :: lis2dw where
  "zero_lis2dw = \<lparr>lis_rest_ticks = 0, lis_spi = None, lis_flags = 0, lis_sb = zero_bulk\<rparr>"

section \<open>The ADXL345\<close>

definition adxl345_event :: "nat \<Rightarrow> ('s accels_scheme, sf) cmd" where
  "adxl345_event a = mseq (modify (set_ax a (\<lambda>h. h\<lparr>ax_flags := ax_flags h OR AX_PENDING\<rparr>)))
     (mseq (sched_wake_task Adxl345_wake) (ret SF_DONE))"

definition command_config_adxl345 :: "u32 list \<Rightarrow> ('s accels_scheme, unit) cmd" where
  "command_config_adxl345 args = mbind (oid_alloc (ucast (args ! 0)) Oid_adxl345 SIZEOF_adxl345) (\<lambda>a.
     mseq (modify (\<lambda>s. set_ax a (\<lambda>_. zero_adxl345) (zero_timer (Obj_timer a 0) s))) (
     mseq (modify (set_func (Obj_timer a 0) (Some Adxl345_event))) (
     mbind (spidev_oid_lookup (ucast (args ! 1))) (\<lambda>spi.
     modify (set_ax a (\<lambda>h. h\<lparr>ax_spi := Some spi\<rparr>))))))"

definition adxl_reschedule_timer :: "nat \<Rightarrow> ('s accels_scheme, unit) cmd" where
  "adxl_reschedule_timer a = mbind timer_read_time (\<lambda>now.
     mseq (modify (\<lambda>s. set_wake (Obj_timer a 0) (now + ax_rest_ticks (adxl345s s a)) s))
     (sched_add_timer ''adxl_reschedule_timer'' (Obj_timer a 0)))"

text \<open>
  What the chip sends: a byte while the register is addressed, three readings of two bytes, the control and the status
  of its queue.  A reading outside of 13 bits or a wrong control byte is a transmission error.
\<close>

definition adxl_read_status :: "u8 list \<Rightarrow> u32" where
  "adxl_read_status msg = ucast (msg ! 8 AND NOT 0x80)"

definition adxl_data_error :: "u8 list \<Rightarrow> bool" where
  "adxl_data_error msg \<longleftrightarrow>
     (msg ! 2 AND 0xf0 \<noteq> 0 \<and> msg ! 2 AND 0xf0 \<noteq> 0xf0) \<or> (msg ! 4 AND 0xf0 \<noteq> 0 \<and> msg ! 4 AND 0xf0 \<noteq> 0xf0)
     \<or> (msg ! 6 AND 0xf0 \<noteq> 0 \<and> msg ! 6 AND 0xf0 \<noteq> 0xf0) \<or> msg ! 7 \<noteq> 0x90 \<or> adxl_read_status msg > 32"

definition adxl_bytes :: "u8 list \<Rightarrow> u8 list" where
  "adxl_bytes msg = (if adxl_data_error msg then [0xff, 0xff, 0xff, 0xff, 0xff]
     else [msg ! 1, msg ! 3, msg ! 5, (msg ! 2 AND 0x1f) OR push_bit 5 (msg ! 6),
           (msg ! 4 AND 0x1f) OR (push_bit 2 (msg ! 6) AND 0x60)])"

definition adxl_store :: "nat \<Rightarrow> u8 \<Rightarrow> u8 list \<Rightarrow> ('s accels_scheme, unit) cmd" where
  "adxl_store a oid msg = mbind (gets (\<lambda>s. ax_sb (adxl345s s a))) (\<lambda>sb.
     mbind (bulk_put 5 sb oid (adxl_bytes msg) False) (\<lambda>sb. modify (set_ax a (\<lambda>h. h\<lparr>ax_sb := sb\<rparr>))))"

definition adxl_query :: "bool \<Rightarrow> nat \<Rightarrow> u8 \<Rightarrow> ('s accels_scheme, unit) cmd" where
  "adxl_query ws a oid =
     mbind (mbind (gets (\<lambda>s. ax_spi (adxl345s s a))) deref) (\<lambda>spi.
     mbind (spidev_transfer ws spi True [0x32 OR 0x80 OR 0x40, 0, 0, 0, 0, 0, 0, 0, 0]) (\<lambda>msg.
     let fifo_status = (if adxl_data_error msg then 0 else adxl_read_status msg) in
     mseq (adxl_store a oid msg) (
     mseq (mwhen (fifo_status \<ge> 31) (modify (set_ax a (\<lambda>h. h\<lparr>ax_sb := (ax_sb h)\<lparr>sb_possible_overflows := sb_possible_overflows (ax_sb h) + 1\<rparr>\<rparr>)))) (
     if fifo_status > 1 then sched_wake_task Adxl345_wake
     else mseq (modify (set_ax a (\<lambda>h. h\<lparr>ax_flags := ax_flags h AND NOT AX_PENDING\<rparr>))) (adxl_reschedule_timer a)))))"

definition command_query_adxl345 :: "u32 list \<Rightarrow> ('s accels_scheme, unit) cmd" where
  "command_query_adxl345 args =
     mbind (mbind (oid_lookup ''command_query_adxl345'' (ucast (args ! 0)) Oid_adxl345) deref) (\<lambda>a.
     mseq (sched_del_timer (Obj_timer a 0)) (
     mseq (modify (set_ax a (\<lambda>h. h\<lparr>ax_flags := 0\<rparr>))) (
     if args ! 1 = 0 then ret ()
     else mseq (modify (set_ax a (\<lambda>h. h\<lparr>ax_rest_ticks := args ! 1, ax_sb := sensor_bulk_reset (ax_sb h)\<rparr>)))
       (adxl_reschedule_timer a))))"

definition command_query_adxl345_status :: "bool \<Rightarrow> u32 list \<Rightarrow> ('s accels_scheme, unit) cmd" where
  "command_query_adxl345_status ws args =
     mbind (mbind (oid_lookup ''command_query_adxl345_status'' (ucast (args ! 0)) Oid_adxl345) deref) (\<lambda>a.
     mbind timer_read_time (\<lambda>time1.
     mbind (mbind (gets (\<lambda>s. ax_spi (adxl345s s a))) deref) (\<lambda>spi.
     mbind (spidev_transfer ws spi True [0x39 OR 0x80, 0]) (\<lambda>msg.
     mbind timer_read_time (\<lambda>time2.
     let fifo_status = ucast (msg ! 1 AND NOT 0x80) :: u32 in
     if fifo_status > 32 then ret ()
     else mbind (gets (\<lambda>s. ax_sb (adxl345s s a))) (\<lambda>sb.
       sensor_bulk_status sb (ucast (args ! 0)) time1 (time2 - time1) (fifo_status * 5)))))))"

definition adxl345_task :: "bool \<Rightarrow> ('s accels_scheme, unit) cmd" where
  "adxl345_task ws = mbind (sched_check_wake Adxl345_wake) (\<lambda>w.
     mwhen w (foreach_oid Oid_adxl345 (\<lambda>oid a. mbind (gets (\<lambda>s. ax_flags (adxl345s s a))) (\<lambda>flags.
       mwhen (flags AND AX_PENDING \<noteq> 0) (adxl_query ws a oid)))))"

section \<open>The LIS2DW\<close>

definition lis2dw_event :: "nat \<Rightarrow> ('s accels_scheme, sf) cmd" where
  "lis2dw_event a = mseq (modify (set_lis a (\<lambda>h. h\<lparr>lis_flags := lis_flags h OR LIS_PENDING\<rparr>)))
     (mseq (sched_wake_task Lis2dw_wake) (ret SF_DONE))"

definition command_config_lis2dw :: "u32 list \<Rightarrow> ('s accels_scheme, unit) cmd" where
  "command_config_lis2dw args = mbind (oid_alloc (ucast (args ! 0)) Oid_lis2dw SIZEOF_lis2dw) (\<lambda>a.
     mseq (modify (\<lambda>s. set_lis a (\<lambda>_. zero_lis2dw) (zero_timer (Obj_timer a 0) s))) (
     mseq (modify (set_func (Obj_timer a 0) (Some Lis2dw_event))) (
     mbind (spidev_oid_lookup (ucast (args ! 1))) (\<lambda>spi.
     modify (set_lis a (\<lambda>h. h\<lparr>lis_spi := Some spi\<rparr>))))))"

definition lis2dw_reschedule_timer :: "nat \<Rightarrow> ('s accels_scheme, unit) cmd" where
  "lis2dw_reschedule_timer a = mbind timer_read_time (\<lambda>now.
     mseq (modify (\<lambda>s. set_wake (Obj_timer a 0) (now + lis_rest_ticks (lis2dws s a)) s))
     (sched_add_timer ''lis2dw_reschedule_timer'' (Obj_timer a 0)))"

definition lis2dw_bytes :: "u8 list \<Rightarrow> u8 list" where
  "lis2dw_bytes msg = [msg ! 1, msg ! 2, msg ! 3, msg ! 4, msg ! 5, msg ! 6]"

definition lis2dw_store :: "nat \<Rightarrow> u8 \<Rightarrow> u8 list \<Rightarrow> ('s accels_scheme, unit) cmd" where
  "lis2dw_store a oid msg = mbind (gets (\<lambda>s. lis_sb (lis2dws s a))) (\<lambda>sb.
     mbind (bulk_put 6 sb oid (lis2dw_bytes msg) False) (\<lambda>sb. modify (set_lis a (\<lambda>h. h\<lparr>lis_sb := sb\<rparr>))))"

definition lis2dw_query :: "bool \<Rightarrow> nat \<Rightarrow> u8 \<Rightarrow> ('s accels_scheme, unit) cmd" where
  "lis2dw_query ws a oid =
     mbind (mbind (gets (\<lambda>s. lis_spi (lis2dws s a))) deref) (\<lambda>spi.
     mbind (spidev_transfer ws spi True [0x28 OR 0xC0, 0, 0, 0, 0, 0, 0]) (\<lambda>msg.
     mbind (spidev_transfer ws spi True [0x2F OR 0xC0, 0]) (\<lambda>fifo.
     let fifo_empty = fifo ! 1 AND 0x3F; fifo_ovrn = fifo ! 1 AND 0x40 in
     mseq (lis2dw_store a oid msg) (
     mseq (mwhen (fifo_ovrn \<noteq> 0) (modify (set_lis a (\<lambda>h. h\<lparr>lis_sb := (lis_sb h)\<lparr>sb_possible_overflows := sb_possible_overflows (lis_sb h) + 1\<rparr>\<rparr>)))) (
     if fifo_empty = 0 then sched_wake_task Lis2dw_wake
     else mseq (modify (set_lis a (\<lambda>h. h\<lparr>lis_flags := lis_flags h AND NOT LIS_PENDING\<rparr>))) (lis2dw_reschedule_timer a))))))"

definition command_query_lis2dw :: "u32 list \<Rightarrow> ('s accels_scheme, unit) cmd" where
  "command_query_lis2dw args =
     mbind (mbind (oid_lookup ''command_query_lis2dw'' (ucast (args ! 0)) Oid_lis2dw) deref) (\<lambda>a.
     mseq (sched_del_timer (Obj_timer a 0)) (
     mseq (modify (set_lis a (\<lambda>h. h\<lparr>lis_flags := 0\<rparr>))) (
     if args ! 1 = 0 then ret ()
     else mseq (modify (set_lis a (\<lambda>h. h\<lparr>lis_rest_ticks := args ! 1, lis_sb := sensor_bulk_reset (lis_sb h)\<rparr>)))
       (lis2dw_reschedule_timer a))))"

definition command_query_lis2dw_status :: "bool \<Rightarrow> u32 list \<Rightarrow> ('s accels_scheme, unit) cmd" where
  "command_query_lis2dw_status ws args =
     mbind (mbind (oid_lookup ''command_query_lis2dw_status'' (ucast (args ! 0)) Oid_lis2dw) deref) (\<lambda>a.
     mbind timer_read_time (\<lambda>time1.
     mbind (mbind (gets (\<lambda>s. lis_spi (lis2dws s a))) deref) (\<lambda>spi.
     mbind (spidev_transfer ws spi True [0x2F OR 0xC0, 0]) (\<lambda>msg.
     mbind timer_read_time (\<lambda>time2.
     mbind (gets (\<lambda>s. lis_sb (lis2dws s a))) (\<lambda>sb.
     sensor_bulk_status sb (ucast (args ! 0)) time1 (time2 - time1) (ucast (msg ! 1 AND 0x1f) * 6)))))))"

definition lis2dw_task :: "bool \<Rightarrow> ('s accels_scheme, unit) cmd" where
  "lis2dw_task ws = mbind (sched_check_wake Lis2dw_wake) (\<lambda>w.
     mwhen w (foreach_oid Oid_lis2dw (\<lambda>oid a. mbind (gets (\<lambda>s. lis_flags (lis2dws s a))) (\<lambda>flags.
       mwhen (flags AND LIS_PENDING \<noteq> 0) (lis2dw_query ws a oid)))))"

section \<open>Readings get through\<close>

lemma set_ax_sel [simp]:
  "adxl345s (set_ax a f s) = (adxl345s s)(a := f (adxl345s s a))" "in_sendf (set_ax a f s) = in_sendf s" "sent (set_ax a f s) = sent s"
  by (simp_all add: set_ax_def)

lemma set_lis_sel [simp]:
  "lis2dws (set_lis a f s) = (lis2dws s)(a := f (lis2dws s a))" "in_sendf (set_lis a f s) = in_sendf s" "sent (set_lis a f s) = sent s"
  by (simp_all add: set_lis_def)

lemma adxl_bytes_length: "length (adxl_bytes msg) = 5"
  by (simp add: adxl_bytes_def)

lemma lis2dw_bytes_length: "length (lis2dw_bytes msg) = 6"
  by (simp add: lis2dw_bytes_def)

interpretation adxl345: bulk_sensor 5 adxl_bytes "\<lambda>s. ax_sb (adxl345s s a)" "adxl_store a" for a
proof
  fix s :: "'a accels_scheme" and oid c
  assume "bulk_ok 5 (ax_sb (adxl345s s a))" "\<not> in_sendf s"
  then obtain sb' ds where "bulk_put 5 (ax_sb (adxl345s s a)) oid (adxl_bytes c) False s
      = (Inr sb', s\<lparr>sent := sent s @ bulk_messages oid (sb_sequence (ax_sb (adxl345s s a))) ds\<rparr>)"
    "bulk_ok 5 sb'" "bulk_pending (ax_sb (adxl345s s a)) @ adxl_bytes c = concat ds @ bulk_pending sb'"
    "sb_sequence sb' = sb_sequence (ax_sb (adxl345s s a)) + of_nat (length ds)" "\<forall>d\<in>set ds. length d = block_size 5"
    by (rule bulk_put_run [OF _ adxl_bytes_length]) blast
  then show "\<exists>t ds. adxl_store a oid c s = (Inr (), t) \<and> bulk_ok 5 (ax_sb (adxl345s t a))
     \<and> in_sendf t = in_sendf s \<and> sent t = sent s @ bulk_messages oid (sb_sequence (ax_sb (adxl345s s a))) ds
     \<and> bulk_pending (ax_sb (adxl345s s a)) @ adxl_bytes c = concat ds @ bulk_pending (ax_sb (adxl345s t a))
     \<and> sb_sequence (ax_sb (adxl345s t a)) = sb_sequence (ax_sb (adxl345s s a)) + of_nat (length ds)
     \<and> (\<forall>d\<in>set ds. length d = block_size 5)"
    by (auto simp: adxl_store_def run_simps)
qed

interpretation lis2dw: bulk_sensor 6 lis2dw_bytes "\<lambda>s. lis_sb (lis2dws s a)" "lis2dw_store a" for a
proof
  fix s :: "'a accels_scheme" and oid c
  assume "bulk_ok 6 (lis_sb (lis2dws s a))" "\<not> in_sendf s"
  then obtain sb' ds where "bulk_put 6 (lis_sb (lis2dws s a)) oid (lis2dw_bytes c) False s
      = (Inr sb', s\<lparr>sent := sent s @ bulk_messages oid (sb_sequence (lis_sb (lis2dws s a))) ds\<rparr>)"
    "bulk_ok 6 sb'" "bulk_pending (lis_sb (lis2dws s a)) @ lis2dw_bytes c = concat ds @ bulk_pending sb'"
    "sb_sequence sb' = sb_sequence (lis_sb (lis2dws s a)) + of_nat (length ds)" "\<forall>d\<in>set ds. length d = block_size 6"
    by (rule bulk_put_run [OF _ lis2dw_bytes_length]) blast
  then show "\<exists>t ds. lis2dw_store a oid c s = (Inr (), t) \<and> bulk_ok 6 (lis_sb (lis2dws t a))
     \<and> in_sendf t = in_sendf s \<and> sent t = sent s @ bulk_messages oid (sb_sequence (lis_sb (lis2dws s a))) ds
     \<and> bulk_pending (lis_sb (lis2dws s a)) @ lis2dw_bytes c = concat ds @ bulk_pending (lis_sb (lis2dws t a))
     \<and> sb_sequence (lis_sb (lis2dws t a)) = sb_sequence (lis_sb (lis2dws s a)) + of_nat (length ds)
     \<and> (\<forall>d\<in>set ds. length d = block_size 6)"
    by (auto simp: lis2dw_store_def run_simps)
qed

section \<open>The queue of the LIS2DW\<close>

lemma lis2dw_store_run:
  assumes "bulk_ok 6 (lis_sb (lis2dws s a))" "\<not> in_sendf s"
  obtains sb' M where "lis2dw_store a oid msg s = (Inr (), set_lis a (\<lambda>h. h\<lparr>lis_sb := sb'\<rparr>) (s\<lparr>sent := M\<rparr>))" "bulk_ok 6 sb'"
proof -
  obtain sb' ds where "bulk_put 6 (lis_sb (lis2dws s a)) oid (lis2dw_bytes msg) False s
      = (Inr sb', s\<lparr>sent := sent s @ bulk_messages oid (sb_sequence (lis_sb (lis2dws s a))) ds\<rparr>)" "bulk_ok 6 sb'"
    by (rule bulk_put_run [OF assms(1) lis2dw_bytes_length assms(2)]) blast
  then show thesis by (intro that) (simp_all add: lis2dw_store_def run_simps)
qed

text \<open>
  A reading: six bytes of data and a status byte, whose lower six bits are the number of readings that the chip
  still holds.  If there is none, the task is woken again; if there are some, the driver sleeps.
\<close>

lemma lis2dw_query_step:
  assumes spi: "lis_spi (lis2dws s a) = Some spi" "hard_spi spi s" and ok: "bulk_ok 6 (lis_sb (lis2dws s a))" "\<not> in_sendf s"
  defines "left \<equiv> spi_in s (spi_n s + 8) AND 0x3F"
  obtains t where "lis2dw_query ws a oid s = (if left = 0 then sched_wake_task Lis2dw_wake t else lis2dw_reschedule_timer a t)"
    "lis_flags (lis2dws t a) = (if left = 0 then lis_flags (lis2dws s a) else lis_flags (lis2dws s a) AND NOT LIS_PENDING)"
    "lis_spi (lis2dws t a) = Some spi" "hard_spi spi t" "bulk_ok 6 (lis_sb (lis2dws t a))" "\<not> in_sendf t"
    "spi_in t = spi_in s" "spi_n t = spi_n s + 9" "timers t = timers s" "timer_list t = timer_list s"
proof -
  obtain odr log where 1: "spidev_transfer ws spi True [0x28 OR 0xC0, 0, 0, 0, 0, 0, 0] s = (Inr (spi_next 7 s),
      s\<lparr>spi_n := spi_n s + 7, spi_log := spi_log s @ [0x28 OR 0xC0, 0, 0, 0, 0, 0, 0], gpio_odr := odr, gpio_log := log\<rparr>)"
    (is "_ = (_, ?s1)") using hard_spi_transfer [OF spi(2), of "[0x28 OR 0xC0, 0, 0, 0, 0, 0, 0]" 7 ws] by auto
  have h1: "hard_spi spi ?s1" using spi(2) by (simp add: hard_spi_def)
  obtain odr' log' where 2: "spidev_transfer ws spi True [0x2F OR 0xC0, 0] ?s1 = (Inr (spi_next 2 ?s1),
      ?s1\<lparr>spi_n := spi_n ?s1 + 2, spi_log := spi_log ?s1 @ [0x2F OR 0xC0, 0], gpio_odr := odr', gpio_log := log'\<rparr>)"
    (is "_ = (_, ?s2)") using hard_spi_transfer [OF h1, of "[0x2F OR 0xC0, 0]" 2 ws] by auto
  obtain sb' M where 3: "lis2dw_store a oid (spi_next 7 s) ?s2 = (Inr (), set_lis a (\<lambda>h. h\<lparr>lis_sb := sb'\<rparr>) (?s2\<lparr>sent := M\<rparr>))" "bulk_ok 6 sb'"
    by (insert ok, rule lis2dw_store_run [of ?s2 a oid "spi_next 7 s"]) simp_all
  have st: "spi_next 2 ?s1 ! 1 = spi_in s (spi_n s + 8)" by (simp add: add.commute)
  let ?s3 = "set_lis a (\<lambda>h. h\<lparr>lis_sb := sb'\<rparr>) (?s2\<lparr>sent := M\<rparr>)"
  let ?s4 = "if spi_in s (spi_n s + 8) AND 0x40 \<noteq> 0
    then set_lis a (\<lambda>h. h\<lparr>lis_sb := (lis_sb h)\<lparr>sb_possible_overflows := sb_possible_overflows (lis_sb h) + 1\<rparr>\<rparr>) ?s3 else ?s3"
  let ?t = "if left = 0 then ?s4 else set_lis a (\<lambda>h. h\<lparr>lis_flags := lis_flags h AND NOT LIS_PENDING\<rparr>) ?s4"
  have "lis2dw_query ws a oid s = (if left = 0 then sched_wake_task Lis2dw_wake ?t else lis2dw_reschedule_timer a ?t)"
    using 1 2 3(1) st by (simp add: lis2dw_query_def left_def run_simps spi(1) deref_def mwhen_def del: sched_wake_task_run)
  moreover have "bulk_ok 6 (sb'\<lparr>sb_possible_overflows := n\<rparr>)" for n using 3(2) by (simp add: bulk_ok_def)
  ultimately show thesis
    using spi ok 3(2) by (intro that [of ?t]) (auto simp: set_lis_def hard_spi_def)
qed

lemma lis2dw_spins:
  "\<forall>i. spi_in s i AND 0x3F = 0 \<Longrightarrow> lis_spi (lis2dws s a) = Some spi \<Longrightarrow> hard_spi spi s \<Longrightarrow> bulk_ok 6 (lis_sb (lis2dws s a)) \<Longrightarrow>
   \<not> in_sendf s \<Longrightarrow> \<exists>t. foldr (\<lambda>_. mseq (lis2dw_query ws a oid)) xs (ret ()) s = (Inr (), t)
      \<and> lis_flags (lis2dws t a) = lis_flags (lis2dws s a) \<and> (xs \<noteq> [] \<or> wakes s Lis2dw_wake \<longrightarrow> wakes t Lis2dw_wake)
      \<and> spi_n t = spi_n s + 9 * length xs \<and> timers t = timers s \<and> timer_list t = timer_list s"
proof (induction xs arbitrary: s)
  case (Cons x xs)
  obtain t where t: "lis2dw_query ws a oid s = sched_wake_task Lis2dw_wake t" "lis_flags (lis2dws t a) = lis_flags (lis2dws s a)"
    "lis_spi (lis2dws t a) = Some spi" "hard_spi spi t" "bulk_ok 6 (lis_sb (lis2dws t a))" "\<not> in_sendf t"
    "spi_in t = spi_in s" "spi_n t = spi_n s + 9" "timers t = timers s" "timer_list t = timer_list s"
    by (rule lis2dw_query_step [OF Cons.prems(2-5), of ws oid]) (use Cons.prems(1) in simp)
  let ?t = "t\<lparr>tasks_status := TS_REQUESTED, wakes := (wakes t)(Lis2dw_wake := True)\<rparr>"
  have h: "hard_spi spi ?t" using t(4) by (simp add: hard_spi_def)
  have "lis2dw_query ws a oid s = (Inr (), ?t)" using t(1) by simp
  then have "foldr (\<lambda>_. mseq (lis2dw_query ws a oid)) (x # xs) (ret ()) s = foldr (\<lambda>_. mseq (lis2dw_query ws a oid)) xs (ret ()) ?t"
    by (simp add: mseq_Inr del: ret_run)
  then show ?case using Cons.IH [of ?t, OF _ _ h] Cons.prems(1) t(2,3,5-10) by (simp add: add.assoc del: foldr_Cons ret_run)
qed simp

section \<open>Properties\<close>

text \<open>
  C99: The driver of the LIS2DW takes the number of readings in the queue of the chip for a flag that says that the queue is
  empty.  If the queue is always empty, the driver never sleeps: after any number of readings it is still pending, the
  task is woken again and the timer is not started.  If readings are left, the driver sleeps instead of
  reading on.
\<close>

theorem lis2dw_fifo_inverted:
  assumes "lis_spi (lis2dws s a) = Some spi" "hard_spi spi s" "bulk_ok 6 (lis_sb (lis2dws s a))" "\<not> in_sendf s"
    "lis_flags (lis2dws s a) AND LIS_PENDING \<noteq> 0"
  shows "((\<forall>i. spi_in s i AND 0x3F = 0) \<longrightarrow> (\<exists>t. foldr (\<lambda>_. mseq (lis2dw_query ws a oid)) [0..<n] (ret ()) s = (Inr (), t)
      \<and> lis_flags (lis2dws t a) AND LIS_PENDING \<noteq> 0 \<and> (0 < n \<longrightarrow> wakes t Lis2dw_wake) \<and> spi_n t = spi_n s + 9 * n
      \<and> timers t = timers s \<and> timer_list t = timer_list s))
    \<and> ((\<forall>i. spi_in s i AND 0x3F \<noteq> 0) \<longrightarrow> (\<exists>t. lis2dw_query ws a oid s = lis2dw_reschedule_timer a t
      \<and> lis_flags (lis2dws t a) AND LIS_PENDING = 0 \<and> timers t = timers s \<and> timer_list t = timer_list s))"
proof (intro conjI impI)
  assume "\<forall>i. spi_in s i AND 0x3F = 0"
  from lis2dw_spins [OF this assms(1-4), of ws oid "[0..<n]"] assms(5)
  show "\<exists>t. foldr (\<lambda>_. mseq (lis2dw_query ws a oid)) [0..<n] (ret ()) s = (Inr (), t)
      \<and> lis_flags (lis2dws t a) AND LIS_PENDING \<noteq> 0 \<and> (0 < n \<longrightarrow> wakes t Lis2dw_wake) \<and> spi_n t = spi_n s + 9 * n
      \<and> timers t = timers s \<and> timer_list t = timer_list s" by (elim ex_forward) simp
next
  assume r: "\<forall>i. spi_in s i AND 0x3F \<noteq> 0"
  have p: "(f AND NOT LIS_PENDING) AND LIS_PENDING = 0" for f by (simp add: and.assoc LIS_PENDING_def)
  show "\<exists>t. lis2dw_query ws a oid s = lis2dw_reschedule_timer a t
      \<and> lis_flags (lis2dws t a) AND LIS_PENDING = 0 \<and> timers t = timers s \<and> timer_list t = timer_list s"
    by (rule lis2dw_query_step [OF assms(1-4), of ws oid]) (use r p in metis)
qed

text \<open>The accelerometers before anything is configured, and one on a bus that delivers zeros.\<close>

definition ads1220s_static :: ads1220s where
  "ads1220s_static = cs123xs.extend cs123xs_static \<lparr>ads1220s = (\<lambda>_. zero_ads1220)\<rparr>"

definition accels_static :: accels where
  "accels_static = ads1220s.extend ads1220s_static \<lparr>adxl345s = (\<lambda>_. zero_adxl345), lis2dws = (\<lambda>_. zero_lis2dw)\<rparr>"

lemmas accels_static_simps = cs123xs_static_simps ads1220s_static_def cs123xs.extend_def accels_static_def ads1220s.extend_def

definition example_accel :: accels where
  "example_accel = accels_static\<lparr>spidevs := (\<lambda>_. zero_spidev\<lparr>p_flags := SF_HARDWARE\<rparr>),
     lis2dws := (\<lambda>_. zero_lis2dw\<lparr>lis_spi := Some 3, lis_flags := LIS_PENDING\<rparr>)\<rparr>"

lemma example_accel_fields:
  "lis2dws example_accel a = zero_lis2dw\<lparr>lis_spi := Some 3, lis_flags := LIS_PENDING\<rparr>" "adxl345s example_accel a = zero_adxl345"
  "hard_spi 3 example_accel" "\<not> in_sendf example_accel" "spi_in example_accel i = 0" "spi_n example_accel = 0" "sent example_accel = []"
  "timers example_accel = static_timers" "timer_list example_accel = Periodic_timer"
  by (simp_all add: example_accel_def hard_spi_def spi_flags accels_static_simps)

theorem lis2dw_fifo_inverted_witness:
  "\<exists>t. foldr (\<lambda>_. mseq (lis2dw_query False 700 9)) [0..<1000] (ret ()) example_accel = (Inr (), t)
    \<and> lis_flags (lis2dws t 700) AND LIS_PENDING \<noteq> 0 \<and> wakes t Lis2dw_wake \<and> spi_n t = 9000 \<and> timers t = static_timers"
proof -
  have "bulk_ok 6 (lis_sb (lis2dws example_accel 700))" "lis_spi (lis2dws example_accel 700) = Some 3"
      "lis_flags (lis2dws example_accel 700) AND LIS_PENDING \<noteq> 0"
    by (simp_all add: example_accel_fields zero_lis2dw_def zero_bulk_def bulk_ok_def bulk_consts LIS_PENDING_def)
  then show ?thesis
    using lis2dw_fifo_inverted [of example_accel 700 3 False 9 1000] by (simp add: example_accel_fields) (auto elim!: ex_forward)
qed

end
