(* ===== verification/Host_Bulk.thy ===== *)
theory Host_Bulk
  imports Accel
begin

text \<open>
  The host side of the bulk sensors: the queue of messages and the reader of \<open>src/elegoo/extras/bulk_sensor.cpp\<close>, and
  the decoding of accelerometer readings in \<open>adxl345.cpp\<close> and \<open>lis2dw.cpp\<close> there.  Times are doubles and not
  modelled: a sample carries its number, from which its time is computed.  Messages are those that the firmware sends.
\<close>

section \<open>The queue of messages\<close>

record bulk_raw =
  br_sequence :: u16
  br_data :: "u8 list"

text \<open>The callback is registered for the messages \<open>sensor_bulk_data\<close> of the sensor.\<close>

definition handle_data :: "u8 \<Rightarrow> outmsg \<Rightarrow> bulk_raw list \<Rightarrow> bulk_raw list" where
  "handle_data oid msg raw_samples = (case msg of
       (f, [U oid', U sequence, Buf data]) \<Rightarrow>
         if f = ''sensor_bulk_data oid=%c sequence=%hu data=%*s'' \<and> oid' = ucast oid
         then raw_samples @ [\<lparr>br_sequence = ucast sequence, br_data = data\<rparr>] else raw_samples
     | _ \<Rightarrow> raw_samples)"

section \<open>The reader\<close>

record freq_reader =
  fr_bytes_per_sample :: nat
  fr_last_sequence :: u64

definition samples_per_block :: "freq_reader \<Rightarrow> nat" where
  "samples_per_block r = 51 div fr_bytes_per_sample r"

text \<open>A status message moves the number of the last message on.\<close>

definition update_sequence :: "u32 \<Rightarrow> freq_reader \<Rightarrow> freq_reader" where
  "update_sequence next_seq r =
     (let seq_diff = ucast ((ucast next_seq - fr_last_sequence r) AND 0xffff) :: u16
      in r\<lparr>fr_last_sequence := fr_last_sequence r + ucast seq_diff\<rparr>)"

definition full_sequence :: "u64 \<Rightarrow> u16 \<Rightarrow> u64" where
  "full_sequence last_sequence sequence =
     (let seq_diff = (ucast sequence - last_sequence) AND 0xffff
      in last_sequence + (seq_diff - push_bit 1 (seq_diff AND 0x8000)))"

definition unpack_from :: "nat \<Rightarrow> u8 list \<Rightarrow> nat \<Rightarrow> u8 list" where
  "unpack_from n data offset = take n (drop offset data)"

definition pull_message :: "freq_reader \<Rightarrow> bulk_raw \<Rightarrow> (u64 \<times> u8 list) list" where
  "pull_message r params =
     (let seq = full_sequence (fr_last_sequence r) (br_sequence params); data = br_data params in
      map (\<lambda>i. (seq * of_nat (samples_per_block r) + of_nat i, unpack_from (fr_bytes_per_sample r) data (i * fr_bytes_per_sample r)))
        [0..<length data div fr_bytes_per_sample r])"

definition pull_samples :: "freq_reader \<Rightarrow> bulk_raw list \<Rightarrow> (u64 \<times> u8 list) list" where
  "pull_samples r raw_samples = concat (map (pull_message r) raw_samples)"

section \<open>Decoding\<close>

text \<open>The value \<open>Inl\<close> is the exception \<open>CommandError\<close> for a sample of the wrong size.\<close>

definition adxl_decode :: "u8 list \<Rightarrow> u32 \<times> u32 \<times> u32" where
  "adxl_decode data =
     (let xlow = ucast (data ! 0); ylow = ucast (data ! 1); zlow = ucast (data ! 2); xzhigh = ucast (data ! 3); yzhigh = ucast (data ! 4)
      in ((xlow OR push_bit 8 (xzhigh AND 0x1f)) - push_bit 9 (xzhigh AND 0x10),
          (ylow OR push_bit 8 (yzhigh AND 0x1f)) - push_bit 9 (yzhigh AND 0x10),
          (zlow OR push_bit 3 (xzhigh AND 0xe0) OR push_bit 6 (yzhigh AND 0xe0)) - push_bit 7 (yzhigh AND 0x40)))"

fun adxl_convert_samples :: "u32 \<Rightarrow> u8 list list \<Rightarrow> unit + u32 \<times> (u32 \<times> u32 \<times> u32) list" where
  "adxl_convert_samples last_error_count [] = Inr (last_error_count, [])"
| "adxl_convert_samples last_error_count (data # samples) =
     (if length data \<noteq> 5 then Inl ()
      else if data ! 4 AND 0x80 \<noteq> 0 then adxl_convert_samples (last_error_count + 1) samples
      else case adxl_convert_samples last_error_count samples of
             Inl e \<Rightarrow> Inl e | Inr (n, out) \<Rightarrow> Inr (n, adxl_decode data # out))"

text \<open>The number that is multiplied with the scale: the word is unsigned.\<close>

definition adxl_raw_xyz :: "u32 \<times> u32 \<times> u32 \<Rightarrow> int list" where
  "adxl_raw_xyz = (\<lambda>(rx, ry, rz). [uint rx, uint ry, uint rz])"

definition lis2dw_decode :: "u8 list \<Rightarrow> u16 \<times> u16 \<times> u16" where
  "lis2dw_decode data =
     (push_bit 8 (ucast (data ! 1)) OR ucast (data ! 0), push_bit 8 (ucast (data ! 3)) OR ucast (data ! 2),
      push_bit 8 (ucast (data ! 5)) OR ucast (data ! 4))"

fun lis2dw_convert_samples :: "u8 list list \<Rightarrow> unit + int list list" where
  "lis2dw_convert_samples [] = Inr []"
| "lis2dw_convert_samples (data # samples) =
     (if length data \<noteq> 6 then Inl ()
      else case lis2dw_decode data of (rx, ry, rz) \<Rightarrow> (case lis2dw_convert_samples samples of
             Inl e \<Rightarrow> Inl e | Inr out \<Rightarrow> Inr ([sint rx, sint ry, sint rz] # out)))"

section \<open>Numbers of messages\<close>

text \<open>The number of a message is recovered from its lower 16 bits if the last known one is near.\<close>

lemma and_exp: "x AND 2 ^ n = (if bit x n then 2 ^ n else 0)" for x :: int
  by (rule bit_eqI) (auto simp: bit_simps)

lemma signed_16:
  fixes d :: int
  assumes "- 32768 \<le> d" "d < 32768"
  defines "r \<equiv> d mod 65536"
  shows "r - push_bit 1 (r AND 0x8000) = d"
proof (cases "0 \<le> d")
  case True
  then have "r = d" "\<not> bit d 15" using assms by (simp_all add: r_def bit_iff_odd)
  then show ?thesis using and_exp [of d 15] by simp
next
  case False
  then have r: "r = d + 65536" using assms(1) mod_pos_pos_trivial [of "d + 65536" 65536] mod_add_self2 [of d 65536] unfolding r_def by simp
  have "(d + 65536) div 2 ^ 15 = 1" using assms False by (intro int_div_pos_eq [of _ _ _ "d + 32768"]) simp_all
  then have "bit (d + 65536) 15" by (simp add: bit_iff_odd)
  then show ?thesis using r and_exp [of "d + 65536" 15] by simp
qed

lemma full_sequence_near:
  assumes "l \<le> j + 2 ^ 15" "j < l + 2 ^ 15"
  shows "full_sequence (of_nat l) (of_nat j) = of_nat j"
proof -
  define d where "d = int j - int l"
  have d: "- 32768 \<le> d" "d < 32768" using assms by (auto simp: d_def)
  have u: "ucast (of_nat j :: u16) = (word_of_int (int j mod 65536) :: u64)"
    unfolding unsigned_of_nat take_bit_eq_mod zmod_int [symmetric, of j 65536, simplified] by simp
  have l: "of_nat l = (word_of_int (int l) :: u64)" by simp
  have "(int j mod 65536 - int l) AND 0xffff = take_bit 16 (int j mod 65536 - int l)"
    by (simp add: take_bit_eq_mask mask_numeral)
  also have "\<dots> = d mod 65536" by (simp add: take_bit_eq_mod d_def mod_diff_left_eq)
  finally have "(ucast (of_nat j :: u16) - of_nat l :: u64) AND 0xffff = word_of_int (d mod 65536)"
    unfolding u l wi_hom_sub by (metis word_of_int_numeral word_wi_log_defs(2))
  moreover have "word_of_int r AND (0x8000 :: u64) = word_of_int (r AND 0x8000)" for r by (metis word_of_int_numeral word_wi_log_defs(2))
  moreover have "push_bit 1 (word_of_int r :: u64) = word_of_int (push_bit 1 r)" for r by (simp add: push_bit_eq_mult)
  ultimately have "full_sequence (of_nat l) (of_nat j) = word_of_int (int l + (d mod 65536 - push_bit 1 (d mod 65536 AND 0x8000)))"
    by (simp only: full_sequence_def Let_def l wi_hom_syms)
  also have "\<dots> = of_nat j" unfolding signed_16 [OF d] by (simp add: d_def)
  finally show ?thesis .
qed

section \<open>Samples in messages\<close>

lemma handle_own:
  "handle_data oid (''sensor_bulk_data oid=%c sequence=%hu data=%*s'', [U (ucast oid), U (ucast n), Buf d]) q
    = q @ [\<lparr>br_sequence = n, br_data = d\<rparr>]"
proof -
  have "ucast (ucast n :: u32) = n" by (rule bit_word_eqI) (simp add: bit_simps)
  then show ?thesis by (simp add: handle_data_def)
qed

lemma handle_messages:
  "fold (handle_data oid) (bulk_messages oid n ds) q
    = q @ map (\<lambda>j. \<lparr>br_sequence = n + of_nat j, br_data = ds ! j\<rparr>) [0..<length ds]"
proof (induction ds arbitrary: n q)
  case (Cons d ds)
  have "fold (handle_data oid) (bulk_messages oid n (d # ds)) q
      = q @ [\<lparr>br_sequence = n, br_data = d\<rparr>] @ map (\<lambda>j. \<lparr>br_sequence = n + 1 + of_nat j, br_data = ds ! j\<rparr>) [0..<length ds]"
    using Cons.IH [of "n + 1"] by (simp add: handle_own)
  also have "\<dots> = q @ map (\<lambda>j. \<lparr>br_sequence = n + of_nat j, br_data = (d # ds) ! j\<rparr>) (0 # map Suc [0..<length ds])"
    by (simp add: algebra_simps)
  finally show ?case by (simp add: map_Suc_upt upt_conv_Cons del: upt_Suc)
qed simp

lemma drop_messages: "drop m (bulk_messages oid n ds) = bulk_messages oid (n + of_nat m) (drop m ds)"
proof (induction ds arbitrary: n m)
  case (Cons d ds)
  then show ?case by (cases m) (simp_all add: algebra_simps)
qed simp

lemma take_messages: "take b (bulk_messages oid n ds) = bulk_messages oid n (take b ds)"
proof (induction ds arbitrary: n b)
  case (Cons d ds)
  then show ?case by (cases b) simp_all
qed simp

lemma chunk_nth:
  "\<forall>x\<in>set xs. length x = n \<Longrightarrow> i < length xs \<Longrightarrow> take n (drop (i * n) (concat xs)) = xs ! i"
proof (induction xs arbitrary: i)
  case (Cons x xs)
  then show ?case by (cases i) simp_all
qed simp

lemma chunk_length: "\<forall>x\<in>set xs. length x = n \<Longrightarrow> length (concat xs) = length xs * n"
  by (induction xs) auto

text \<open>A sample inside of a block, where blocks hold \<open>k\<close> samples.\<close>

lemma chunk_of_block:
  assumes ds: "\<forall>d\<in>set ds. length d = n * k" and xs: "\<forall>x\<in>set xs. length x = n" and eq: "concat xs = concat ds @ p"
    and i: "i < k" and j: "j < length ds" and n: "0 < n"
  shows "take n (drop (i * n) (ds ! j)) = xs ! (k * j + i)" "k * j + i < length xs"
proof -
  have "Suc i * n \<le> k * n" using i by (intro mult_le_mono1) simp
  then have il: "i * n + n \<le> n * k" by (simp add: algebra_simps)
  have "Suc j * (n * k) \<le> length ds * (n * k)" using j by (intro mult_le_mono1) simp
  then have jl: "j * (n * k) + n * k \<le> length (concat ds)" by (simp add: chunk_length [OF ds] algebra_simps)
  have "(k * j + i) * n + n \<le> length (concat ds)" using il jl by (simp add: algebra_simps)
  also have "\<dots> \<le> length xs * n" using arg_cong [OF eq, of length] by (simp add: chunk_length [OF xs])
  finally have "Suc (k * j + i) * n \<le> length xs * n" by simp
  then have "Suc (k * j + i) \<le> length xs" using n by (simp only: mult_le_cancel2)
  then show lt: "k * j + i < length xs" by simp
  have "take n (drop (i * n) (ds ! j)) = take n (drop (i * n) (take (n * k) (drop (j * (n * k)) (concat ds))))"
    by (simp add: chunk_nth [OF ds j])
  also have "\<dots> = take n (drop ((k * j + i) * n) (concat ds))" using il by (simp add: drop_take min_def algebra_simps)
  also have "\<dots> = take n (drop ((k * j + i) * n) (concat xs))" using il jl by (simp add: eq algebra_simps)
  also have "\<dots> = xs ! (k * j + i)" by (rule chunk_nth [OF xs lt])
  finally show "take n (drop (i * n) (ds ! j)) = xs ! (k * j + i)" .
qed

text \<open>A batch of messages, and the numbers and the bytes of the samples that the host takes from it.\<close>

definition batch :: "u8 \<Rightarrow> nat \<Rightarrow> nat \<Rightarrow> u8 list list \<Rightarrow> bulk_raw list" where
  "batch oid m b ds = fold (handle_data oid) (take b (drop m (bulk_messages oid 0 ds))) []"

lemma upt_shift: "[m..<m + b] = map (\<lambda>i. m + i) [0..<b]"
  by (rule nth_equalityI) simp_all

lemma batch_raw:
  assumes "m + b \<le> length ds"
  shows "batch oid m b ds = map (\<lambda>j. \<lparr>br_sequence = of_nat j, br_data = ds ! j\<rparr>) [m..<m + b]"
proof -
  have "min b (length ds - m) = b" using assms by simp
  then show ?thesis unfolding upt_shift using assms by (simp add: batch_def drop_messages take_messages handle_messages)
qed

lemma pull_block:
  assumes "fr_bytes_per_sample r = n" "0 < n" "length d = n * samples_per_block r"
    and "fr_last_sequence r = of_nat l" "l \<le> j + 2 ^ 15" "j < l + 2 ^ 15"
  shows "pull_message r \<lparr>br_sequence = of_nat j, br_data = d\<rparr>
    = map (\<lambda>i. (of_nat (samples_per_block r * j + i), take n (drop (i * n) d))) [0..<samples_per_block r]"
  using assms by (simp add: pull_message_def unpack_from_def full_sequence_near algebra_simps)

text \<open>Blocks of \<open>k\<close> samples in a row.\<close>

lemma blocks_in_row: "concat (map (\<lambda>j. map (\<lambda>i. f (k * j + i)) [0..<k]) [m..<m + b]) = map f [k * m..<k * (m + b)]"
proof (induction b)
  case (Suc b)
  have "[k * m..<k * (m + Suc b)] = [k * m..<k * (m + b)] @ [k * (m + b)..<k * (m + b) + k]"
    using upt_add_eq_append [of "k * m" "k * (m + b)" k] by (simp add: algebra_simps)
  moreover have "map (\<lambda>i. f (k * (m + b) + i)) [0..<k] = map f [k * (m + b)..<k * (m + b) + k]"
    unfolding upt_shift by simp
  ultimately show ?case using Suc by simp
qed simp

text \<open>
  A sensor whose samples have a fixed size, linked to a reader: the host takes the samples from any batch of messages
  that is near the last known one, with the numbers they have.
\<close>

locale bulk_link = bulk_sensor +
  assumes encode_length: "length (encode c) = bytes_per_sample"
begin

lemma samples_arrive:
  assumes "bulk_ok bytes_per_sample (sb_of s)" "sb_data_count (sb_of s) = 0" "sb_sequence (sb_of s) = 0" "\<not> in_sendf s"
  defines "k \<equiv> SENSOR_BULK_SIZE div bytes_per_sample"
  shows "\<exists>t ds. foldr (\<lambda>c. mseq (add_sample oid c)) cs (ret ()) s = (Inr (), t) \<and> sent t = sent s @ bulk_messages oid 0 ds
    \<and> length cs < k * Suc (length ds)
    \<and> (\<forall>m b l. m + b \<le> length ds \<longrightarrow> l \<le> m + 2 ^ 15 \<longrightarrow> m + b \<le> l + 2 ^ 15 \<longrightarrow>
        pull_samples \<lparr>fr_bytes_per_sample = bytes_per_sample, fr_last_sequence = of_nat l\<rparr> (batch oid m b ds)
          = map (\<lambda>i. (of_nat i, encode (cs ! i))) [k * m..<k * (m + b)])"
proof -
  obtain t ds where t: "foldr (\<lambda>c. mseq (add_sample oid c)) cs (ret ()) s = (Inr (), t)" "bulk_ok bytes_per_sample (sb_of t)"
      "sent t = sent s @ bulk_messages oid 0 ds" "concat (map encode cs) = concat ds @ bulk_pending (sb_of t)"
      "\<forall>d\<in>set ds. length d = bytes_per_sample * k"
    using samples_delivered [OF assms(1,4), of oid cs] assms(2,3) unfolding k_def block_size_def [symmetric] by (auto simp: bulk_pending_def)
  let ?n = bytes_per_sample
  have n: "0 < ?n" using assms(1) by (simp add: bulk_ok_def)
  have e: "\<forall>x\<in>set (map encode cs). length x = ?n" by (simp add: encode_length)
  have p: "length (bulk_pending (sb_of t)) + ?n \<le> ?n * k"
  proof -
    have "?n dvd unat (sb_data_count (sb_of t)) + ?n" "unat (sb_data_count (sb_of t)) + ?n \<le> 51" "length (sb_data (sb_of t)) = 51"
      using t(2) by (auto simp: bulk_ok_def bulk_consts)
    obtain q where q: "unat (sb_data_count (sb_of t)) + ?n = ?n * q" using \<open>_ dvd _\<close> by (rule dvdE)
    then have "q \<le> k" unfolding k_def bulk_consts
      using \<open>_ \<le> 51\<close> n by (simp add: less_eq_div_iff_mult_less_eq mult.commute)
    then show ?thesis using q \<open>length _ = 51\<close> \<open>_ \<le> 51\<close> by (simp add: bulk_pending_def)
  qed
  have "length cs * ?n = length ds * (?n * k) + length (bulk_pending (sb_of t))"
    using arg_cong [OF t(4), of length] by (simp add: chunk_length [OF e, simplified] chunk_length [OF t(5)])
  then have "length cs * ?n < (k * Suc (length ds)) * ?n" using p n by (simp add: algebra_simps)
  then have lc: "length cs < k * Suc (length ds)" by simp
  have "pull_samples \<lparr>fr_bytes_per_sample = ?n, fr_last_sequence = of_nat l\<rparr> (batch oid m b ds)
      = map (\<lambda>i. (of_nat i, encode (cs ! i))) [k * m..<k * (m + b)]"
    if b: "m + b \<le> length ds" "l \<le> m + 2 ^ 15" "m + b \<le> l + 2 ^ 15" for m b l
  proof -
    let ?r = "\<lparr>fr_bytes_per_sample = ?n, fr_last_sequence = of_nat l\<rparr>"
    have k: "samples_per_block ?r = k" by (simp add: samples_per_block_def k_def bulk_consts)
    have "pull_message ?r \<lparr>br_sequence = of_nat j, br_data = ds ! j\<rparr> = map (\<lambda>i. (of_nat (k * j + i), encode (cs ! (k * j + i)))) [0..<k]"
      if j: "j \<in> set [m..<m + b]" for j
    proof -
      have "j < length ds" using j b by simp
      then have "take ?n (drop (i * ?n) (ds ! j)) = encode (cs ! (k * j + i))" if "i < k" for i
        using chunk_of_block [OF t(5) e t(4) that _ n] by simp
      moreover have "length (ds ! j) = ?n * k" using t(5) \<open>j < length ds\<close> by simp
      ultimately show ?thesis using pull_block [of ?r ?n "ds ! j" l j] j b n unfolding k by auto
    qed
    then have "map (pull_message ?r) (batch oid m b ds) = map (\<lambda>j. map (\<lambda>i. (of_nat (k * j + i), encode (cs ! (k * j + i)))) [0..<k]) [m..<m + b]"
      unfolding batch_raw [OF b(1)] map_map comp_def by (intro map_cong refl) simp
    then show ?thesis unfolding pull_samples_def using blocks_in_row [of "\<lambda>i. (of_nat i, encode (cs ! i))" k m b] by simp
  qed
  with t(1,3) lc show ?thesis by blast
qed

end

lemma sample_bytes_length: "length (sample_bytes c) = BYTES_PER_SAMPLE"
  by (simp add: sample_bytes_def bulk_consts)

interpretation hx71x_link: bulk_link BYTES_PER_SAMPLE sample_bytes "\<lambda>s. hx_sb (hx71xs s a)" "\<lambda>oid c. hx71x_add_sample a oid c False" for a
  by unfold_locales (rule sample_bytes_length)

interpretation cs123x_link: bulk_link BYTES_PER_SAMPLE sample_bytes "\<lambda>s. cs_sb (cs123xs s a)" "\<lambda>oid c. cs123x_add_sample a oid c False" for a
  by unfold_locales (rule sample_bytes_length)

interpretation ads1220_link: bulk_link BYTES_PER_SAMPLE sample_bytes "\<lambda>s. ads_sb (ads1220s s a)" "ads1220_add_sample a" for a
  by unfold_locales (rule sample_bytes_length)

interpretation adxl345_link: bulk_link 5 adxl_bytes "\<lambda>s. ax_sb (adxl345s s a)" "adxl_store a" for a
  by unfold_locales (rule adxl_bytes_length)

interpretation lis2dw_link: bulk_link 6 lis2dw_bytes "\<lambda>s. lis_sb (lis2dws s a)" "lis2dw_store a" for a
  by unfold_locales (rule lis2dw_bytes_length)

section \<open>Readings\<close>

text \<open>A reading of the chips: two bytes, the lower first, as a signed number.\<close>

definition le_reading :: "u8 \<Rightarrow> u8 \<Rightarrow> int" where
  "le_reading lo hi = 256 * sint hi + uint lo"

lemma u8_bits: "\<forall>n\<in>{0, 1, 2, 3, 4, 5, 6, 7}. bit a n = bit b n \<Longrightarrow> a = b" for a b :: u8
proof (rule bit_word_eqI)
  fix n assume "\<forall>n\<in>{0, 1, 2, 3, 4, 5, 6, 7}. bit a n = bit b n" "n < LENGTH(8)"
  moreover have "n \<in> {0, 1, 2, 3, 4, 5, 6, 7}" using \<open>n < _\<close> by auto
  ultimately show "bit a n = bit b n" by blast
qed

lemma packed_x:
  fixes x z :: u8
  defines "d \<equiv> (x AND 0x1f) OR push_bit 5 z"
  shows "d AND 0x1f = x AND 0x1f" "d AND 0x10 = x AND 0x10" "d AND 0xe0 = push_bit 5 z"
  unfolding d_def by (rule u8_bits; simp add: bit_simps)+

lemma packed_y:
  fixes y z :: u8
  defines "d \<equiv> (y AND 0x1f) OR (push_bit 2 z AND 0x60)"
  shows "d AND 0x1f = y AND 0x1f" "d AND 0x10 = y AND 0x10" "d AND 0xe0 = push_bit 2 z AND 0x60" "d AND 0x40 = push_bit 2 z AND 0x40" "d AND 0x80 = 0"
  unfolding d_def by (rule u8_bits; simp add: bit_simps)+

text \<open>A high byte that agrees with 13 bits, and what the host makes of a reading.\<close>

definition nibble_ok :: "u8 \<Rightarrow> bool" where
  "nibble_ok hi \<longleftrightarrow> hi AND 0xf0 = 0 \<or> hi AND 0xf0 = 0xf0"

definition host_value :: "u8 \<Rightarrow> u8 \<Rightarrow> u32" where
  "host_value lo hi = (ucast lo OR push_bit 8 (ucast (hi AND 0x1f))) - push_bit 9 (ucast (hi AND 0x10))"

lemma nibble_table: "\<forall>k\<in>set [0..<16]. (0xf0 OR word_of_nat k :: u8) = word_of_nat (240 + k)"
  by code_simp

lemma nibble_cases:
  assumes "nibble_ok hi"
  shows "\<exists>n\<in>set ([0..<16] @ [240..<256]). hi = of_nat n"
proof -
  define k where "k = unat (hi AND 0xf)"
  have h: "hi = (hi AND 0xf0) OR (hi AND 0xf)" by (rule u8_bits; simp add: bit_simps)
  have "hi AND 0xf = take_bit 4 hi" by (simp add: take_bit_eq_mask mask_numeral)
  then have "k = take_bit 4 (unat hi)" by (simp only: k_def unsigned_take_bit_eq)
  then have "k < 16" by (simp add: take_bit_eq_mod)
  then have t: "hi AND 0xf = of_nat k" "(0xf0 OR of_nat k :: u8) = of_nat (240 + k)"
    using nibble_table by (simp add: k_def) (use \<open>k < 16\<close> nibble_table in \<open>auto simp del: of_nat_add\<close>)
  have "hi = of_nat k \<or> hi = of_nat (240 + k)" using assms h t unfolding nibble_ok_def by (metis or.left_neutral)
  moreover have "k \<in> set ([0..<16] @ [240..<256])" "240 + k \<in> set ([0..<16] @ [240..<256])" using \<open>k < 16\<close> by (simp_all add: set_upt del: upt_rec_numeral)
  ultimately show ?thesis by blast
qed

lemma high_part_table:
  "\<forall>n\<in>set ([0..<16] @ [240..<256]). let hi = word_of_nat n :: u8 in
     256 * ucast (hi AND 0x1f) - push_bit 9 (ucast (hi AND 0x10)) = (word_of_int (256 * sint hi) :: u32)
   \<and> push_bit 3 (ucast (push_bit 5 hi)) OR push_bit 6 (ucast (push_bit 2 hi AND 0x60)) = (push_bit 8 (ucast (hi AND 0x1f)) :: u32)
   \<and> push_bit 7 (ucast (push_bit 2 hi AND 0x40)) = (push_bit 9 (ucast (hi AND 0x10)) :: u32) \<and> - 16 \<le> sint hi \<and> sint hi < 16"
  by code_simp

lemma host_value_reading:
  assumes "nibble_ok hi"
  shows "host_value lo hi = word_of_int (le_reading lo hi)" "- 4096 \<le> le_reading lo hi" "le_reading lo hi < 4096"
proof -
  have "256 * ucast (hi AND 0x1f) - push_bit 9 (ucast (hi AND 0x10)) = (word_of_int (256 * sint hi) :: u32)"
    using nibble_cases [OF assms] high_part_table by (auto simp: Let_def)
  moreover have "host_value lo hi = 256 * ucast (hi AND 0x1f) - push_bit 9 (ucast (hi AND 0x10)) + ucast lo"
    using shift_in_byte [of "ucast (hi AND 0x1f)" lo] by (simp add: host_value_def or.commute)
  moreover have "(ucast lo :: u32) = word_of_int (uint lo)" by simp
  ultimately show "host_value lo hi = word_of_int (le_reading lo hi)" by (simp only: le_reading_def wi_hom_syms)
  have "uint lo < 256" "0 \<le> uint lo" using unsigned_less [of lo, where ?'a = int] by simp_all
  moreover have "- 16 \<le> sint hi" "sint hi < 16" using nibble_cases [OF assms] high_part_table by (auto simp: Let_def)
  ultimately show "- 4096 \<le> le_reading lo hi" "le_reading lo hi < 4096" unfolding le_reading_def by linarith+
qed

lemma adxl_decode_bytes:
  assumes "\<not> adxl_data_error msg"
  shows "adxl_decode (adxl_bytes msg) = (host_value (msg ! 1) (msg ! 2), host_value (msg ! 3) (msg ! 4), host_value (msg ! 5) (msg ! 6))"
    "adxl_bytes msg ! 4 AND 0x80 = 0" "nibble_ok (msg ! 2)" "nibble_ok (msg ! 4)" "nibble_ok (msg ! 6)"
proof -
  show n: "nibble_ok (msg ! 2)" "nibble_ok (msg ! 4)" "nibble_ok (msg ! 6)" using assms by (auto simp: adxl_data_error_def nibble_ok_def)
  show "adxl_bytes msg ! 4 AND 0x80 = 0" using assms by (simp add: adxl_bytes_def packed_y)
  have m: "(ucast d AND 0x1f :: u32) = ucast (d AND 0x1f)" "(ucast d AND 0x10 :: u32) = ucast (d AND 0x10)"
    "(ucast d AND 0xe0 :: u32) = ucast (d AND 0xe0)" "(ucast d AND 0x40 :: u32) = ucast (d AND 0x40)" for d :: u8
    by (simp_all add: unsigned_and_eq)
  have z: "push_bit 3 (ucast (push_bit 5 (msg ! 6))) OR push_bit 6 (ucast (push_bit 2 (msg ! 6) AND 0x60)) = (push_bit 8 (ucast (msg ! 6 AND 0x1f)) :: u32)"
     "push_bit 7 (ucast (push_bit 2 (msg ! 6) AND 0x40)) = (push_bit 9 (ucast (msg ! 6 AND 0x10)) :: u32)"
    using nibble_cases [OF n(3)] high_part_table by (auto simp: Let_def)
  have b: "adxl_bytes msg ! 0 = msg ! 1" "adxl_bytes msg ! 1 = msg ! 3" "adxl_bytes msg ! 2 = msg ! 5"
    "adxl_bytes msg ! 3 = (msg ! 2 AND 0x1f) OR push_bit 5 (msg ! 6)"
    "adxl_bytes msg ! 4 = (msg ! 4 AND 0x1f) OR (push_bit 2 (msg ! 6) AND 0x60)"
    using assms by (simp_all add: adxl_bytes_def)
  show "adxl_decode (adxl_bytes msg) = (host_value (msg ! 1) (msg ! 2), host_value (msg ! 3) (msg ! 4), host_value (msg ! 5) (msg ! 6))"
    by (simp only: adxl_decode_def Let_def host_value_def b m packed_x packed_y z)
qed

text \<open>The readings in a message of the chip.\<close>

definition adxl_reading :: "u8 list \<Rightarrow> int list" where
  "adxl_reading msg = [le_reading (msg ! 1) (msg ! 2), le_reading (msg ! 3) (msg ! 4), le_reading (msg ! 5) (msg ! 6)]"

definition lis2dw_reading :: "u8 list \<Rightarrow> int list" where
  "lis2dw_reading msg = [le_reading (msg ! 1) (msg ! 2), le_reading (msg ! 3) (msg ! 4), le_reading (msg ! 5) (msg ! 6)]"

text \<open>A decoded sample as signed numbers.\<close>

definition signed_xyz :: "u32 \<times> u32 \<times> u32 \<Rightarrow> int list" where
  "signed_xyz = (\<lambda>(x, y, z). [sint x, sint y, sint z])"

lemma adxl_decode_reading:
  assumes "\<not> adxl_data_error msg"
  shows "signed_xyz (adxl_decode (adxl_bytes msg)) = adxl_reading msg"
    "adxl_raw_xyz (adxl_decode (adxl_bytes msg)) = map (\<lambda>v. v mod 2 ^ 32) (adxl_reading msg)"
proof -
  note n = adxl_decode_bytes [OF assms]
  have small: "sint (word_of_int k :: u32) = k" if "- 4096 \<le> k" "k < 4096" for k
    using that by (simp add: sint_sbintrunc' signed_take_bit_int_eq_self)
  show "signed_xyz (adxl_decode (adxl_bytes msg)) = adxl_reading msg"
    using host_value_reading [OF n(3)] host_value_reading [OF n(4)] host_value_reading [OF n(5)]
    by (simp add: n(1) signed_xyz_def adxl_reading_def small)
  show "adxl_raw_xyz (adxl_decode (adxl_bytes msg)) = map (\<lambda>v. v mod 2 ^ 32) (adxl_reading msg)"
    using host_value_reading(1) [OF n(3)] host_value_reading(1) [OF n(4)] host_value_reading(1) [OF n(5)]
    by (simp add: n(1) adxl_raw_xyz_def adxl_reading_def uint_word_of_int)
qed

lemma adxl_convert_good:
  "\<exists>out. adxl_convert_samples n (map adxl_bytes msgs) = Inr (n + of_nat (length (filter adxl_data_error msgs)), out)
    \<and> map signed_xyz out = map adxl_reading (filter (\<lambda>msg. \<not> adxl_data_error msg) msgs)"
proof (induction msgs arbitrary: n)
  case (Cons msg msgs)
  show ?case
  proof (cases "adxl_data_error msg")
    case True
    then have "adxl_bytes msg ! 4 AND 0x80 \<noteq> 0" by (simp add: adxl_bytes_def)
    then show ?thesis using Cons.IH [of "n + 1"] True by (auto simp: adxl_bytes_length algebra_simps)
  next
    case False
    then show ?thesis
      using Cons.IH [of n] adxl_decode_bytes(2) [OF False] adxl_decode_reading(1) [OF False] by (auto simp: adxl_bytes_length)
  qed
qed simp

lemma lis2dw_word:
  "sint (push_bit 8 (ucast hi) OR ucast lo :: u16) = le_reading lo hi" for lo hi :: u8
proof -
  have "push_bit 8 (ucast hi) OR ucast lo = push_bit 8 (ucast hi) + (ucast lo :: u16)"
    by (rule sym, rule disjunctive_add) (auto simp: bit_simps dest: bit_imp_le_length)
  also have "\<dots> = word_of_int (le_reading lo hi)"
  proof -
    have "(push_bit 8 (ucast hi) :: u16) = push_bit 8 (scast hi)" by (rule bit_word_eqI) (auto simp: bit_simps)
    also have "\<dots> = word_of_int (256 * sint hi)" by (simp add: push_bit_eq_mult mult.commute)
    finally show ?thesis by (simp add: le_reading_def)
  qed
  finally have w: "push_bit 8 (ucast hi) OR ucast lo = (word_of_int (le_reading lo hi) :: u16)" .
  have "- 32768 \<le> le_reading lo hi" "le_reading lo hi < 32768"
  proof -
    have "- 128 \<le> sint hi" "sint hi < 128" "0 \<le> uint lo" "uint lo < 256"
      using sint_greater_eq [of hi] sint_less [of hi] unsigned_less [of lo, where ?'a = int] by simp_all
    then show "- 32768 \<le> le_reading lo hi" "le_reading lo hi < 32768" unfolding le_reading_def by linarith+
  qed
  then show ?thesis unfolding w by (simp add: sint_sbintrunc' signed_take_bit_int_eq_self)
qed

lemma lis2dw_convert_good: "lis2dw_convert_samples (map lis2dw_bytes msgs) = Inr (map lis2dw_reading msgs)"
  by (induction msgs) (simp_all add: lis2dw_bytes_def lis2dw_decode_def lis2dw_reading_def lis2dw_word)

section \<open>Properties\<close>

text \<open>
  C99: the readings of the ADXL345 arrive at the host.  When the driver stores what it reads from the chip, everything but
  an incomplete last block is sent; from any batch of the messages whose numbers are within 32768 of the last known one the
  host recovers the number of every reading, counts the readings with a transmission error, and decodes the
  others, in order, to words that are the signed readings of the chip.
\<close>

theorem adxl345_readings_arrive:
  assumes "bulk_ok 5 (ax_sb (adxl345s s a))" "sb_data_count (ax_sb (adxl345s s a)) = 0" "sb_sequence (ax_sb (adxl345s s a)) = 0" "\<not> in_sendf s"
  shows "\<exists>t ds. foldr (\<lambda>msg. mseq (adxl_store a oid msg)) msgs (ret ()) s = (Inr (), t) \<and> sent t = sent s @ bulk_messages oid 0 ds
    \<and> length msgs < 10 * Suc (length ds)
    \<and> (\<forall>m b l. m + b \<le> length ds \<longrightarrow> l \<le> m + 2 ^ 15 \<longrightarrow> m + b \<le> l + 2 ^ 15 \<longrightarrow>
        (let got = pull_samples \<lparr>fr_bytes_per_sample = 5, fr_last_sequence = of_nat l\<rparr> (batch oid m b ds);
             chip = map ((!) msgs) [10 * m..<10 * (m + b)]
         in map fst got = map of_nat [10 * m..<10 * (m + b)]
          \<and> (\<exists>out. adxl_convert_samples 0 (map snd got) = Inr (of_nat (length (filter adxl_data_error chip)), out)
               \<and> map signed_xyz out = map adxl_reading (filter (\<lambda>msg. \<not> adxl_data_error msg) chip))))"
proof -
  have k: "SENSOR_BULK_SIZE div 5 = 10" by (simp add: bulk_consts)
  obtain t ds where t: "foldr (\<lambda>msg. mseq (adxl_store a oid msg)) msgs (ret ()) s = (Inr (), t)" "sent t = sent s @ bulk_messages oid 0 ds"
      "length msgs < 10 * Suc (length ds)"
    and g: "\<forall>m b l. m + b \<le> length ds \<longrightarrow> l \<le> m + 2 ^ 15 \<longrightarrow> m + b \<le> l + 2 ^ 15 \<longrightarrow>
        pull_samples \<lparr>fr_bytes_per_sample = 5, fr_last_sequence = of_nat l\<rparr> (batch oid m b ds)
          = map (\<lambda>i. (of_nat i, adxl_bytes (msgs ! i))) [10 * m..<10 * (m + b)]"
    using adxl345_link.samples_arrive [OF assms, of oid msgs] unfolding k by blast
  have "\<exists>out. adxl_convert_samples 0 (map (\<lambda>i. adxl_bytes (msgs ! i)) js) = Inr (of_nat (length (filter adxl_data_error (map ((!) msgs) js))), out)
      \<and> map signed_xyz out = map adxl_reading (filter (\<lambda>msg. \<not> adxl_data_error msg) (map ((!) msgs) js))" for js
    using adxl_convert_good [of 0 "map ((!) msgs) js"] by (simp add: comp_def)
  with t g show ?thesis by (intro exI [of _ t] exI [of _ ds]) (simp add: Let_def comp_def)
qed

text \<open>
  C99: the readings of the LIS2DW arrive at the host, in the same way: from any batch of messages near the last known one
  the host recovers the numbers of the readings and their three signed values.
\<close>

theorem lis2dw_readings_arrive:
  assumes "bulk_ok 6 (lis_sb (lis2dws s a))" "sb_data_count (lis_sb (lis2dws s a)) = 0" "sb_sequence (lis_sb (lis2dws s a)) = 0" "\<not> in_sendf s"
  shows "\<exists>t ds. foldr (\<lambda>msg. mseq (lis2dw_store a oid msg)) msgs (ret ()) s = (Inr (), t) \<and> sent t = sent s @ bulk_messages oid 0 ds
    \<and> length msgs < 8 * Suc (length ds)
    \<and> (\<forall>m b l. m + b \<le> length ds \<longrightarrow> l \<le> m + 2 ^ 15 \<longrightarrow> m + b \<le> l + 2 ^ 15 \<longrightarrow>
        (let got = pull_samples \<lparr>fr_bytes_per_sample = 6, fr_last_sequence = of_nat l\<rparr> (batch oid m b ds)
         in map fst got = map of_nat [8 * m..<8 * (m + b)]
          \<and> lis2dw_convert_samples (map snd got) = Inr (map (\<lambda>i. lis2dw_reading (msgs ! i)) [8 * m..<8 * (m + b)])))"
proof -
  have k: "SENSOR_BULK_SIZE div 6 = 8" by (simp add: bulk_consts)
  obtain t ds where t: "foldr (\<lambda>msg. mseq (lis2dw_store a oid msg)) msgs (ret ()) s = (Inr (), t)" "sent t = sent s @ bulk_messages oid 0 ds"
      "length msgs < 8 * Suc (length ds)"
    and g: "\<forall>m b l. m + b \<le> length ds \<longrightarrow> l \<le> m + 2 ^ 15 \<longrightarrow> m + b \<le> l + 2 ^ 15 \<longrightarrow>
        pull_samples \<lparr>fr_bytes_per_sample = 6, fr_last_sequence = of_nat l\<rparr> (batch oid m b ds)
          = map (\<lambda>i. (of_nat i, lis2dw_bytes (msgs ! i))) [8 * m..<8 * (m + b)]"
    using lis2dw_link.samples_arrive [OF assms, of oid msgs] unfolding k by blast
  have "lis2dw_convert_samples (map (\<lambda>i. lis2dw_bytes (msgs ! i)) js) = Inr (map (\<lambda>i. lis2dw_reading (msgs ! i)) js)" for js
    using lis2dw_convert_good [of "map ((!) msgs) js"] by (simp add: comp_def)
  with t g show ?thesis by (intro exI [of _ t] exI [of _ ds]) (simp add: Let_def comp_def)
qed

text \<open>
  C99: the host treats a negative reading of the ADXL345 as a huge positive one.  The decoded words are right as signed
  numbers, but the code declares them unsigned and multiplies them with the scale: a reading \<open>v\<close> below zero counts as
  \<open>2 ^ 32 + v\<close>.
\<close>

theorem adxl345_negative_reading_huge:
  assumes "\<not> adxl_data_error msg" "i < 3" "adxl_reading msg ! i < 0"
  shows "adxl_raw_xyz (adxl_decode (adxl_bytes msg)) ! i = 2 ^ 32 + adxl_reading msg ! i
    \<and> 2 ^ 32 - 4096 \<le> adxl_raw_xyz (adxl_decode (adxl_bytes msg)) ! i"
proof -
  let ?v = "adxl_reading msg ! i"
  have r: "- 4096 \<le> ?v"
    using host_value_reading(2) [OF adxl_decode_bytes(3) [OF assms(1)]] host_value_reading(2) [OF adxl_decode_bytes(4) [OF assms(1)]]
      host_value_reading(2) [OF adxl_decode_bytes(5) [OF assms(1)]] assms(2) by (auto simp: adxl_reading_def nth_Cons' less_Suc_eq numeral_3_eq_3)
  have "length (adxl_reading msg) = 3" by (simp add: adxl_reading_def)
  then have "adxl_raw_xyz (adxl_decode (adxl_bytes msg)) ! i = ?v mod 2 ^ 32"
    using assms(2) by (simp add: adxl_decode_reading(2) [OF assms(1)])
  also have "\<dots> = 2 ^ 32 + ?v" using mod_pos_pos_trivial [of "?v + 2 ^ 32" "2 ^ 32"] mod_add_self2 [of ?v "2 ^ 32"] r assms(3) by simp
  finally show ?thesis using r by simp
qed

text \<open>A chip that reports -1, 1 and 2, and a chip with a transmission error.\<close>

definition example_msg :: "u8 list" where
  "example_msg = [0, 0xff, 0xff, 1, 0, 2, 0, 0x90, 0]"

lemma example_msg_good: "\<not> adxl_data_error example_msg" "adxl_data_error (example_msg[7 := 0])" "adxl_reading example_msg = [- 1, 1, 2]"
  "lis2dw_reading example_msg = [- 1, 1, 2]"
  by code_simp+

theorem adxl345_negative_reading_huge_witness:
  "adxl_raw_xyz (adxl_decode (adxl_bytes example_msg)) ! 0 = 4294967295"
  using adxl345_negative_reading_huge [of example_msg 0] by (simp add: example_msg_good)

theorem adxl345_readings_arrive_witness:
  "\<exists>t ds out. foldr (\<lambda>msg. mseq (adxl_store 700 9 msg)) (example_msg[7 := 0] # replicate 9 example_msg) (ret ()) example_accel = (Inr (), t)
    \<and> sent t = bulk_messages 9 0 ds \<and> adxl_convert_samples 0
       (map snd (pull_samples \<lparr>fr_bytes_per_sample = 5, fr_last_sequence = 3\<rparr> (batch 9 0 1 ds))) = Inr (1, out)
    \<and> map signed_xyz out = replicate 9 [- 1, 1, 2]"
proof -
  let ?msgs = "example_msg[7 := 0] # replicate 9 example_msg"
  have "bulk_ok 5 (ax_sb (adxl345s example_accel 700))" "sb_data_count (ax_sb (adxl345s example_accel 700)) = 0"
      "sb_sequence (ax_sb (adxl345s example_accel 700)) = 0" "\<not> in_sendf example_accel"
    by (simp_all add: example_accel_fields zero_adxl345_def zero_bulk_def bulk_ok_def bulk_consts)
  from adxl345_readings_arrive [OF this, of 9 ?msgs]
  obtain t ds where t: "foldr (\<lambda>msg. mseq (adxl_store 700 9 msg)) ?msgs (ret ()) example_accel = (Inr (), t)" "sent t = sent example_accel @ bulk_messages 9 0 ds"
      "length ?msgs < 10 * Suc (length ds)"
    and g: "\<And>m b l. m + b \<le> length ds \<Longrightarrow> l \<le> m + 2 ^ 15 \<Longrightarrow> m + b \<le> l + 2 ^ 15 \<Longrightarrow>
        (\<exists>out. adxl_convert_samples 0 (map snd (pull_samples \<lparr>fr_bytes_per_sample = 5, fr_last_sequence = of_nat l\<rparr> (batch 9 m b ds)))
           = Inr (of_nat (length (filter adxl_data_error (map ((!) ?msgs) [10 * m..<10 * (m + b)]))), out)
         \<and> map signed_xyz out = map adxl_reading (filter (\<lambda>msg. \<not> adxl_data_error msg) (map ((!) ?msgs) [10 * m..<10 * (m + b)])))"
    unfolding Let_def by blast
  have "map ((!) ?msgs) [0..<10] = ?msgs" using map_nth [of ?msgs] by simp
  then have m: "map ((!) ?msgs) [10 * 0..<10 * (0 + 1)] = ?msgs" by simp
  have f: "length (filter adxl_data_error ?msgs) = 1" "map adxl_reading (filter (\<lambda>msg. \<not> adxl_data_error msg) ?msgs) = replicate 9 [- 1, 1, 2]"
    by (simp_all add: example_msg_good)
  have "0 + 1 \<le> length ds" using t(3) by (cases ds) simp_all
  from g [OF this, of 3, unfolded m f] t(1,2) show ?thesis by (auto simp: example_accel_fields)
qed

theorem lis2dw_readings_arrive_witness:
  "\<exists>t ds. foldr (\<lambda>msg. mseq (lis2dw_store 700 9 msg)) (replicate 8 example_msg) (ret ()) example_accel = (Inr (), t)
    \<and> sent t = bulk_messages 9 0 ds \<and> lis2dw_convert_samples
       (map snd (pull_samples \<lparr>fr_bytes_per_sample = 6, fr_last_sequence = 3\<rparr> (batch 9 0 1 ds))) = Inr (replicate 8 [- 1, 1, 2])"
proof -
  let ?msgs = "replicate 8 example_msg"
  have "bulk_ok 6 (lis_sb (lis2dws example_accel 700))" "sb_data_count (lis_sb (lis2dws example_accel 700)) = 0"
      "sb_sequence (lis_sb (lis2dws example_accel 700)) = 0" "\<not> in_sendf example_accel"
    by (simp_all add: example_accel_fields zero_lis2dw_def zero_bulk_def bulk_ok_def bulk_consts)
  from lis2dw_readings_arrive [OF this, of 9 ?msgs]
  obtain t ds where t: "foldr (\<lambda>msg. mseq (lis2dw_store 700 9 msg)) ?msgs (ret ()) example_accel = (Inr (), t)" "sent t = sent example_accel @ bulk_messages 9 0 ds"
      "length ?msgs < 8 * Suc (length ds)"
    and g: "\<And>m b l. m + b \<le> length ds \<Longrightarrow> l \<le> m + 2 ^ 15 \<Longrightarrow> m + b \<le> l + 2 ^ 15 \<Longrightarrow>
        lis2dw_convert_samples (map snd (pull_samples \<lparr>fr_bytes_per_sample = 6, fr_last_sequence = of_nat l\<rparr> (batch 9 m b ds)))
           = Inr (map (\<lambda>i. lis2dw_reading (?msgs ! i)) [8 * m..<8 * (m + b)])"
    unfolding Let_def by blast
  have "map (\<lambda>i. lis2dw_reading (?msgs ! i)) [8 * 0..<8 * (0 + 1)] = replicate 8 [- 1, 1, 2]"
    by (rule nth_equalityI) (simp_all add: example_msg_good)
  moreover have "0 + 1 \<le> length ds" using t(3) by (cases ds) simp_all
  ultimately show ?thesis using g [of 0 1 3] t(1,2) by (intro exI [of _ t] exI [of _ ds]) (simp add: example_accel_fields)
qed

end
