(* ===== verification/Ringbuffer.thy ===== *)
theory Ringbuffer
  imports Command "HOL-Library.Monad_Syntax"
begin

text \<open>
  The ring buffer between the receive interrupt and the parser of the boot loader,
  \<open>src/src/ringbuffer.h\<close>.  The indices \<open>in\<close> and \<open>out\<close> run freely and wrap at 32 bits.  A copy that
  leaves one of its arrays is \<open>None\<close>.
\<close>

section \<open>Copies from arrays\<close>

text \<open>Reading \<open>n\<close> bytes from position \<open>i\<close> of an array.\<close>

definition load_bytes :: "u8 list \<Rightarrow> nat \<Rightarrow> nat \<Rightarrow> u8 list option" where
  "load_bytes b i n = (if i + n \<le> length b then Some (take n (drop i b)) else None)"

section \<open>The buffer\<close>

record ringbuffer =
  rb_buf :: "u8 list"
  rb_in :: u32
  rb_out :: u32
  rb_size :: u32

definition ringbuffer_init :: "u8 list \<Rightarrow> u32 \<Rightarrow> ringbuffer" where
  "ringbuffer_init buf sz = \<lparr>rb_buf = buf, rb_in = 0, rb_out = 0, rb_size = sz\<rparr>"

definition ringbuffer_min :: "u32 \<Rightarrow> u32 \<Rightarrow> u32" where
  "ringbuffer_min a b = (if a > b then b else a)"

definition ringbuffer_put :: "ringbuffer \<Rightarrow> u8 list \<Rightarrow> u32 \<Rightarrow> (u32 \<times> ringbuffer) option" where
  "ringbuffer_put rb buf len0 =
     (let len = ringbuffer_min len0 (rb_size rb - rb_in rb + rb_out rb);
          pos = rb_in rb AND (rb_size rb - 1);
          l = ucast (ringbuffer_min len (rb_size rb - pos)) :: u16
      in do {
        x \<leftarrow> load_bytes buf 0 (unat l);
        b1 \<leftarrow> write_bytes (rb_buf rb) (unat pos) x;
        y \<leftarrow> load_bytes buf (unat l) (unat (len - ucast l));
        b2 \<leftarrow> write_bytes b1 0 y;
        Some (len, rb\<lparr>rb_buf := b2, rb_in := rb_in rb + len\<rparr>)
      })"

text \<open>The bytes that \<open>ringbuffer_get\<close> copies out, and the buffer behind it.\<close>

definition ringbuffer_get :: "ringbuffer \<Rightarrow> u32 \<Rightarrow> (u8 list \<times> ringbuffer) option" where
  "ringbuffer_get rb len0 =
     (let len = ringbuffer_min len0 (rb_in rb - rb_out rb);
          pos = rb_out rb AND (rb_size rb - 1);
          l = ucast (ringbuffer_min len (rb_size rb - pos)) :: u16
      in do {
        x \<leftarrow> load_bytes (rb_buf rb) (unat pos) (unat l);
        y \<leftarrow> load_bytes (rb_buf rb) 0 (unat (len - ucast l));
        Some (x @ y, rb\<lparr>rb_out := rb_out rb + len\<rparr>)
      })"

definition ringbuffer_available_get_length :: "ringbuffer \<Rightarrow> u32" where
  "ringbuffer_available_get_length rb = rb_in rb - rb_out rb"

definition ringbuffer_available_put_length :: "ringbuffer \<Rightarrow> u32" where
  "ringbuffer_available_put_length rb = rb_size rb - ringbuffer_available_get_length rb"

section \<open>Circular reading of a list\<close>

definition ring :: "'a list \<Rightarrow> nat \<Rightarrow> nat \<Rightarrow> 'a list" where
  "ring b p c = map (\<lambda>i. b ! ((p + i) mod length b)) [0..<c]"

lemma ring_length [simp]: "length (ring b p c) = c"
  by (simp add: ring_def)

lemma ring_nth: "i < c \<Longrightarrow> ring b p c ! i = b ! ((p + i) mod length b)"
  by (simp add: ring_def)

lemma ring_mod [simp]: "ring b (p mod length b) c = ring b p c"
  by (simp add: ring_def mod_add_left_eq)

lemma ring_append: "ring b p (c + d) = ring b p c @ ring b (p + c) d"
  by (rule nth_equalityI) (auto simp: ring_nth nth_append add.assoc)

lemma wrap_index: "p < n \<Longrightarrow> i < n \<Longrightarrow> (p + i) mod n = (if p + i < n then p + i else p + i - n)" for p n i :: nat
  by (simp add: mod_if)

text \<open>A read that wraps is two plain reads.\<close>

lemma ring_two_reads:
  assumes "p < length b" "c \<le> length b" "l = min c (length b - p)"
  shows "ring b p c = take l (drop p b) @ take (c - l) b"
proof (rule nth_equalityI)
  fix i assume "i < length (ring b p c)"
  then have i: "i < c" by simp
  then have "(p + i) mod length b = (if p + i < length b then p + i else p + i - length b)"
    using assms by (intro wrap_index) auto
  then show "ring b p c ! i = (take l (drop p b) @ take (c - l) b) ! i"
    using i assms by (auto simp: ring_nth nth_append add.commute)
qed (use assms in auto)

text \<open>A write that wraps is two plain writes, and leaves the bytes outside of it alone.\<close>

definition ring_write :: "'a list \<Rightarrow> nat \<Rightarrow> 'a list \<Rightarrow> 'a list" where
  "ring_write b p xs = (let l = min (length xs) (length b - p); b1 = take p b @ take l xs @ drop (p + l) b
     in drop l xs @ drop (length xs - l) b1)"

lemma ring_write_length [simp]:
  "p < length b \<Longrightarrow> length xs \<le> length b \<Longrightarrow> length (ring_write b p xs) = length b"
  by (cases "length xs \<le> length b - p") (simp_all add: ring_write_def Let_def min_absorb2)

lemma ring_write_nth:
  assumes "p < length b" "length xs \<le> length b" "j < length b"
  shows "ring_write b p xs ! j =
    (if p \<le> j \<and> j - p < length xs then xs ! (j - p)
     else if j < p \<and> j + length b - p < length xs then xs ! (j + length b - p) else b ! j)"
proof (cases "length xs \<le> length b - p")
  case True
  then show ?thesis using assms by (auto simp: ring_write_def Let_def nth_append)
next
  case False
  define l where "l = length b - p"
  have l: "length b = p + l" "l < length xs" "length xs \<le> p + l" using assms False by (auto simp: l_def)
  then have "ring_write b p xs = drop l xs @ drop (length xs - l) (take p b @ take l xs)"
    by (simp add: ring_write_def Let_def min_absorb2)
  note w = this
  consider "j < length xs - l" | "length xs - l \<le> j" "j < p" | "p \<le> j" "length xs - l \<le> j" by linarith
  then show ?thesis
  proof cases
    case 1
    moreover from this have "j < p" "j + l < length xs" using l by linarith+
    ultimately show ?thesis unfolding w using l by (simp add: nth_append add.commute)
  next
    case 2
    moreover from this have "j - (length xs - l) < p - (length xs - l)" "\<not> j + l < length xs" using l by linarith+
    ultimately show ?thesis unfolding w using l by (simp add: nth_append)
  next
    case 3
    moreover from this have "\<not> j - (length xs - l) < p - (length xs - l)" "j - p < length xs" "j - p < l"
      "j - (length xs - l) - (p - (length xs - l)) = j - p" using l assms(3) by linarith+
    ultimately show ?thesis unfolding w using l by (simp add: nth_append)
  qed
qed

lemma ring_write_inside:
  assumes "p < length b" "length xs \<le> length b" "i < length xs"
  shows "ring_write b p xs ! ((p + i) mod length b) = xs ! i"
  using assms wrap_index [of p "length b" i] by (auto simp: ring_write_nth)

lemma ring_write_outside:
  assumes "p < length b" "length xs + i < length b"
  shows "ring_write b p xs ! ((p + length xs + i) mod length b) = b ! ((p + length xs + i) mod length b)"
  using assms wrap_index [of p "length b" "length xs + i"]
  by (auto simp: ring_write_nth add.assoc split: if_splits)

lemma ring_push:
  assumes "o' < length b" "c + length xs \<le> length b"
  shows "ring (ring_write b ((o' + c) mod length b) xs) o' (c + length xs) = ring b o' c @ xs"
proof -
  let ?n = "length b" and ?p = "(o' + c) mod length b" and ?b = "ring_write b ((o' + c) mod length b) xs"
  have p: "?p < ?n" using assms(1) by (intro mod_less_divisor) linarith
  have len: "length ?b = ?n" using p assms by simp
  have "ring ?b (o' + c) (length xs) = xs"
  proof (rule nth_equalityI)
    fix i assume "i < length (ring ?b (o' + c) (length xs))"
    then have i: "i < length xs" by simp
    have "(o' + c + i) mod ?n = (?p + i) mod ?n" by (simp add: mod_add_left_eq)
    then show "ring ?b (o' + c) (length xs) ! i = xs ! i"
      using i ring_write_inside [OF p, of xs i] assms by (simp add: ring_nth len)
  qed simp
  moreover have "ring ?b o' c = ring b o' c"
  proof (rule nth_equalityI)
    fix i assume "i < length (ring ?b o' c)"
    then have i: "i < c" by simp
    define k where "k = ?n - c - length xs + i"
    have e: "(?p + length xs + k) mod ?n = (o' + i) mod ?n"
    proof -
      have "(?p + length xs + k) mod ?n = (o' + c + length xs + k) mod ?n"
        by (metis mod_add_left_eq)
      also have "o' + c + length xs + k = ?n + (o' + i)" using assms by (simp add: k_def)
      finally show ?thesis by simp
    qed
    have "length xs + k < ?n" using assms i by (simp add: k_def)
    from ring_write_outside [OF p this] show "ring ?b o' c ! i = ring b o' c ! i"
      using i by (simp add: ring_nth len e)
  qed simp
  ultimately show ?thesis by (simp add: ring_append)
qed

section \<open>The buffer is a bounded queue\<close>

text \<open>
  The size is a power of two whose half fits the 16-bit length of a copy, the array has that size, and
  no more than that is stored.
\<close>

definition rb_inv :: "ringbuffer \<Rightarrow> bool" where
  "rb_inv rb \<longleftrightarrow> (\<exists>k\<le>15. rb_size rb = 2 ^ k) \<and> length (rb_buf rb) = unat (rb_size rb)
     \<and> rb_in rb - rb_out rb \<le> rb_size rb"

definition rb_content :: "ringbuffer \<Rightarrow> u8 list" where
  "rb_content rb = ring (rb_buf rb) (unat (rb_out rb)) (unat (rb_in rb - rb_out rb))"

lemma rb_content_length [simp]: "length (rb_content rb) = unat (rb_in rb - rb_out rb)"
  by (simp add: rb_content_def)

lemma unat_pow2: "k \<le> 31 \<Longrightarrow> unat (2 ^ k :: u32) = 2 ^ k"
  using unat_of_nat [where 'a = 32, of "2 ^ k"] power_strict_increasing [of k 32 "2::nat"] by simp

lemma and_pow2_minus_1:
  assumes "k \<le> 31"
  shows "unat (x AND (2 ^ k - 1) :: u32) = unat x mod 2 ^ k"
proof -
  have "x AND (2 ^ k - 1) = take_bit k x" by (simp add: take_bit_eq_mask mask_eq_exp_minus_1)
  then show ?thesis unfolding unsigned_take_bit_eq [symmetric] take_bit_eq_mod [symmetric] by simp
qed

lemma unat_add_mod_pow2:
  assumes "k \<le> 32"
  shows "unat (x + y :: u32) mod 2 ^ k = (unat x + unat y) mod 2 ^ k"
proof -
  have "(2::nat) ^ k dvd 2 ^ 32" using assms by (rule le_imp_power_dvd)
  then show ?thesis by (simp add: unat_word_ariths mod_mod_cancel)
qed

lemma rb_inv_cases:
  assumes "rb_inv rb"
  obtains k where "k \<le> 15" "rb_size rb = 2 ^ k" "length (rb_buf rb) = 2 ^ k" "unat (rb_size rb) = 2 ^ k"
    "unat (rb_in rb - rb_out rb) \<le> 2 ^ k" "(2::nat) ^ k \<le> 32768"
proof -
  obtain k where k: "k \<le> 15" "rb_size rb = 2 ^ k" using assms by (auto simp: rb_inv_def)
  then have u: "unat (rb_size rb) = 2 ^ k" by (simp add: unat_pow2)
  have "(2::nat) ^ k \<le> 2 ^ 15" using k(1) by (intro power_increasing) auto
  then show thesis using that [OF k] u assms by (auto simp: rb_inv_def word_le_nat_alt)
qed

lemma ringbuffer_min_unat: "unat (ringbuffer_min a b) = min (unat a) (unat b)"
  by (simp add: ringbuffer_min_def word_less_nat_alt min_def)

text \<open>The 16-bit length of the first copy.\<close>

lemma first_copy:
  assumes k: "k \<le> 15" and b: "unat len \<le> 2 ^ k"
  shows "unat (ucast (ringbuffer_min len (2 ^ k - (x AND (2 ^ k - 1)))) :: u16)
    = min (unat len) (2 ^ k - unat x mod 2 ^ k)"
proof -
  have u: "unat (2 ^ k :: u32) = 2 ^ k" "unat (x AND (2 ^ k - 1) :: u32) = unat x mod 2 ^ k"
    using k by (simp_all add: unat_pow2 and_pow2_minus_1)
  have "(x AND (2 ^ k - 1)) \<le> (2 ^ k :: u32)" unfolding word_le_nat_alt u by simp
  then have d: "unat (2 ^ k - (x AND (2 ^ k - 1)) :: u32) = 2 ^ k - unat x mod 2 ^ k"
    by (simp add: unat_sub u)
  have "(2::nat) ^ k \<le> 2 ^ 15" using k by (intro power_increasing) auto
  then have "min (unat len) (2 ^ k - unat x mod 2 ^ k) < 2 ^ 16" using b by simp
  then show ?thesis
    by (simp add: unsigned_ucast_eq take_bit_nat_eq_self ringbuffer_min_unat d)
qed

lemma unat_ucast_u16: "unat (ucast (x :: u16) :: u32) = unat x"
  using unat_bounds(2) [of x] by (simp add: unsigned_ucast_eq take_bit_nat_eq_self)

lemma first_copy_fits: "p < n \<Longrightarrow> p + min m (n - p) \<le> n" for p n m :: nat
  by simp

lemma two_stores:
  assumes "p < length b" "n \<le> length xs" "n \<le> length b" "l = min n (length b - p)"
  shows "write_bytes b p (take l xs) = Some (take p b @ take l xs @ drop (p + l) b)"
    "write_bytes (take p b @ take l xs @ drop (p + l) b) 0 (take (n - l) (drop l xs)) = Some (ring_write b p (take n xs))"
proof -
  have l: "l \<le> length xs" "p + l \<le> length b" "l \<le> n" using assms by auto
  then show "write_bytes b p (take l xs) = Some (take p b @ take l xs @ drop (p + l) b)"
    by (simp add: write_bytes_def)
  have "take (n - l) (drop l xs) = drop l (take n xs)" by (simp add: drop_take)
  moreover have "take l xs = take l (take n xs)" using l by (simp add: min_absorb1)
  moreover have "length (take n xs) = n" using assms by simp
  moreover have "n - l \<le> length b" using assms by linarith
  ultimately show "write_bytes (take p b @ take l xs @ drop (p + l) b) 0 (take (n - l) (drop l xs))
      = Some (ring_write b p (take n xs))"
    unfolding write_bytes_def ring_write_def Let_def assms(4) [symmetric]
    using l assms(1) by (simp add: assms(4) [symmetric])
qed

lemma ringbuffer_put_ok:
  assumes i: "rb_inv rb" and len: "unat len \<le> length buf"
  defines "n \<equiv> ringbuffer_min len (ringbuffer_available_put_length rb)"
  obtains rb' where "ringbuffer_put rb buf len = Some (n, rb')" "rb_inv rb'"
    "rb_content rb' = rb_content rb @ take (unat n) buf"
proof -
  obtain k where k: "k \<le> 15" "rb_size rb = 2 ^ k" "length (rb_buf rb) = 2 ^ k" "unat (rb_size rb) = 2 ^ k"
    and c: "unat (rb_in rb - rb_out rb) \<le> 2 ^ k" "(2::nat) ^ k \<le> 32768" by (rule rb_inv_cases [OF i])
  let ?b = "rb_buf rb" and ?o = "unat (rb_out rb)" and ?c = "unat (rb_in rb - rb_out rb)"
    and ?p = "unat (rb_in rb) mod 2 ^ k"
  define l where "l = min (unat n) (2 ^ k - ?p)"
  have free: "rb_size rb - rb_in rb + rb_out rb = ringbuffer_available_put_length rb"
    by (simp add: ringbuffer_available_put_length_def ringbuffer_available_get_length_def)
  have "rb_in rb - rb_out rb \<le> rb_size rb" using i by (simp add: rb_inv_def)
  then have "unat (ringbuffer_available_put_length rb) = 2 ^ k - ?c"
    by (simp add: ringbuffer_available_put_length_def ringbuffer_available_get_length_def unat_sub k(4))
  then have n: "unat n \<le> unat len" "unat n \<le> 2 ^ k - ?c" by (simp_all add: n_def ringbuffer_min_unat)
  then have n2: "unat n \<le> 2 ^ k" by simp
  have lw: "unat (ucast (ringbuffer_min n (2 ^ k - (rb_in rb AND (2 ^ k - 1)))) :: u16) = l"
    unfolding l_def by (rule first_copy [OF k(1) n2])
  let ?l = "ucast (ringbuffer_min n (2 ^ k - (rb_in rb AND (2 ^ k - 1)))) :: u16"
  have pos: "unat (rb_in rb AND (2 ^ k - 1)) = ?p" using k(1) by (simp add: and_pow2_minus_1)
  have p: "?p = (?o + ?c) mod 2 ^ k"
    using unat_add_mod_pow2 [of k "rb_out rb" "rb_in rb - rb_out rb"] k(1) by simp
  have ul: "unat (ucast ?l :: u32) = l" using lw unat_ucast_u16 [of ?l] by (rule trans [rotated])
  then have "(ucast ?l :: u32) \<le> n" by (simp add: word_le_nat_alt l_def)
  then have rest: "unat (n - ucast ?l) = unat n - l" by (simp add: unat_sub ul)
  have pb: "?p < length ?b" using k(3) by simp
  have nb: "unat n \<le> length buf" "unat n \<le> length ?b" using n n2 len k(3) by simp_all
  note st = two_stores [OF pb nb, of l, unfolded k(3), OF l_def]
  let ?w = "ring_write ?b ?p (take (unat n) buf)"
  let ?rb = "rb\<lparr>rb_buf := ?w, rb_in := rb_in rb + n\<rparr>"
  have ld: "load_bytes buf 0 l = Some (take l buf)" "load_bytes buf l (unat n - l) = Some (take (unat n - l) (drop l buf))"
    using nb by (auto simp: load_bytes_def l_def)
  have put: "ringbuffer_put rb buf len = Some (n, ?rb)"
    unfolding ringbuffer_put_def free n_def [symmetric] Let_def unfolding k(2) pos lw rest ld by (simp add: st)
  have nc: "unat (rb_in rb + n - rb_out rb) = ?c + unat n"
  proof -
    have "rb_in rb + n - rb_out rb = (rb_in rb - rb_out rb) + n" by simp
    moreover have "?c + unat n \<le> 2 ^ k" using n(2) c(1) by simp
    then have "?c + unat n < 2 ^ 32" using c(2) by simp
    then have "unat ((rb_in rb - rb_out rb) + n) = ?c + unat n" by (simp only: unat_word_ariths) simp
    ultimately show ?thesis by (simp only:)
  qed
  have lw': "length ?w = 2 ^ k" using pb nb k(3) by simp
  have "rb_inv ?rb"
    using k nc n c lw' unfolding rb_inv_def by (auto simp: word_le_nat_alt unat_pow2)
  moreover have "rb_content ?rb = rb_content rb @ take (unat n) buf"
  proof -
    have "?o mod 2 ^ k < length ?b" "?c + length (take (unat n) buf) \<le> length ?b"
      using nb n c k(3) by auto
    note push = ring_push [OF this]
    have "(?o mod 2 ^ k + ?c) mod 2 ^ k = ?p" using p by (simp add: mod_add_left_eq)
    then have "ring ?w (?o mod 2 ^ k) (?c + unat n) = ring ?b (?o mod 2 ^ k) ?c @ take (unat n) buf"
      using push nb by (simp add: k(3))
    then show ?thesis
      using ring_mod [of ?b ?o ?c, unfolded k(3)] ring_mod [of ?w ?o "?c + unat n", unfolded lw']
      by (simp add: rb_content_def nc)
  qed
  ultimately show thesis using that put by blast
qed

lemma ringbuffer_get_ok:
  fixes len :: u32
  assumes i: "rb_inv rb"
  defines "n \<equiv> ringbuffer_min len (ringbuffer_available_get_length rb)"
  obtains xs rb' where "ringbuffer_get rb len = Some (xs, rb')" "rb_inv rb'" "length xs = unat n"
    "rb_content rb = xs @ rb_content rb'"
proof -
  obtain k where k: "k \<le> 15" "rb_size rb = 2 ^ k" "length (rb_buf rb) = 2 ^ k" "unat (rb_size rb) = 2 ^ k"
    and c: "unat (rb_in rb - rb_out rb) \<le> 2 ^ k" "(2::nat) ^ k \<le> 32768" by (rule rb_inv_cases [OF i])
  let ?b = "rb_buf rb" and ?c = "unat (rb_in rb - rb_out rb)" and ?p = "unat (rb_out rb) mod 2 ^ k"
  have n: "unat n \<le> ?c" by (simp add: n_def ringbuffer_min_unat ringbuffer_available_get_length_def)
  then have n2: "unat n \<le> 2 ^ k" using c by simp
  define l where "l = min (unat n) (2 ^ k - ?p)"
  let ?l = "ucast (ringbuffer_min n (2 ^ k - (rb_out rb AND (2 ^ k - 1)))) :: u16"
  have lw: "unat ?l = l" unfolding l_def by (rule first_copy [OF k(1) n2])
  have pos: "unat (rb_out rb AND (2 ^ k - 1)) = ?p" using k(1) by (simp add: and_pow2_minus_1)
  have ul: "unat (ucast ?l :: u32) = l" using lw unat_ucast_u16 [of ?l] by (rule trans [rotated])
  then have "(ucast ?l :: u32) \<le> n" by (simp add: word_le_nat_alt l_def)
  then have rest: "unat (n - ucast ?l) = unat n - l" by (simp add: unat_sub ul)
  have pb: "?p < 2 ^ k" by simp
  have ld: "load_bytes ?b ?p l = Some (take l (drop ?p ?b))" "load_bytes ?b 0 (unat n - l) = Some (take (unat n - l) ?b)"
    using n2 first_copy_fits [OF pb, of "unat n"] by (auto simp: load_bytes_def l_def k(3))
  let ?rb = "rb\<lparr>rb_out := rb_out rb + n\<rparr>"
  have "take l (drop ?p ?b) @ take (unat n - l) ?b = ring ?b ?p (unat n)"
    using ring_two_reads [of ?p ?b "unat n" l] n2 pb by (simp add: l_def k(3))
  then have get: "ringbuffer_get rb len = Some (ring ?b ?p (unat n), ?rb)"
    unfolding ringbuffer_get_def ringbuffer_available_get_length_def [symmetric] n_def [symmetric] Let_def
    unfolding k(2) pos lw rest ld by simp
  have nc: "unat (rb_in rb - (rb_out rb + n)) = ?c - unat n"
  proof -
    have "rb_in rb - (rb_out rb + n) = (rb_in rb - rb_out rb) - n" by simp
    moreover have "n \<le> rb_in rb - rb_out rb" using n by (simp add: word_le_nat_alt)
    ultimately show ?thesis by (simp only: unat_sub)
  qed
  have "rb_inv ?rb" using k nc c unfolding rb_inv_def by (auto simp: word_le_nat_alt unat_pow2)
  moreover have "rb_content rb = ring ?b ?p (unat n) @ rb_content ?rb"
  proof -
    have "rb_content ?rb = ring ?b (?p + unat n) (?c - unat n)"
      using unat_add_mod_pow2 [of k "rb_out rb" n] k(1) ring_mod [of ?b "unat (rb_out rb + n)"]
        ring_mod [of ?b "?p + unat n"]
      by (simp add: rb_content_def nc k(3) mod_add_left_eq)
    then show ?thesis
      using ring_append [of ?b ?p "unat n" "?c - unat n"] n ring_mod [of ?b "unat (rb_out rb)"]
      by (simp add: rb_content_def k(3))
  qed
  ultimately show thesis using that [OF get] by simp
qed

section \<open>Refinement of a bounded queue\<close>

text \<open>
  A client of the buffer is a sequence of puts and gets.  On the buffer it collects the bytes that the
  gets return; on the specification it works on a list of at most \<open>cap\<close> bytes.
\<close>

datatype rb_op = Put "u8 list" | Get u32

fun rb_run :: "rb_op list \<Rightarrow> ringbuffer \<Rightarrow> (u8 list \<times> ringbuffer) option" where
  "rb_run [] rb = Some ([], rb)"
| "rb_run (Put xs # ops) rb = do { (_, rb') \<leftarrow> ringbuffer_put rb xs (of_nat (length xs)); rb_run ops rb' }"
| "rb_run (Get n # ops) rb = do {
     (xs, rb') \<leftarrow> ringbuffer_get rb n; (ys, rb'') \<leftarrow> rb_run ops rb'; Some (xs @ ys, rb'') }"

fun queue_run :: "nat \<Rightarrow> rb_op list \<Rightarrow> u8 list \<Rightarrow> u8 list \<times> u8 list" where
  "queue_run cap [] q = ([], q)"
| "queue_run cap (Put xs # ops) q = queue_run cap ops (q @ take (cap - length q) xs)"
| "queue_run cap (Get n # ops) q = (let (ys, q') = queue_run cap ops (drop (unat n) q) in (take (unat n) q @ ys, q'))"

definition small_puts :: "rb_op list \<Rightarrow> bool" where
  "small_puts ops \<longleftrightarrow> list_all (\<lambda>op. case op of Put xs \<Rightarrow> length xs < 2 ^ 32 | Get n \<Rightarrow> True) ops"

lemma put_keeps_size: "ringbuffer_put rb xs n = Some (m, rb') \<Longrightarrow> rb_size rb' = rb_size rb"
  by (auto simp: ringbuffer_put_def Let_def split: bind_splits)

lemma get_keeps_size: "ringbuffer_get rb n = Some (xs, rb') \<Longrightarrow> rb_size rb' = rb_size rb"
  by (auto simp: ringbuffer_get_def Let_def split: bind_splits)

lemma put_length: "rb_inv rb \<Longrightarrow>
  unat (ringbuffer_available_put_length rb) = unat (rb_size rb) - length (rb_content rb)"
  by (simp add: ringbuffer_available_put_length_def ringbuffer_available_get_length_def rb_inv_def unat_sub)

lemma rb_run_refines:
  "rb_inv rb \<Longrightarrow> small_puts ops \<Longrightarrow>
   \<exists>rb'. rb_run ops rb = Some (fst (queue_run (unat (rb_size rb)) ops (rb_content rb)), rb')
     \<and> rb_inv rb' \<and> rb_content rb' = snd (queue_run (unat (rb_size rb)) ops (rb_content rb))"
proof (induction ops arbitrary: rb)
  case Nil
  then show ?case by simp
next
  case (Cons op ops)
  have sm: "small_puts ops" using Cons.prems(2) by (simp add: small_puts_def)
  show ?case
  proof (cases op)
    case (Put xs)
    have len: "unat (of_nat (length xs) :: u32) = length xs"
      using Cons.prems(2) Put by (simp add: small_puts_def unat_of_nat)
    let ?n = "ringbuffer_min (of_nat (length xs)) (ringbuffer_available_put_length rb)"
    obtain rb' where p: "ringbuffer_put rb xs (of_nat (length xs)) = Some (?n, rb')" "rb_inv rb'"
      "rb_content rb' = rb_content rb @ take (unat ?n) xs"
      by (rule ringbuffer_put_ok [OF Cons.prems(1) eq_imp_le [OF len]])
    have "take (unat ?n) xs = take (unat (rb_size rb) - length (rb_content rb)) xs"
      by (simp add: ringbuffer_min_unat len put_length [OF Cons.prems(1)] min_def)
    then show ?thesis
      using Cons.IH [OF p(2) sm] p put_keeps_size [OF p(1)] by (simp add: Put del: rb_content_length)
  next
    case (Get n)
    let ?n = "ringbuffer_min n (ringbuffer_available_get_length rb)"
    obtain xs rb' where g: "ringbuffer_get rb n = Some (xs, rb')" "rb_inv rb'" "length xs = unat ?n"
      "rb_content rb = xs @ rb_content rb'"
      by (rule ringbuffer_get_ok [OF Cons.prems(1)])
    have "length xs = min (unat n) (length (rb_content rb))"
      using g(3) by (simp add: ringbuffer_min_unat ringbuffer_available_get_length_def)
    then have "take (unat n) (rb_content rb) = xs" "drop (unat n) (rb_content rb) = rb_content rb'"
      using g(4) by (auto simp: min_def simp del: rb_content_length split: if_splits)
    then show ?thesis
      using Cons.IH [OF g(2) sm] g(1) get_keeps_size [OF g(1)] by (auto simp: Get split: prod.splits)
  qed
qed

lemma rb_inv_init: "k \<le> 15 \<Longrightarrow> length buf = 2 ^ k \<Longrightarrow> rb_inv (ringbuffer_init buf (2 ^ k))"
  by (auto simp: rb_inv_def ringbuffer_init_def unat_pow2)

text \<open>
  C24: the ring buffer between interrupt and parser implements a bounded queue.  Whatever the sequence
  of puts and gets and wherever the 32-bit indices stand, no copy leaves an array, the gets return the
  bytes of the queue in order, and a put drops exactly the bytes for which there is no room.
\<close>

theorem ringbuffer_refines_queue:
  assumes "rb_inv rb" "small_puts ops"
  shows "\<exists>rb'. rb_run ops rb = Some (fst (queue_run (unat (rb_size rb)) ops (rb_content rb)), rb')
     \<and> rb_inv rb' \<and> rb_content rb' = snd (queue_run (unat (rb_size rb)) ops (rb_content rb))"
  using assms by (rule rb_run_refines)

text \<open>An empty buffer of four bytes whose indices are about to wrap.\<close>

definition example_rb :: ringbuffer where
  "example_rb = \<lparr>rb_buf = [0, 0, 0, 0], rb_in = - 2, rb_out = - 2, rb_size = 4\<rparr>"

theorem ringbuffer_refines_queue_witness:
  "\<exists>rb'. rb_run [Put [1, 2, 3], Get 2, Put [4, 5, 6, 7], Get 9] example_rb = Some ([1, 2, 3, 4, 5, 6], rb')
     \<and> rb_inv rb' \<and> rb_content rb' = []"
proof -
  have i: "rb_inv example_rb"
    by (auto simp: rb_inv_def example_rb_def intro: exI [of _ 2])
  have c: "rb_content example_rb = []" by (simp add: rb_content_def example_rb_def ring_def)
  have s: "small_puts [Put [1, 2, 3], Get 2, Put [4, 5, 6, 7], Get 9]" by (simp add: small_puts_def)
  have q: "queue_run (unat (rb_size example_rb)) [Put [1, 2, 3], Get 2, Put [4, 5, 6, 7], Get 9] []
      = ([1, 2, 3, 4, 5, 6], [])"
    by (simp add: example_rb_def)
  from ringbuffer_refines_queue [OF i s] show ?thesis unfolding c q by simp
qed

end
