(* ===== verification/Bootcom.thy ===== *)
theory Bootcom
  imports Ringbuffer Console
begin

text \<open>
  The link of the boot loader, \<open>src/src/bootloader_com.c\<close>: the receive interrupt puts bytes into a ring
  buffer, a task takes them out in pieces and runs a state machine that recognises packages of the form
  A5 5A command length payload checksum.  The build of the boot loader shares the transmit buffer of
  \<open>src/src/generic/serial_irq.c\<close>, so its state extends that of the console.  The callback \<open>com_handle\<close>
  is an argument of the parser; it finds the payload in \<open>com_payload\<close>.
\<close>

section \<open>State\<close>

datatype parse_sta = STA_A5 | STA_5A | STA_CMD | STA_LEN1 | STA_LEN2 | STA_DATA | STA_CRC1 | STA_CRC2

definition BOOTLOADER_COM_MAX_PAYLOAD :: nat where "BOOTLOADER_COM_MAX_PAYLOAD = 4096"
definition BOOTLOADER_COM_MIN_PACKAGE_SIZE :: nat where "BOOTLOADER_COM_MIN_PACKAGE_SIZE = 2 + 2 + 1 + 2"
definition COM_PARSE_BUF_SIZE :: nat where "COM_PARSE_BUF_SIZE = 128"

lemmas com_consts = BOOTLOADER_COM_MAX_PAYLOAD_def BOOTLOADER_COM_MIN_PACKAGE_SIZE_def COM_PARSE_BUF_SIZE_def

record bootcom = console +
  com_rb :: ringbuffer
  com_parse_cmd :: u8
  com_parse_sta :: parse_sta
  com_parse_count :: u16
  com_parse_len :: u16
  com_parse_crc :: u16
  com_payload :: "u8 list"
  com_handle_set :: bool                 \<comment> \<open>com_handle is not NULL\<close>

text \<open>The variables at reset; the ring buffer of the link has 1024 bytes.\<close>

definition bootcom_static :: bootcom where
  "bootcom_static = console.extend console_static
     \<lparr>com_rb = ringbuffer_init (replicate 1024 0) 1024, com_parse_cmd = 0, com_parse_sta = STA_A5, com_parse_count = 0,
      com_parse_len = 0, com_parse_crc = 0, com_payload = replicate BOOTLOADER_COM_MAX_PAYLOAD 0, com_handle_set = False\<rparr>"

lemmas bootcom_static_simps = console_static_simps bootcom_static_def console.extend_def

type_synonym 's com_handler = "u8 \<Rightarrow> u16 \<Rightarrow> ('s bootcom_scheme, unit) cmd"

section \<open>Packages\<close>

definition bootloader_crc16_ccitt :: "u8 list \<Rightarrow> u16" where
  "bootloader_crc16_ccitt buf = foldl (\<lambda>crc byte.
     let data = byte XOR ucast (crc AND 0xff);
         data = data XOR push_bit 4 data
     in (push_bit 8 (ucast data) OR drop_bit 8 crc) XOR ucast (drop_bit 4 data) XOR push_bit 3 (ucast data)) 0xffff buf"

text \<open>\<open>bootloader_package_data\<close> on a buffer of \<open>size\<close> bytes; none when nothing is written.\<close>

definition bootloader_package_data :: "nat \<Rightarrow> u8 \<Rightarrow> u8 list \<Rightarrow> u8 list option" where
  "bootloader_package_data sz cmd payload =
     (let len = of_nat (length payload) :: u32; crc16 = bootloader_crc16_ccitt payload in
      if sz < BOOTLOADER_COM_MIN_PACKAGE_SIZE + length payload then None
      else Some ([0xa5, 0x5a, cmd, ucast (drop_bit 8 len), ucast (len AND 0xff)] @ payload
        @ [ucast (drop_bit 8 crc16), ucast (crc16 AND 0xff)]))"

section \<open>The interrupt\<close>

definition bootloader_set_handle :: "('s bootcom_scheme, unit) cmd" where
  "bootloader_set_handle = modify (\<lambda>s. s\<lparr>com_handle_set := True\<rparr>)"

definition bootloader_commit_data :: "u8 list \<Rightarrow> ('s bootcom_scheme, unit) cmd" where
  "bootloader_commit_data buf = mbind (gets com_rb) (\<lambda>rb.
     case ringbuffer_put rb buf (of_nat (length buf)) of
       None \<Rightarrow> fail (Fault ''ring buffer overrun'')
     | Some (_, rb') \<Rightarrow>
         mseq (modify (\<lambda>s. s\<lparr>com_rb := rb'\<rparr>)) (
         mbind (gets com_parse_sta) (\<lambda>sta.
         mwhen (unat (ringbuffer_available_get_length rb') \<ge> BOOTLOADER_COM_MIN_PACKAGE_SIZE \<or> sta \<noteq> STA_A5)
           (sched_wake_task Boot_com_wake))))"

section \<open>The parser\<close>

definition set_sta :: "parse_sta \<Rightarrow> ('s bootcom_scheme, unit) cmd" where
  "set_sta sta = modify (\<lambda>s. s\<lparr>com_parse_sta := sta\<rparr>)"

text \<open>The payload: copy what is there, as far as it belongs to the package.\<close>

definition com_parse_data :: "u8 list \<Rightarrow> ('s bootcom_scheme, nat) cmd" where
  "com_parse_data rest = mbind (gets (\<lambda>s. ucast (com_parse_len s) - ucast (com_parse_count s) :: u32)) (\<lambda>missing.
     let l = min (length rest) (unat missing) in
     mbind (gets (\<lambda>s. write_bytes (com_payload s) (unat (com_parse_count s)) (take l rest))) (\<lambda>p. case p of
       None \<Rightarrow> fail (Fault ''write past the payload'')
     | Some payload \<Rightarrow>
         mseq (modify (\<lambda>s. s\<lparr>com_payload := payload, com_parse_count := com_parse_count s + of_nat l\<rparr>)) (
         mbind (gets (\<lambda>s. com_parse_count s = com_parse_len s)) (\<lambda>full.
         mseq (set_sta (if full then STA_CRC1 else STA_DATA)) (ret l)))))"

text \<open>The last byte of the checksum: a good package is handed to the callback.\<close>

definition com_parse_end :: "'s com_handler \<Rightarrow> u8 \<Rightarrow> ('s bootcom_scheme, unit) cmd" where
  "com_parse_end handle b =
     mseq (modify (\<lambda>s. s\<lparr>com_parse_crc := push_bit 8 (com_parse_crc s) OR ucast b\<rparr>)) (
     mseq (mbind (gets com_parse_cmd) (\<lambda>cmd. mwhen (cmd = 1) (set_sta STA_CRC2))) (
     mbind (gets (\<lambda>s. load_bytes (com_payload s) 0 (unat (com_parse_len s)))) (\<lambda>p. case p of
       None \<Rightarrow> fail (Fault ''read past the payload'')
     | Some payload \<Rightarrow>
         mseq (mbind (gets (\<lambda>s. bootloader_crc16_ccitt payload = com_parse_crc s \<and> com_handle_set s)) (\<lambda>good.
           mwhen good (mbind (gets (\<lambda>s. (com_parse_cmd s, com_parse_len s))) (\<lambda>(cmd, len). handle cmd len))))
         (set_sta STA_A5))))"

text \<open>
  One round of the loop over the bytes fetched, with \<open>rest\<close> the bytes from \<open>com_parse_buf[i]\<close> on; the
  result is by how much \<open>i\<close> grows.
\<close>

definition com_parse_step :: "'s com_handler \<Rightarrow> u8 list \<Rightarrow> ('s bootcom_scheme, nat) cmd" where
  "com_parse_step handle rest = mbind (gets com_parse_sta) (\<lambda>sta. let b = hd rest in
     case sta of
       STA_A5 \<Rightarrow> mseq (set_sta (if b = 0xa5 then STA_5A else STA_A5)) (ret 1)
     | STA_5A \<Rightarrow> mseq (set_sta (if b = 0x5a then STA_CMD else STA_A5)) (ret 1)
     | STA_CMD \<Rightarrow> mseq (modify (\<lambda>s. s\<lparr>com_parse_cmd := b\<rparr>)) (mseq (set_sta STA_LEN1) (ret 1))
     | STA_LEN1 \<Rightarrow> mseq (modify (\<lambda>s. s\<lparr>com_parse_len := ucast b\<rparr>)) (mseq (set_sta STA_LEN2) (ret 1))
     | STA_LEN2 \<Rightarrow>
         mseq (modify (\<lambda>s. s\<lparr>com_parse_len := push_bit 8 (com_parse_len s) OR ucast b\<rparr>)) (
         mbind (gets com_parse_len) (\<lambda>len.
         mseq (if unat len \<le> BOOTLOADER_COM_MAX_PAYLOAD
               then mseq (modify (\<lambda>s. s\<lparr>com_parse_count := 0\<rparr>)) (set_sta STA_DATA)
               else set_sta STA_A5) (ret 1)))
     | STA_DATA \<Rightarrow> com_parse_data rest
     | STA_CRC1 \<Rightarrow> mseq (modify (\<lambda>s. s\<lparr>com_parse_crc := ucast b\<rparr>)) (mseq (set_sta STA_CRC2) (ret 1))
     | STA_CRC2 \<Rightarrow> mseq (com_parse_end handle b) (ret 1))"

definition com_parse :: "'s com_handler \<Rightarrow> u8 list \<Rightarrow> ('s bootcom_scheme, unit) cmd" where
  "com_parse handle = cloop (\<lambda>rest. if rest = [] then ret (Inr ())
     else mbind (com_parse_step handle rest) (\<lambda>n. ret (Inl (drop n rest))))"

text \<open>The loop of the task: fetch a piece, parse it, go on while a whole package may be waiting.\<close>

definition bootloader_com_round :: "'s com_handler \<Rightarrow> unit \<Rightarrow> ('s bootcom_scheme, unit + unit) cmd" where
  "bootloader_com_round handle _ = mbind (gets (\<lambda>s. ringbuffer_get (com_rb s) (of_nat COM_PARSE_BUF_SIZE))) (\<lambda>g.
     case g of
       None \<Rightarrow> fail (Fault ''ring buffer overrun'')
     | Some (buf, rb') \<Rightarrow>
         mseq (modify (\<lambda>s. s\<lparr>com_rb := rb'\<rparr>)) (
         mseq (com_parse handle buf) (
         mbind (gets (\<lambda>s. unat (ringbuffer_available_get_length (com_rb s)) \<ge> BOOTLOADER_COM_MIN_PACKAGE_SIZE)) (\<lambda>more.
         ret (if more then Inl () else Inr ())))))"

definition bootloader_com_handler_task :: "'s com_handler \<Rightarrow> ('s bootcom_scheme, unit) cmd" where
  "bootloader_com_handler_task handle = mbind (sched_check_wake Boot_com_wake) (\<lambda>w.
     mwhen w (cloop (bootloader_com_round handle) ()))"

section \<open>Sending\<close>

definition bootloader_send_data :: "u8 list \<Rightarrow> ('s console_scheme, unit) cmd" where
  "bootloader_send_data msg = mbind (console_make_room (length msg)) (\<lambda>room.
     case room of
       None \<Rightarrow> ret ()
     | Some tmax \<Rightarrow>
         mbind (gets (\<lambda>s. write_bytes (transmit_buf s) tmax msg)) (\<lambda>b. case b of
           None \<Rightarrow> fail (Fault ''write past the buffer'')
         | Some buf \<Rightarrow>
             mseq (modify (\<lambda>s. s\<lparr>transmit_buf := buf\<rparr>)) (
             mseq tx_window (
             mseq (modify (\<lambda>s. s\<lparr>transmit_max := tmax + length msg\<rparr>)) serial_enable_tx_irq))))"

lemma bootloader_crc: "bootloader_crc16_ccitt buf = crc16_ccitt buf (length buf)"
  unfolding bootloader_crc16_ccitt_def crc16_ccitt_def crc16_round_def by simp

section \<open>The parser ends\<close>

text \<open>What the parser relies on: the payload buffer is there and the package fits it.\<close>

definition com_inv :: "'s bootcom_scheme \<Rightarrow> bool" where
  "com_inv s \<longleftrightarrow> length (com_payload s) = BOOTLOADER_COM_MAX_PAYLOAD
     \<and> (com_parse_sta s = STA_DATA \<longrightarrow> com_parse_count s \<le> com_parse_len s)
     \<and> (com_parse_sta s \<in> {STA_DATA, STA_CRC1, STA_CRC2} \<longrightarrow> unat (com_parse_len s) \<le> BOOTLOADER_COM_MAX_PAYLOAD)"

text \<open>Two states that differ in the variables of the parser only.\<close>

definition same_but_parser :: "'s bootcom_scheme \<Rightarrow> 's bootcom_scheme \<Rightarrow> bool" where
  "same_but_parser s t \<longleftrightarrow> t = s\<lparr>com_parse_cmd := com_parse_cmd t, com_parse_sta := com_parse_sta t,
     com_parse_count := com_parse_count t, com_parse_len := com_parse_len t, com_parse_crc := com_parse_crc t,
     com_payload := com_payload t\<rparr>"

text \<open>Outside the payload a round looks at one byte.\<close>

lemma parse_step_append:
  "rest \<noteq> [] \<Longrightarrow> com_parse_sta s \<noteq> STA_DATA \<Longrightarrow> com_parse_step h (rest @ ys) s = com_parse_step h rest s"
  by (cases "com_parse_sta s") (simp_all add: com_parse_step_def mbind_def Let_def)

lemma mseq_cong_right: "(\<And>u. m s = (Inr (), u) \<Longrightarrow> n u = n' u) \<Longrightarrow> mseq m n s = mseq m n' s"
  by (auto simp: run_simps split: prod.splits sum.splits)

text \<open>The bytes left, counting a pending payload.\<close>

definition parse_measure :: "u8 list \<Rightarrow> 's bootcom_scheme \<Rightarrow> nat" where
  "parse_measure rest s = 2 * length rest + (if com_parse_sta s = STA_DATA then 1 else 0)"

text \<open>
  The contract of a callback: it returns or aborts, and a call that returns keeps an invariant \<open>I\<close> which
  includes what the parser relies on and does not depend on the variables of the parser otherwise.
\<close>

locale com_client =
  fixes handle :: "'s com_handler" and I :: "'s bootcom_scheme \<Rightarrow> bool"
  assumes I_com: "I s \<Longrightarrow> com_inv s"
    and I_parser: "I s \<Longrightarrow> com_inv t \<Longrightarrow> same_but_parser s t \<Longrightarrow> I t"
    and handle_ends: "ends I (handle cmd len)"
begin

lemma missing_bytes:
  assumes "I s" "com_parse_sta s = STA_DATA"
  shows "unat (ucast (com_parse_len s) - ucast (com_parse_count s) :: u32)
    = unat (com_parse_len s) - unat (com_parse_count s)"
    "unat (com_parse_count s) \<le> unat (com_parse_len s)" "unat (com_parse_len s) \<le> BOOTLOADER_COM_MAX_PAYLOAD"
    "length (com_payload s) = BOOTLOADER_COM_MAX_PAYLOAD"
proof -
  have c: "com_inv s" using assms by (rule_tac I_com)
  then show le: "unat (com_parse_count s) \<le> unat (com_parse_len s)"
    "unat (com_parse_len s) \<le> BOOTLOADER_COM_MAX_PAYLOAD" "length (com_payload s) = BOOTLOADER_COM_MAX_PAYLOAD"
    using assms(2) by (auto simp: com_inv_def word_le_nat_alt)
  have "(ucast (com_parse_count s) :: u32) \<le> ucast (com_parse_len s)"
    using le by (simp add: word_le_nat_alt unat_ucast_u16)
  then show "unat (ucast (com_parse_len s) - ucast (com_parse_count s) :: u32)
    = unat (com_parse_len s) - unat (com_parse_count s)"
    by (simp add: unat_sub unat_ucast_u16)
qed

text \<open>What a round on the payload does.\<close>

lemma parse_data_run:
  fixes rest :: "u8 list"
  assumes "I s" "com_parse_sta s = STA_DATA"
  defines "l \<equiv> min (length rest) (unat (com_parse_len s) - unat (com_parse_count s))"
  defines "c \<equiv> unat (com_parse_count s)"
  defines "t \<equiv> s\<lparr>com_payload := take c (com_payload s) @ take l rest @ drop (c + l) (com_payload s),
       com_parse_count := of_nat (c + l), com_parse_sta := (if c + l = unat (com_parse_len s) then STA_CRC1 else STA_DATA)\<rparr>"
  shows "com_parse_step handle rest s = (Inr l, t)" "I t"
proof -
  note m = missing_bytes [OF assms(1,2)]
  have cl: "c + l \<le> unat (com_parse_len s)" "c + l \<le> BOOTLOADER_COM_MAX_PAYLOAD" "l \<le> length rest"
    using m by (auto simp: l_def c_def)
  have tl: "length (take l rest) = l" using cl by simp
  have len: "unat (com_parse_len s) < 65536" by (rule unat_bounds)
  have cc: "com_parse_count s + of_nat l = of_nat (c + l)" by (simp add: c_def)
  have "unat (of_nat (c + l) :: u16) = c + l" using cl len by (simp add: unat_of_nat take_bit_nat_eq_self del: of_nat_add)
  then have full: "(of_nat (c + l) = com_parse_len s) = (c + l = unat (com_parse_len s))"
    by (metis word_unat_eq_iff)
  have w: "write_bytes (com_payload s) c (take l rest)
    = Some (take c (com_payload s) @ take l rest @ drop (c + l) (com_payload s))"
    using cl tl m(4) by (simp add: write_bytes_def)
  have ml: "min (length rest) (unat (ucast (com_parse_len s) - ucast (com_parse_count s) :: u32)) = l"
    by (simp add: m(1) l_def)
  show run: "com_parse_step handle rest s = (Inr l, t)"
    using assms(2)
    by (simp add: com_parse_step_def com_parse_data_def run_simps ml c_def [symmetric] w cc full
        set_sta_def t_def Let_def del: of_nat_add)
  have "com_inv t"
    using cl tl m \<open>unat (of_nat (c + l) :: u16) = c + l\<close>
    by (simp add: com_inv_def t_def word_le_nat_alt del: of_nat_add)
  then show "I t" by (rule I_parser [OF assms(1)]) (simp add: same_but_parser_def t_def)
qed

text \<open>A round of the loop gets on, keeps the invariant, and does not hang.\<close>

lemma parse_step_run:
  assumes i: "I s" and r: "rest \<noteq> []"
  shows "(\<exists>e t. com_parse_step handle rest s = (Inl e, t) \<and> e \<noteq> Diverge)
    \<or> (\<exists>n t. com_parse_step handle rest s = (Inr n, t) \<and> I t \<and> n \<le> length rest
      \<and> parse_measure (drop n rest) t < parse_measure rest s)"
proof (cases "com_parse_sta s")
  case STA_DATA
  note d = parse_data_run [OF i STA_DATA, of rest]
  let ?m = "unat (com_parse_len s) - unat (com_parse_count s)"
  have le: "unat (com_parse_count s) \<le> unat (com_parse_len s)" using missing_bytes [OF i STA_DATA] by simp
  have "0 < length rest" using r by simp
  then show ?thesis using d le STA_DATA by (auto simp: parse_measure_def min_def)
next
  case STA_CRC2
  let ?s = "s\<lparr>com_parse_crc := push_bit 8 (com_parse_crc s) OR ucast (hd rest)\<rparr>"
  have c: "com_inv s" using i by (rule I_com)
  have "com_inv ?s" using c by (simp add: com_inv_def)
  then have iu: "I ?s" by (rule I_parser [OF i]) (simp add: same_but_parser_def)
  have ld: "load_bytes (com_payload s) 0 (unat (com_parse_len s)) = Some (take (unat (com_parse_len s)) (com_payload s))"
    using c STA_CRC2 by (simp add: com_inv_def load_bytes_def)
  have sc: "s\<lparr>com_parse_crc := x, com_parse_sta := STA_CRC2\<rparr> = s\<lparr>com_parse_crc := x\<rparr>" for x
    using STA_CRC2 by (cases s) simp
  obtain q u where h: "handle (com_parse_cmd s) (com_parse_len s) ?s = (q, u)" by fastforce
  have a5: "I (v\<lparr>com_parse_sta := STA_A5\<rparr>)" if "I v" for v
    using I_com [OF that] by (intro I_parser [OF that]) (simp_all add: com_inv_def same_but_parser_def)
  show ?thesis
  proof (cases q)
    case (Inl e)
    then have "e \<noteq> Diverge" using endsD(1) [OF handle_ends iu, of "com_parse_cmd s" "com_parse_len s"] h by auto
    then show ?thesis
      using Inl h STA_CRC2 a5 [OF iu] r
      by (auto simp: com_parse_step_def com_parse_end_def run_simps ld sc set_sta_def Let_def parse_measure_def Suc_le_eq)
  next
    case (Inr x)
    then have "I u" using endsD(2) [OF handle_ends iu] h by simp
    then show ?thesis
      using Inr h STA_CRC2 a5 [OF iu] a5 [of u] r
      by (auto simp: com_parse_step_def com_parse_end_def run_simps ld sc set_sta_def Let_def parse_measure_def Suc_le_eq)
  qed
qed (use I_com [OF i] r in \<open>(cases rest; auto simp: com_parse_step_def run_simps set_sta_def Let_def parse_measure_def
      com_inv_def same_but_parser_def intro!: I_parser [OF i])+\<close>)

lemma com_parse_Nil [simp]: "com_parse handle [] s = (Inr (), s)"
  unfolding com_parse_def by (rule cloop_return) simp

lemma com_parse_fails:
  assumes "rest \<noteq> []" "com_parse_step handle rest s = (Inl e, t)"
  shows "com_parse handle rest s = (Inl e, t)"
  unfolding com_parse_def by (rule cloop_abort) (use assms in \<open>simp add: run_simps\<close>)

lemma com_parse_ends:
  assumes "I s"
  shows "fst (com_parse handle rest s) \<noteq> Inl Diverge \<and> (\<forall>t. com_parse handle rest s = (Inr (), t) \<longrightarrow> I t)"
  using assms
proof (induction "parse_measure rest s" arbitrary: rest s rule: less_induct)
  case less
  show ?case
  proof (cases "rest = []")
    case True
    then show ?thesis using less.prems by simp
  next
    case False
    consider (abort) e t where "com_parse_step handle rest s = (Inl e, t)" "e \<noteq> Diverge"
      | (more) n t where "com_parse_step handle rest s = (Inr n, t)" "I t" "parse_measure (drop n rest) t < parse_measure rest s"
      using parse_step_run [OF less.prems False] by blast
    then show ?thesis
    proof cases
      case abort
      then show ?thesis using com_parse_fails [OF False] by simp
    next
      case (more n t)
      note IH = less.hyps [OF more(3,2)]
      have "com_parse handle rest s = com_parse handle (drop n rest) t"
        unfolding com_parse_def by (rule cloop_step) (use False more(1) IH in \<open>simp_all add: run_simps com_parse_def\<close>)
      then show ?thesis using IH by simp
    qed
  qed
qed

lemma com_parse_goes_on:
  assumes "I s" "rest \<noteq> []" "com_parse_step handle rest s = (Inr n, t)"
  shows "com_parse handle rest s = com_parse handle (drop n rest) t"
proof -
  have "I t" using parse_step_run [OF assms(1,2)] assms(3) by auto
  then have "fst (com_parse handle (drop n rest) t) \<noteq> Inl Diverge" using com_parse_ends by blast
  then show ?thesis
    unfolding com_parse_def by (intro cloop_step) (use assms in \<open>simp_all add: run_simps com_parse_def\<close>)
qed

text \<open>
  The parser does not see how the bytes were cut into pieces: parsing two pieces one after the other is
  parsing them at once.
\<close>

lemma com_parse_append:
  assumes "I s"
  shows "com_parse handle (xs @ ys) s = mseq (com_parse handle xs) (com_parse handle ys) s"
  using assms
proof (induction "parse_measure xs s" arbitrary: xs s rule: less_induct)
  case less
  show ?case
  proof (cases "xs = []")
    case True
    then show ?thesis by (simp add: run_simps)
  next
    case False
    then have ne: "xs @ ys \<noteq> []" "ys \<noteq> [] \<Longrightarrow> xs @ ys \<noteq> []" by simp_all
    show ?thesis
    proof (cases "com_parse_sta s = STA_DATA \<and> length xs < unat (com_parse_len s) - unat (com_parse_count s)")
      case True
      then have sta: "com_parse_sta s = STA_DATA" by simp
      let ?c = "unat (com_parse_count s)" and ?k = "length xs"
      note m = missing_bytes [OF less.prems sta]
      have lt: "?c + ?k < unat (com_parse_len s)" using True by linarith
      obtain t where t: "com_parse_step handle xs s = (Inr ?k, t)" "I t"
        "t = s\<lparr>com_payload := take ?c (com_payload s) @ xs @ drop (?c + ?k) (com_payload s),
          com_parse_count := of_nat (?c + ?k), com_parse_sta := STA_DATA\<rparr>"
        using parse_data_run [OF less.prems sta, of xs] less_imp_neq [OF lt] conjunct2 [OF True]
        by (auto simp: min_absorb1)
      have xs: "com_parse handle xs s = (Inr (), t)"
        using com_parse_goes_on [OF less.prems False t(1)] by simp
      have uk: "unat (of_nat (?c + ?k) :: u16) = ?c + ?k"
        using lt unat_bounds(2) [of "com_parse_len s"]
        by (simp add: unat_of_nat take_bit_nat_eq_self del: of_nat_add)
      have "com_parse handle (xs @ ys) s = com_parse handle ys t"
      proof (cases "ys = []")
        case True
        then show ?thesis using xs by simp
      next
        case ys: False
        define l where "l = min (length ys) (unat (com_parse_len s) - (?c + ?k))"
        have st: "com_parse_sta t = STA_DATA" by (simp add: t(3))
        have ml: "min (length (xs @ ys)) (unat (com_parse_len s) - ?c) = ?k + l"
          using lt by (auto simp: min_def l_def)
        have tl: "min (length ys) (unat (com_parse_len t) - unat (com_parse_count t)) = l"
          by (simp add: l_def t(3) uk del: of_nat_add)
        note a = parse_data_run(1) [OF less.prems sta, of "xs @ ys", unfolded ml]
          and b = parse_data_run(1) [OF t(2) st, of ys, unfolded tl]
        have "?c + ?k \<le> length (com_payload s)" using lt m by simp
        then have pl: "take (?c + ?k) (com_payload t) = take ?c (com_payload s) @ xs"
          "drop (?c + ?k + l) (com_payload t) = drop (?c + ?k + l) (com_payload s)"
          by (simp_all add: t(3) add.commute)
        have ct: "unat (com_parse_count t) = ?c + ?k" "com_parse_len t = com_parse_len s" using uk by (simp_all add: t(3))
        have sa: "com_parse_step handle (xs @ ys) s = (Inr (?k + l), snd (com_parse_step handle ys t))"
          unfolding a b ct pl by (simp add: t(3) add.assoc del: of_nat_add)
        have sb: "com_parse_step handle ys t = (Inr l, snd (com_parse_step handle ys t))" unfolding b by simp
        show ?thesis
          using com_parse_goes_on [OF less.prems ne(1) sa] com_parse_goes_on [OF t(2) ys sb] by simp
      qed
      then show ?thesis using xs by (simp add: mseq_Inr)
    next
      case False
      then have same: "com_parse_step handle (xs @ ys) s = com_parse_step handle xs s"
        using parse_step_append [OF \<open>xs \<noteq> []\<close>] parse_data_run(1) [OF less.prems, of xs]
          parse_data_run(1) [OF less.prems, of "xs @ ys"]
        by (cases "com_parse_sta s = STA_DATA") simp_all
      consider (abort) e t where "com_parse_step handle xs s = (Inl e, t)"
        | (more) n t where "com_parse_step handle xs s = (Inr n, t)" "I t" "n \<le> length xs"
          "parse_measure (drop n xs) t < parse_measure xs s"
        using parse_step_run [OF less.prems \<open>xs \<noteq> []\<close>] by blast
      then show ?thesis
      proof cases
        case abort
        then show ?thesis using same ne(1) \<open>xs \<noteq> []\<close> com_parse_fails by (simp add: run_simps)
      next
        case (more n t)
        have "com_parse handle (xs @ ys) s = com_parse handle (drop n xs @ ys) t"
          using com_parse_goes_on [OF less.prems ne(1)] same more by simp
        also have "\<dots> = mseq (com_parse handle (drop n xs)) (com_parse handle ys) t"
          by (rule less.hyps [OF more(4,2)])
        also have "\<dots> = mseq (com_parse handle xs) (com_parse handle ys) s"
          using com_parse_goes_on [OF less.prems \<open>xs \<noteq> []\<close> more(1)] by (simp add: run_simps)
        finally show ?thesis .
      qed
    qed
  qed
qed

text \<open>Pieces one after the other are the whole.\<close>

lemma com_parse_pieces:
  assumes "I s"
  shows "foldr (\<lambda>c. mseq (com_parse handle c)) cs (ret ()) s = com_parse handle (concat cs) s"
  using assms
proof (induction cs arbitrary: s)
  case (Cons c cs)
  have "mseq (com_parse handle c) (foldr (\<lambda>c. mseq (com_parse handle c)) cs (ret ())) s
      = mseq (com_parse handle c) (com_parse handle (concat cs)) s"
    by (rule mseq_cong_right) (use Cons.IH com_parse_ends [OF Cons.prems, of c] in blast)
  then show ?case by (simp add: com_parse_append [OF Cons.prems] del: ret_run)
qed simp

end

text \<open>A length of at most 4096 bytes in two bytes.\<close>

lemma length_bytes:
  assumes "n < 65536"
  shows "push_bit 8 (ucast (ucast (drop_bit 8 (of_nat n :: u32)) :: u8)) OR ucast (ucast (of_nat n AND 0xff :: u32) :: u8)
    = (of_nat n :: u16)"
proof -
  have "(of_nat n :: u16) = ucast (of_nat n :: u32)"
    using assms by (simp add: unsigned_of_nat take_bit_nat_eq_self)
  moreover have "(0xff :: u32) = mask 8" by (simp add: mask_eq_exp_minus_1)
  ultimately show ?thesis
    unfolding \<open>(0xff :: u32) = mask 8\<close> by (intro bit_word_eqI) (auto simp: bit_simps)
qed

lemma package_crc_bytes: "push_bit 8 (ucast (ucast (drop_bit 8 c) :: u8)) OR ucast (ucast (c AND 0xff) :: u8) = (c :: u16)"
proof -
  have f: "(0xff :: u16) = mask 8" by (simp add: mask_eq_exp_minus_1)
  show ?thesis unfolding f by (intro bit_word_eqI) (auto simp: bit_simps)
qed

lemma parse_end_run:
  assumes "com_parse_sta s = STA_CRC2" "load_bytes (com_payload s) 0 (unat (com_parse_len s)) = Some p" "com_handle_set s"
    "bootloader_crc16_ccitt p = push_bit 8 (com_parse_crc s) OR ucast b"
  shows "com_parse_end h b s = mseq (h (com_parse_cmd s) (com_parse_len s)) (set_sta STA_A5)
    (s\<lparr>com_parse_crc := bootloader_crc16_ccitt p\<rparr>)"
proof -
  have nop: "s\<lparr>com_parse_crc := x, com_parse_sta := STA_CRC2\<rparr> = s\<lparr>com_parse_crc := x\<rparr>" for x
    using assms(1) by (cases s) simp
  show ?thesis using assms by (simp add: com_parse_end_def run_simps set_sta_def nop)
qed

context com_client
begin

lemma parse_byte:
  assumes "I s" "com_parse_step handle (b # rest) s = (Inr 1, t)"
  shows "com_parse handle (b # rest) s = com_parse handle rest t" "I t"
  using com_parse_goes_on [OF assms(1) _ assms(2)] parse_step_run [OF assms(1), of "b # rest"] assms(2) by auto

text \<open>A package whose payload fits, on a parser that waits for one.\<close>

lemma com_parse_package:
  assumes i: "I s" and sta: "com_parse_sta s = STA_A5" and h: "com_handle_set s"
    and pkg: "bootloader_package_data sz cmd payload = Some bs" and n: "length payload \<le> BOOTLOADER_COM_MAX_PAYLOAD"
  shows "com_parse handle bs s = mseq (handle cmd (of_nat (length payload))) (set_sta STA_A5)
    (s\<lparr>com_parse_cmd := cmd, com_parse_sta := STA_CRC2, com_parse_count := of_nat (length payload),
       com_parse_len := of_nat (length payload), com_payload := payload @ drop (length payload) (com_payload s),
       com_parse_crc := bootloader_crc16_ccitt payload\<rparr>)"
proof -
  let ?n = "length payload" and ?crc = "bootloader_crc16_ccitt payload"
  let ?l1 = "ucast (drop_bit 8 (of_nat ?n :: u32)) :: u8" and ?l2 = "ucast (of_nat ?n AND 0xff :: u32) :: u8"
  let ?c1 = "ucast (drop_bit 8 ?crc) :: u8" and ?c2 = "ucast (?crc AND 0xff) :: u8"
  have n16: "?n < 65536" using n by (simp add: com_consts)
  have un: "unat (of_nat ?n :: u16) = ?n" using n16 by (simp add: unat_of_nat take_bit_nat_eq_self)
  have bs: "bs = 0xa5 # 0x5a # cmd # ?l1 # ?l2 # payload @ [?c1, ?c2]"
    using pkg by (simp add: bootloader_package_data_def Let_def split: if_splits)
  have lp: "length (com_payload s) = BOOTLOADER_COM_MAX_PAYLOAD" using I_com [OF i] by (simp add: com_inv_def)
  define s1 where "s1 = s\<lparr>com_parse_sta := STA_5A\<rparr>"
  define s2 where "s2 = s\<lparr>com_parse_sta := STA_CMD\<rparr>"
  define s3 where "s3 = s\<lparr>com_parse_cmd := cmd, com_parse_sta := STA_LEN1\<rparr>"
  define s4 where "s4 = s\<lparr>com_parse_cmd := cmd, com_parse_sta := STA_LEN2, com_parse_len := ucast ?l1\<rparr>"
  define s5 where "s5 = s\<lparr>com_parse_cmd := cmd, com_parse_sta := STA_DATA, com_parse_count := 0,
     com_parse_len := of_nat ?n\<rparr>"
  define s6 where "s6 = s\<lparr>com_parse_cmd := cmd, com_parse_sta := STA_CRC1, com_parse_count := of_nat ?n,
     com_parse_len := of_nat ?n, com_payload := payload @ drop ?n (com_payload s)\<rparr>"
  define s7 where "s7 = s\<lparr>com_parse_cmd := cmd, com_parse_sta := STA_CRC2, com_parse_count := of_nat ?n,
     com_parse_len := of_nat ?n, com_parse_crc := ucast ?c1, com_payload := payload @ drop ?n (com_payload s)\<rparr>"
  note step = com_parse_step_def run_simps set_sta_def Let_def
  note p1 = parse_byte [OF i]
  have 1: "com_parse_step handle (0xa5 # 0x5a # cmd # ?l1 # ?l2 # payload @ [?c1, ?c2]) s = (Inr 1, s1)"
    using sta by (simp add: step s1_def)
  note p2 = parse_byte [OF p1(2) [OF 1]]
  have 2: "com_parse_step handle (0x5a # cmd # ?l1 # ?l2 # payload @ [?c1, ?c2]) s1 = (Inr 1, s2)"
    by (simp add: step s1_def s2_def)
  note p3 = parse_byte [OF p2(2) [OF 2]]
  have 3: "com_parse_step handle (cmd # ?l1 # ?l2 # payload @ [?c1, ?c2]) s2 = (Inr 1, s3)"
    by (simp add: step s2_def s3_def)
  note p4 = parse_byte [OF p3(2) [OF 3]]
  have 4: "com_parse_step handle (?l1 # ?l2 # payload @ [?c1, ?c2]) s3 = (Inr 1, s4)"
    by (simp add: step s3_def s4_def)
  note p5 = parse_byte [OF p4(2) [OF 4]]
  have 5: "com_parse_step handle (?l2 # payload @ [?c1, ?c2]) s4 = (Inr 1, s5)"
    using n by (simp add: step s4_def s5_def length_bytes [OF n16] un)
  have i5: "I s5" by (rule p5(2) [OF 5])
  have d5: "com_parse_sta s5 = STA_DATA" by (simp add: s5_def)
  have 6: "com_parse_step handle (payload @ [?c1, ?c2]) s5 = (Inr ?n, s6)"
    using parse_data_run(1) [OF i5 d5, of "payload @ [?c1, ?c2]"] lp n
    by (simp add: s5_def s6_def un)
  have i6: "I s6" using parse_step_run [OF i5, of "payload @ [?c1, ?c2]"] 6 by auto
  note p7 = parse_byte [OF i6]
  have 7: "com_parse_step handle [?c1, ?c2] s6 = (Inr 1, s7)" by (simp add: step s6_def s7_def)
  have main: "com_parse handle bs s = com_parse handle [?c2] s7"
    using p1(1) [OF 1] p2(1) [OF 2] p3(1) [OF 3] p4(1) [OF 4] p5(1) [OF 5] p7(1) [OF 7]
      com_parse_goes_on [OF i5 _ 6] unfolding bs by simp
  let ?u = "s7\<lparr>com_parse_crc := ?crc\<rparr>"
  have ld: "load_bytes (payload @ drop ?n (com_payload s)) 0 ?n = Some payload" by (simp add: load_bytes_def)
  have "com_parse_end handle ?c2 s7 = mseq (handle cmd (of_nat ?n)) (set_sta STA_A5) ?u"
    using parse_end_run [of s7 payload ?c2 handle] h by (simp add: s7_def un ld package_crc_bytes)
  then have 8: "com_parse_step handle [?c2] s7 = mseq (handle cmd (of_nat ?n)) (mseq (set_sta STA_A5) (ret 1)) ?u"
    by (simp add: com_parse_step_def s7_def run_simps Let_def split: prod.splits sum.splits)
  have i7: "I s7" by (rule p7(2) [OF 7])
  have "com_parse handle [?c2] s7 = mseq (handle cmd (of_nat ?n)) (set_sta STA_A5) ?u"
  proof (cases "handle cmd (of_nat ?n) ?u")
    case (Pair q v)
    show ?thesis
    proof (cases q)
      case (Inl e)
      then show ?thesis using com_parse_fails [of "[?c2]" s7 e v] 8 Pair by (simp add: run_simps)
    next
      case (Inr x)
      then have "com_parse_step handle [?c2] s7 = (Inr 1, v\<lparr>com_parse_sta := STA_A5\<rparr>)"
        using 8 Pair by (simp add: run_simps set_sta_def)
      from parse_byte(1) [OF i7 this] show ?thesis using Inr Pair by (simp add: run_simps set_sta_def)
    qed
  qed
  then show ?thesis unfolding main by (simp add: s7_def)
qed

end

context com_client
begin

lemma ends_com_parse: "ends I (com_parse handle rest)"
  using com_parse_ends by (intro endsI) auto

text \<open>Bytes that are not A5 do not wake a waiting parser.\<close>

lemma com_parse_skips:
  "I s \<Longrightarrow> com_parse_sta s = STA_A5 \<Longrightarrow> 0xa5 \<notin> set xs \<Longrightarrow> com_parse handle xs s = (Inr (), s)"
proof (induction xs)
  case (Cons x xs)
  have "s\<lparr>com_parse_sta := STA_A5\<rparr> = s" using Cons.prems(2) by (cases s) simp
  then have "com_parse_step handle (x # xs) s = (Inr 1, s)"
    using Cons.prems by (simp add: com_parse_step_def run_simps set_sta_def Let_def)
  then show ?case using parse_byte(1) [OF Cons.prems(1)] Cons by simp
qed simp

text \<open>The byte A5 right before a package takes the place of the package's own.\<close>

lemma com_parse_loses:
  assumes "I s" "com_parse_sta s = STA_A5" "0xa5 \<notin> set rest"
  shows "com_parse handle (0xa5 # 0xa5 # 0x5a # rest) s = (Inr (), s)"
proof -
  let ?s = "s\<lparr>com_parse_sta := STA_5A\<rparr>"
  have e: "s\<lparr>com_parse_sta := STA_A5\<rparr> = s" using assms(2) by (cases s) simp
  note step = com_parse_step_def run_simps set_sta_def Let_def
  have 1: "com_parse_step handle (0xa5 # 0xa5 # 0x5a # rest) s = (Inr 1, ?s)" using assms(2) by (simp add: step)
  note p1 = parse_byte [OF assms(1) 1]
  have 2: "com_parse_step handle (0xa5 # 0x5a # rest) ?s = (Inr 1, s)" by (simp add: step e)
  show ?thesis
    using p1(1) parse_byte(1) [OF p1(2) 2] com_parse_skips [OF assms(1,2), of "0x5a # rest"] assms(3) by simp
qed

end

section \<open>Sending\<close>

definition tx_blind :: "('s console_scheme \<Rightarrow> bool) \<Rightarrow> bool" where
  "tx_blind P \<longleftrightarrow> (\<forall>s v. P (s\<lparr>transmit_buf := v\<rparr>) = P s) \<and> (\<forall>s v. P (s\<lparr>transmit_pos := v\<rparr>) = P s)
     \<and> (\<forall>s v. P (s\<lparr>transmit_max := v\<rparr>) = P s) \<and> (\<forall>s v. P (s\<lparr>tx_n := v\<rparr>) = P s)
     \<and> (\<forall>s v. P (s\<lparr>tx_line := v\<rparr>) = P s) \<and> (\<forall>s v. P (s\<lparr>tx_enables := v\<rparr>) = P s)"

lemma tx_blind_modify [ends_intros]:
  assumes "tx_blind P"
  shows "ends P (modify (\<lambda>s. s\<lparr>transmit_buf := f s\<rparr>))" "ends P (modify (\<lambda>s. s\<lparr>transmit_pos := g s\<rparr>))"
    "ends P (modify (\<lambda>s. s\<lparr>transmit_max := g s\<rparr>))" "ends P (modify (\<lambda>s. s\<lparr>tx_n := g s\<rparr>))"
    "ends P (modify (\<lambda>s. s\<lparr>tx_line := f s\<rparr>))" "ends P (modify (\<lambda>s. s\<lparr>tx_enables := g s\<rparr>))"
    "ends P (modify (\<lambda>s. s\<lparr>transmit_pos := g s, transmit_max := h s\<rparr>))"
    "ends P (modify (\<lambda>s. s\<lparr>transmit_max := g s, transmit_pos := h s\<rparr>))"
    "ends P (modify (\<lambda>s. s\<lparr>transmit_buf := f s, transmit_pos := g s, transmit_max := h s\<rparr>))"
  using assms by (simp_all add: tx_blind_def ends_def)

lemma ends_tx_window: "tx_blind P \<Longrightarrow> ends P tx_window"
proof -
  assume b: "tx_blind P"
  have "ends P (tx_bytes n)" for n
  proof (induction n)
    case (Suc n)
    then show ?case unfolding tx_bytes.simps tx_one_def serial_get_tx_byte_def by (intro ends_intros b) simp_all
  qed (simp only: tx_bytes.simps ends_ret)
  then show ?thesis unfolding tx_window_def by (intro ends_intros b)
qed

lemma ends_send_data: "tx_blind P \<Longrightarrow> ends P (bootloader_send_data msg)"
  unfolding bootloader_send_data_def console_make_room_def serial_enable_tx_irq_def Let_def
  by (intro ends_intros ends_tx_window) simp_all

end
