(* ===== verification/Bootloader.thy ===== *)
theory Bootloader
  imports Bootcom
begin

text \<open>
  The commands of the boot loader, \<open>src/src/bootloader.c\<close>, on the flash driver \<open>src/src/stm32/flash.c\<close>:
  erasing and programming the application, and the jump to it.  The flash controller is seen as the
  sequence of the calls of \<open>fmc_page_erase\<close> and \<open>fmc_word_program\<close>, \<open>fmc_log\<close>; their register
  accesses and waits are not modelled.  What a word of flash reads as is a function of that sequence,
  \<open>flash_mem\<close>, which the theorems leave open.  The figures of the build configuration are the
  argument \<open>bc\<close>.
\<close>

section \<open>State\<close>

datatype mach = MACH_GD32F303 | MACH_STM32F103 | MACH_STM32F401

record boot_config =
  bc_mach :: mach
  bc_flash_size :: u32
  bc_boot_address :: u32
  bc_bootloader_size :: u32

datatype main_sta = MAIN_STA_IDLE | MAIN_STA_JUMP_TO_APP

datatype fmc_op = Page_erase u32 | Sector_erase u32 | Word_program u32 u32

record boot = bootcom +
  main_sta :: main_sta
  fmc_log :: "fmc_op list"
  flash_mem :: "fmc_op list \<Rightarrow> u32 \<Rightarrow> u32"
  boot_requests :: "u8 \<Rightarrow> u16"            \<comment> \<open>the backup registers\<close>

definition BOOTLOADER_COM_CMD_ERASE :: u8 where "BOOTLOADER_COM_CMD_ERASE = 0"
definition BOOTLOADER_CMD_PROGRAM :: u8 where "BOOTLOADER_CMD_PROGRAM = 1"
definition BOOTLOADER_CMD_JUMP :: u8 where "BOOTLOADER_CMD_JUMP = 2"
definition BOOTLOADER_CMD_PING :: u8 where "BOOTLOADER_CMD_PING = 3"

lemmas boot_cmds = BOOTLOADER_COM_CMD_ERASE_def BOOTLOADER_CMD_PROGRAM_def BOOTLOADER_CMD_JUMP_def BOOTLOADER_CMD_PING_def

text \<open>Fields of the packed structures: four bytes, the lowest first.\<close>

definition le32 :: "u8 list \<Rightarrow> nat \<Rightarrow> u32" where
  "le32 bs i = ucast (bs ! i) OR push_bit 8 (ucast (bs ! (i + 1))) OR push_bit 16 (ucast (bs ! (i + 2)))
     OR push_bit 24 (ucast (bs ! (i + 3)))"

definition le32_bytes :: "u32 \<Rightarrow> u8 list" where
  "le32_bytes w = [ucast w, ucast (drop_bit 8 w), ucast (drop_bit 16 w), ucast (drop_bit 24 w)]"

definition set_le32 :: "nat \<Rightarrow> u32 \<Rightarrow> u8 list \<Rightarrow> u8 list" where
  "set_le32 i w bs = take i bs @ le32_bytes w @ drop (i + 4) bs"

section \<open>The flash driver\<close>

definition fmc :: "fmc_op \<Rightarrow> ('s boot_scheme, unit) cmd" where
  "fmc x = modify (\<lambda>s. s\<lparr>fmc_log := fmc_log s @ [x]\<rparr>)"

definition flash_read :: "u32 \<Rightarrow> ('s boot_scheme, u32) cmd" where
  "flash_read a = gets (\<lambda>s. flash_mem s (fmc_log s) a)"

text \<open>The address to jump to, if there is an application.\<close>

definition jump_to_app :: "u32 \<Rightarrow> ('s boot_scheme, u32 option) cmd" where
  "jump_to_app a = mbind (flash_read a) (\<lambda>sp.
     if sp AND 0x2FFE0000 = 0x20000000 then mbind (flash_read (a + 4)) (\<lambda>pc. ret (Some pc)) else ret None)"

fun flash_erase_pages :: "u32 \<Rightarrow> u16 list \<Rightarrow> ('s boot_scheme, unit) cmd" where
  "flash_erase_pages next_address [] = ret ()"
| "flash_erase_pages next_address (p # ps) =
     mseq (fmc (Page_erase next_address)) (flash_erase_pages (next_address + ucast p) ps)"

definition flash_erase_sector :: "u16 \<Rightarrow> ('s boot_scheme, unit) cmd" where
  "flash_erase_sector n = fmc (Sector_erase (ucast n))"

fun flash_word_program :: "u32 \<Rightarrow> u32 list \<Rightarrow> ('s boot_scheme, unit) cmd" where
  "flash_word_program address [] = ret ()"
| "flash_word_program address (d # ds) = mseq (fmc (Word_program address d)) (flash_word_program (address + 4) ds)"

definition flash_get_page_size :: "mach \<Rightarrow> u32 \<Rightarrow> u32" where
  "flash_get_page_size m start_address = (case m of
     MACH_GD32F303 \<Rightarrow> if start_address < 0x08080000 then 0x800 else if start_address < 0x08300000 then 0x1000 else 0
   | _ \<Rightarrow> if start_address < 0x08020000 then 0x400 else 0)"

definition flash_get_sector_size :: "u32 \<Rightarrow> u32" where
  "flash_get_sector_size sector = (if sector \<le> 3 then 0x4000 else if sector \<le> 4 then 0x10000
     else if sector \<le> 7 then 0x20000 else 0)"

section \<open>Commands\<close>

definition bootloader_set_request :: "u8 \<Rightarrow> u16 \<Rightarrow> ('s boot_scheme, unit) cmd" where
  "bootloader_set_request sec flag = modify (\<lambda>s. if sec < 10 then s\<lparr>boot_requests := (boot_requests s)(sec := flag)\<rparr> else s)"

definition bootloader_get_request :: "u8 \<Rightarrow> ('s boot_scheme, u16) cmd" where
  "bootloader_get_request sec = gets (\<lambda>s. boot_requests s sec)"

text \<open>The timer that starts the jump.\<close>

definition bootloader_schedule :: "u32 \<Rightarrow> ('s boot_scheme, unit) cmd" where
  "bootloader_schedule us = mseq (sched_del_timer Boot_timer) (
     mseq (modify (set_func Boot_timer (Some Bootloader_main_event))) (
     mbind timer_read_time (\<lambda>now.
     mseq (modify (\<lambda>s. set_wake Boot_timer (now + timer_from_us s us) s))
     (sched_add_timer ''bootloader_com_handle'' Boot_timer))))"

definition bootloader_ack :: "u8 \<Rightarrow> u8 list \<Rightarrow> ('s boot_scheme, unit) cmd" where
  "bootloader_ack cmd ack = (case bootloader_package_data (BOOTLOADER_COM_MIN_PACKAGE_SIZE + length ack) cmd ack of
     None \<Rightarrow> fail (Fault ''uninitialised buffer'') | Some msg \<Rightarrow> bootloader_send_data msg)"

text \<open>Erasing pages up to the end address; the result is the address behind the last page.\<close>

definition erase_pages :: "mach \<Rightarrow> u32 \<Rightarrow> u32 \<Rightarrow> ('s boot_scheme, u32) cmd" where
  "erase_pages m end_address = cloop (\<lambda>start_address.
     if start_address < end_address then
       let page_size = ucast (flash_get_page_size m start_address) :: u16 in
       mseq (flash_erase_pages start_address [page_size]) (ret (Inl (start_address + ucast page_size)))
     else ret (Inr start_address))"

text \<open>The search for the first and the last sector, over the sectors \<open>pages\<close>; -1 when there is none.\<close>

fun find_sectors :: "u32 \<Rightarrow> u32 \<Rightarrow> nat list \<Rightarrow> u32 \<Rightarrow> int \<times> int \<Rightarrow> int \<times> int" where
  "find_sectors start_address end_address [] addr_start r = r"
| "find_sectors start_address end_address (page # pages) addr_start (start_page, end_page) =
     (let addr_end = addr_start + flash_get_sector_size (of_nat page);
          sp = (if start_page < 0 \<and> addr_start \<le> start_address \<and> start_address < addr_end then int page else start_page);
          ep = (if end_page < 0 \<and> addr_start \<le> end_address \<and> end_address < addr_end then int page else end_page)
      in find_sectors start_address end_address pages addr_end (sp, ep))"

fun erase_each_sector :: "int list \<Rightarrow> u32 \<Rightarrow> ('s boot_scheme, u32) cmd" where
  "erase_each_sector [] start_address = ret start_address"
| "erase_each_sector (i # is) start_address =
     mseq (flash_erase_sector (word_of_int i)) (
     erase_each_sector is (start_address + flash_get_sector_size (word_of_int i)))"

definition erase_sectors :: "u32 \<Rightarrow> u32 \<Rightarrow> u32 \<Rightarrow> ('s boot_scheme, u32) cmd" where
  "erase_sectors boot_address start_address end_address =
     (let (start_page, end_page) = find_sectors start_address end_address [0..<8] boot_address (- 1, - 1)
      in erase_each_sector [start_page..end_page] start_address)"

definition bootloader_erase :: "boot_config \<Rightarrow> ('s boot_scheme, unit) cmd" where
  "bootloader_erase bc =
     mseq (modify (\<lambda>s. if le32 (com_payload s) 0 > bc_flash_size bc - bc_bootloader_size bc
                        then s\<lparr>com_payload := set_le32 0 0 (com_payload s)\<rparr> else s)) (
     mseq (mbind (gets main_sta) (\<lambda>m. mwhen (m = MAIN_STA_JUMP_TO_APP) (
       mseq (modify (\<lambda>s. s\<lparr>main_sta := MAIN_STA_IDLE\<rparr>)) (sched_del_timer Boot_timer)))) (
     let app_start_address = bc_boot_address bc + bc_bootloader_size bc in
     mbind (gets (\<lambda>s. app_start_address + le32 (com_payload s) 0)) (\<lambda>end_address.
     mbind (case bc_mach bc of
              MACH_STM32F401 \<Rightarrow> erase_sectors (bc_boot_address bc) app_start_address end_address
            | m \<Rightarrow> erase_pages m end_address app_start_address) (\<lambda>start_address.
     bootloader_ack BOOTLOADER_COM_CMD_ERASE (le32_bytes (start_address - app_start_address))))))"

text \<open>
  The words of the payload from position \<open>i\<close> on, none when they leave it; and the bytes behind the last
  whole word, merged into what the flash holds.
\<close>

fun payload_words :: "u8 list \<Rightarrow> nat \<Rightarrow> nat \<Rightarrow> u32 list option" where
  "payload_words p i 0 = Some []"
| "payload_words p i (Suc n) = (if i + 4 \<le> length p then map_option ((#) (le32 p i)) (payload_words p (i + 4) n) else None)"

fun merge_bytes :: "u8 list \<Rightarrow> nat \<Rightarrow> nat list \<Rightarrow> u32 \<Rightarrow> abort + u32" where
  "merge_bytes p k [] word = Inr word"
| "merge_bytes p k (i # is) word =
     (if i > 3 then Inl (Fault ''negative shift'')
      else if k + i \<ge> length p then Inl (Fault ''read past the payload'')
      else merge_bytes p k is (word AND (NOT (push_bit (3 - i) 0xff) OR push_bit (8 * i) (ucast (p ! (k + i))))))"

definition SIZEOF_program_req :: nat where "SIZEOF_program_req = 12"

definition bootloader_program_words :: "u32 \<Rightarrow> u16 \<Rightarrow> ('s boot_scheme, unit) cmd" where
  "bootloader_program_words start_address word_count =
     mwhen (word_count > 0) (mbind (gets (\<lambda>s. payload_words (com_payload s) SIZEOF_program_req (unat word_count))) (\<lambda>w.
       case w of None \<Rightarrow> fail (Fault ''read past the payload'') | Some ws \<Rightarrow> flash_word_program start_address ws))"

definition bootloader_program_tail :: "u32 \<Rightarrow> u32 \<Rightarrow> nat \<Rightarrow> ('s boot_scheme, u32) cmd" where
  "bootloader_program_tail start_address end_address k =
     (if start_address < end_address then
        mbind (flash_read start_address) (\<lambda>word.
        mbind (gets com_payload) (\<lambda>p.
        case merge_bytes p k [0..<unat (ucast (end_address - start_address) :: u8)] word of
          Inl e \<Rightarrow> fail e
        | Inr word \<Rightarrow> mseq (flash_word_program start_address [word]) (ret (start_address + 4))))
      else ret start_address)"

definition bootloader_program :: "boot_config \<Rightarrow> ('s boot_scheme, unit) cmd" where
  "bootloader_program bc =
     mseq (modify (\<lambda>s. let p = com_payload s in
       if le32 p 0 + le32 p 4 > le32 p 8 then s\<lparr>com_payload := set_le32 4 0 p\<rparr> else s)) (
     mbind (gets (\<lambda>s. (le32 (com_payload s) 0, le32 (com_payload s) 4))) (\<lambda>(off, len).
     let app_start_address = bc_boot_address bc + bc_bootloader_size bc;
         start_address = app_start_address + off;
         end_address = app_start_address + off + len;
         word_count = ucast ((end_address - start_address) div 4) :: u16 in
     mseq (bootloader_program_words start_address word_count) (
     mbind (bootloader_program_tail (start_address + 4 * ucast word_count) end_address
              (SIZEOF_program_req + 4 * unat word_count)) (\<lambda>start_address.
     bootloader_ack BOOTLOADER_CMD_PROGRAM (le32_bytes (start_address - app_start_address - off)
       @ le32_bytes (start_address - app_start_address))))))"

definition bootloader_jump :: "('s boot_scheme, unit) cmd" where
  "bootloader_jump = mseq (modify (\<lambda>s. s\<lparr>main_sta := MAIN_STA_JUMP_TO_APP\<rparr>)) (
     mseq (bootloader_set_request 1 0) (bootloader_schedule 1000))"

definition bootloader_ping :: "('s boot_scheme, unit) cmd" where
  "bootloader_ping = mbind (gets (\<lambda>s. le32 (com_payload s) 0)) (\<lambda>ping.
     mseq (mbind (gets main_sta) (\<lambda>m. mwhen (m = MAIN_STA_JUMP_TO_APP) (bootloader_schedule 50000)))
     (bootloader_ack BOOTLOADER_CMD_PING (le32_bytes ping)))"

definition bootloader_com_handle :: "boot_config \<Rightarrow> u8 \<Rightarrow> u16 \<Rightarrow> ('s boot_scheme, unit) cmd" where
  "bootloader_com_handle bc cmd len =
     (if cmd = BOOTLOADER_COM_CMD_ERASE then bootloader_erase bc
      else if cmd = BOOTLOADER_CMD_PROGRAM then bootloader_program bc
      else if cmd = BOOTLOADER_CMD_JUMP then bootloader_jump
      else if cmd = BOOTLOADER_CMD_PING then bootloader_ping
      else ret ())"

section \<open>The main task\<close>

definition bootloader_main_event :: "('s boot_scheme, sf) cmd" where
  "bootloader_main_event = mseq (sched_wake_task Boot_main_wake) (ret SF_DONE)"

definition bootloader_main_task :: "boot_config \<Rightarrow> ('s boot_scheme, u32 option) cmd" where
  "bootloader_main_task bc = mbind (sched_check_wake Boot_main_wake) (\<lambda>w.
     if \<not> w then ret None
     else mbind (gets main_sta) (\<lambda>m.
       if m = MAIN_STA_JUMP_TO_APP then jump_to_app (bc_boot_address bc + bc_bootloader_size bc) else ret None))"

definition bootloader_init :: "('s boot_scheme, unit) cmd" where
  "bootloader_init = mseq bootloader_set_handle (
     mbind (bootloader_get_request 0) (\<lambda>r.
     if r = 0x454C then
       mseq (modify (\<lambda>s. s\<lparr>main_sta := MAIN_STA_IDLE\<rparr>)) (bootloader_set_request 0 0)
     else
       mseq (modify (\<lambda>s. s\<lparr>main_sta := MAIN_STA_JUMP_TO_APP\<rparr>)) (bootloader_schedule 200000)))"

section \<open>What the scheduler leaves alone\<close>

lemma more_sets [simp]:
  "sched.more (set_wake p w s) = sched.more s" "sched.more (set_func p f s) = sched.more s"
  by (simp_all add: set_wake_def set_func_def)

lemma more_del: "sched_del_timer t s = (r, u) \<Longrightarrow> sched.more u = sched.more s"
  using client_view_del [of t s] by (simp add: client_view_def)

lemma more_add: "sched_add_timer f t s = (r, u) \<Longrightarrow> sched.more u = sched.more s"
  using client_view_add [of f t s] by (simp add: client_view_def)

section \<open>The commands end\<close>

definition boot_inv :: "'s bootcom_scheme \<Rightarrow> bool" where
  "boot_inv s \<longleftrightarrow> com_inv s \<and> (\<exists>xs. tchain s xs)"

lemma com_inv_more: "sched.more s = sched.more t \<Longrightarrow> com_inv s \<Longrightarrow> com_inv t"
  by (cases s, cases t) (simp add: com_inv_def)

lemma del_boot_timer:
  assumes "boot_inv s"
  obtains t xs where "sched_del_timer Boot_timer s = (Inr (), t)" "com_inv t" "tchain t xs" "Boot_timer \<notin> set xs"
proof -
  obtain xs where c: "tchain s xs" and ci: "com_inv s" using assms by (auto simp: boot_inv_def)
  have ut: "user_timer Boot_timer" by (simp add: user_timer_def)
  obtain zs where xs: "xs = timer_list s # zs" and d: "distinct xs" using tchain_cases [OF c] by metis
  obtain t where t: "sched_del_timer Boot_timer s = (Inr (), t)"
    "tchain t (if timer_list s = Boot_timer then Deleted_timer # tl xs else removeAll Boot_timer xs)"
    by (rule del_timer_ok [OF c ut])
  have "sched.more t = sched.more s"
    using t(1) by (rule more_del)
  then have "com_inv t" using com_inv_more ci by metis
  moreover have "Boot_timer \<notin> set (if timer_list s = Boot_timer then Deleted_timer # tl xs else removeAll Boot_timer xs)"
    using xs d by auto
  ultimately show thesis using that t by blast
qed

lemma ends_del [ends_intros]: "ends boot_inv (sched_del_timer Boot_timer)"
  by (rule endsI) (erule del_boot_timer, auto simp: boot_inv_def)

lemma ends_schedule [ends_intros]: "ends boot_inv (bootloader_schedule us)"
proof (rule endsI)
  fix s :: "'s boot_scheme" assume "boot_inv s"
  then obtain t xs where t: "sched_del_timer Boot_timer s = (Inr (), t)" "com_inv t" "tchain t xs" "Boot_timer \<notin> set xs"
    by (rule del_boot_timer)
  let ?u = "set_wake Boot_timer (clk t (clk_n t) + timer_from_us t us)
    ((set_func Boot_timer (Some Bootloader_main_event) t)\<lparr>clk_n := Suc (clk_n t)\<rparr>)"
  have run: "bootloader_schedule us s = sched_add_timer ''bootloader_com_handle'' Boot_timer ?u"
    by (simp add: bootloader_schedule_def run_simps t(1) set_func_def timer_from_us_def)
  have c: "tchain ?u xs" using t(3) by (simp add: tchain_def)
  have m: "sched.more ?u = sched.more t" by (simp add: set_func_def)
  obtain v ys where v: "tchain v ys" "sched_add_timer ''bootloader_com_handle'' Boot_timer ?u = (Inr (), v)
      \<or> sched_add_timer ''bootloader_com_handle'' Boot_timer ?u = (Inl (Shutdown ''Timer too close''), v)"
    using add_timer_safe [OF c _ t(4), where f = "''bootloader_com_handle''"] by (auto simp: user_timer_def)
  have "sched.more v = sched.more t"
    using v(2) more_add [of "''bootloader_com_handle''" Boot_timer ?u _ v] m by auto
  then have "com_inv v" using com_inv_more t(2) by metis
  then show "fst (bootloader_schedule us s) \<noteq> Inl Diverge \<and> (\<forall>r w. bootloader_schedule us s = (Inr r, w) \<longrightarrow> boot_inv w)"
    using v unfolding run boot_inv_def by auto
qed

text \<open>The operations that do not touch what \<^const>\<open>boot_inv\<close> speaks about.\<close>

lemma boot_inv_blind: "tx_blind boot_inv"
  by (auto simp: tx_blind_def boot_inv_def com_inv_def tchain_def)

lemma boot_inv_updates [simp]:
  "boot_inv (s\<lparr>fmc_log := x\<rparr>) = boot_inv s" "boot_inv (s\<lparr>main_sta := y\<rparr>) = boot_inv s"
  "boot_inv (s\<lparr>boot_requests := z\<rparr>) = boot_inv s"
  by (simp_all add: boot_inv_def com_inv_def tchain_def)

lemma set_le32_length: "i + 4 \<le> length p \<Longrightarrow> length (set_le32 i w p) = length p"
  by (simp add: set_le32_def le32_bytes_def)

lemma boot_inv_payload: "boot_inv s \<Longrightarrow> i \<le> 8 \<Longrightarrow> boot_inv (s\<lparr>com_payload := set_le32 i w (com_payload s)\<rparr>)"
  by (simp add: boot_inv_def com_inv_def tchain_def set_le32_length com_consts)

lemma ends_ack [ends_intros]: "ends boot_inv (bootloader_ack cmd ack)"
  unfolding bootloader_ack_def by (intro ends_intros ends_send_data boot_inv_blind) simp

lemma ends_fmc [ends_intros]: "ends boot_inv (fmc x)"
  unfolding fmc_def by (intro ends_intros) simp

lemma ends_word_program [ends_intros]: "ends boot_inv (flash_word_program a ws)"
proof (induction ws arbitrary: a)
  case (Cons w ws)
  then show ?case unfolding flash_word_program.simps by (intro ends_intros)
qed (simp only: flash_word_program.simps ends_ret)

lemma ends_erase_pages [ends_intros]: "ends boot_inv (flash_erase_pages a ps)"
proof (induction ps arbitrary: a)
  case (Cons w ws)
  then show ?case unfolding flash_erase_pages.simps by (intro ends_intros)
qed (simp only: flash_erase_pages.simps ends_ret)

lemma ends_each_sector [ends_intros]: "ends boot_inv (erase_each_sector is a)"
proof (induction "is" arbitrary: a)
  case (Cons w ws)
  then show ?case unfolding erase_each_sector.simps flash_erase_sector_def by (intro ends_intros)
qed (simp only: erase_each_sector.simps ends_ret)

lemma merge_bytes_ends: "merge_bytes p k is w \<noteq> Inl Diverge"
  by (induction p k "is" w rule: merge_bytes.induct) auto

lemma ends_program: "ends boot_inv (bootloader_program bc)"
proof -
  have t: "ends boot_inv (case merge_bytes p k is w of Inl e \<Rightarrow> fail e
     | Inr v \<Rightarrow> mseq (flash_word_program a [v]) (ret b))" for p k "is" w a and b :: u32
    using merge_bytes_ends [of p k "is" w]
    by (cases "merge_bytes p k is w") (auto intro!: ends_intros simp del: flash_word_program.simps)
  show ?thesis
    unfolding bootloader_program_def bootloader_program_words_def bootloader_program_tail_def flash_read_def Let_def
    by (intro ends_intros t) (simp_all add: boot_inv_payload)
qed

lemma ends_jump: "ends boot_inv bootloader_jump"
  unfolding bootloader_jump_def bootloader_set_request_def by (intro ends_intros) simp_all

lemma ends_ping: "ends boot_inv bootloader_ping"
  unfolding bootloader_ping_def by (intro ends_intros)

section \<open>Erasing\<close>

text \<open>The pages of size \<open>p\<close> that cover the addresses from \<open>a\<close> to \<open>e\<close>.\<close>

definition page_count :: "nat \<Rightarrow> u32 \<Rightarrow> u32 \<Rightarrow> nat" where
  "page_count p a e = (unat e - unat a + p - 1) div p"

lemma page_count_step:
  assumes "a < e" "0 < p" "unat e + p \<le> 2 ^ 32"
  shows "page_count p a e = Suc (page_count p (a + of_nat p) e)" "unat (a + of_nat p) = unat a + p"
proof -
  have l: "unat a < unat e" using assms(1) by (simp add: word_less_nat_alt)
  have "unat (of_nat p :: u32) = p" using assms l by (simp add: unat_of_nat take_bit_nat_eq_self)
  moreover have "unat a + p < 2 ^ 32" using l assms(3) by linarith
  ultimately show u: "unat (a + of_nat p) = unat a + p" by (simp add: unat_word_ariths)
  show "page_count p a e = Suc (page_count p (a + of_nat p) e)"
  proof (cases "unat a + p \<le> unat e")
    case True
    then have e: "unat e - unat a + p - 1 = (unat e - (unat a + p) + p - 1) + p" using assms(2) by linarith
    have "(x + p) div p = Suc (x div p)" for x using assms(2) by (simp add: le_div_geq)
    then show ?thesis unfolding page_count_def u e .
  next
    case False
    then have "(unat e - unat a + p - 1) div p = 1" using l assms(2) by (intro div_nat_eqI) auto
    then show ?thesis unfolding page_count_def u using False assms(2) by simp
  qed
qed

lemma erase_pages_run:
  assumes "\<And>a. a < e \<Longrightarrow> flash_get_page_size m a = of_nat p" "0 < p" "p < 2 ^ 16" "unat e + p \<le> 2 ^ 32"
  shows "erase_pages m e a s = (Inr (a + of_nat (page_count p a e * p)),
    s\<lparr>fmc_log := fmc_log s @ map (\<lambda>i. Page_erase (a + of_nat (i * p))) [0..<page_count p a e]\<rparr>)"
proof (induction "unat e - unat a" arbitrary: a s rule: less_induct)
  case less
  show ?case
  proof (cases "a < e")
    case False
    then have "unat e - unat a = 0" by (simp add: word_less_nat_alt)
    then have "page_count p a e = 0" using assms(2) by (simp add: page_count_def)
    then show ?thesis unfolding erase_pages_def using False by (intro trans [OF cloop_return]) simp_all
  next
    case True
    note st = page_count_step [OF True assms(2,4)]
    let ?b = "a + of_nat p" and ?s = "s\<lparr>fmc_log := fmc_log s @ [Page_erase a]\<rparr>"
    have ps: "(ucast (ucast (of_nat p :: u32) :: u16) :: u32) = of_nat p"
      using assms(3) by (intro word_unat_eq_iff [THEN iffD2])
        (simp add: unsigned_ucast_eq unsigned_take_bit_eq take_bit_nat_eq_self unat_of_nat)
    have "unat e - unat ?b < unat e - unat a" using True st(2) assms(2) by (simp add: word_less_nat_alt)
    note IH = less [OF this, of ?s]
    have "erase_pages m e a s = erase_pages m e ?b ?s"
      unfolding erase_pages_def
      by (rule cloop_step) (use True IH in \<open>simp_all add: assms(1) [OF True] ps run_simps fmc_def erase_pages_def Let_def\<close>)
    moreover have "map (\<lambda>i. Page_erase (a + of_nat (i * p))) [0..<Suc n]
        = Page_erase a # map (\<lambda>i. Page_erase (?b + of_nat (i * p))) [0..<n]" for n
      unfolding upt_conv_Cons [OF zero_less_Suc] list.map map_Suc_upt [symmetric] by (simp add: comp_def algebra_simps)
    ultimately show ?thesis unfolding IH st(1) by (simp add: algebra_simps del: upt_Suc)
  qed
qed

text \<open>The builds of the boot loader: flash, load address and size of the loader as configured.\<close>

definition boot_build :: "mach \<Rightarrow> bool \<Rightarrow> boot_config" where
  "boot_build m large = \<lparr>bc_mach = m, bc_flash_size = (case m of MACH_STM32F103 \<Rightarrow> 0x10000 | _ \<Rightarrow> 0x40000),
     bc_boot_address = 0x8000000, bc_bootloader_size = (if large then 0x4000 else 0x2000)\<rparr>"

definition page_size :: "mach \<Rightarrow> nat" where
  "page_size m = (if m = MACH_GD32F303 then 0x800 else 0x400)"

abbreviation app_start :: "boot_config \<Rightarrow> u32" where
  "app_start bc \<equiv> bc_boot_address bc + bc_bootloader_size bc"

text \<open>The size of an accepted request, and where the erased range ends.\<close>

definition erase_size :: "boot_config \<Rightarrow> u8 list \<Rightarrow> u32" where
  "erase_size bc p = (if le32 p 0 > bc_flash_size bc - bc_bootloader_size bc then 0 else le32 p 0)"

lemma le32_of_bytes:
  "ucast (ucast w :: u8) OR push_bit 8 (ucast (ucast (drop_bit 8 w) :: u8)) OR push_bit 16 (ucast (ucast (drop_bit 16 w) :: u8))
      OR push_bit 24 (ucast (ucast (drop_bit 24 w) :: u8)) = (w :: u32)" (is "?l = w")
proof (rule bit_word_eqI)
  fix n assume "n < LENGTH(32)"
  then consider "n < 8" | "8 \<le> n" "n < 16" | "16 \<le> n" "n < 24" | "24 \<le> n" "n < 32" by fastforce
  then show "bit ?l n = bit w n" by cases (auto simp: bit_simps)
qed

lemma le32_set: "4 \<le> length p \<Longrightarrow> le32 (set_le32 0 w p) 0 = w"
  by (simp add: le32_def set_le32_def le32_bytes_def nth_Cons' le32_of_bytes)

lemma erase_range:
  fixes p :: "u8 list"
  assumes "bc = boot_build m large" "m \<noteq> MACH_STM32F401"
  defines "e \<equiv> app_start bc + erase_size bc p"
  shows "unat e = unat (app_start bc) + unat (erase_size bc p)" "unat e \<le> unat (bc_boot_address bc) + unat (bc_flash_size bc)"
    "unat e + page_size m \<le> 2 ^ 32" "a < e \<Longrightarrow> flash_get_page_size m a = of_nat (page_size m)"
proof -
  have sz: "erase_size bc p \<le> bc_flash_size bc - bc_bootloader_size bc"
    by (auto simp: erase_size_def assms(1) boot_build_def split: mach.splits)
  then have "unat (erase_size bc p) \<le> unat (bc_flash_size bc - bc_bootloader_size bc)" by (simp add: word_le_nat_alt)
  then have u: "unat (erase_size bc p) + unat (bc_bootloader_size bc) \<le> unat (bc_flash_size bc)"
    "unat (bc_flash_size bc) \<le> 0x40000" "m = MACH_STM32F103 \<Longrightarrow> unat (bc_flash_size bc) = 0x10000"
    "unat (app_start bc) = 0x8000000 + unat (bc_bootloader_size bc)"
    by (auto simp: assms(1) boot_build_def split: mach.splits if_splits)
  then show e: "unat e = unat (app_start bc) + unat (erase_size bc p)"
    unfolding e_def by (subst unat_word_ariths) (simp add: take_bit_nat_eq_self)
  have b: "unat (bc_boot_address bc) = 0x8000000" by (simp add: assms(1) boot_build_def)
  then show le: "unat e \<le> unat (bc_boot_address bc) + unat (bc_flash_size bc)" using e u by linarith
  then show "unat e + page_size m \<le> 2 ^ 32" using u b by (simp add: page_size_def)
  show "flash_get_page_size m a = of_nat (page_size m)" if "a < e"
    using that le u b assms(2)
    by (cases m) (simp_all add: flash_get_page_size_def page_size_def word_less_nat_alt)
qed

lemma more_fields:
  assumes "sched.more s = sched.more (t :: 's boot_scheme)"
  shows "fmc_log s = fmc_log t" "com_payload s = com_payload t" "transmit_buf s = transmit_buf t"
    "transmit_pos s = transmit_pos t" "transmit_max s = transmit_max t" "tx_line s = tx_line t"
  using assms by (cases s, cases t, simp)+

text \<open>The transmit buffer and the line are the same.\<close>

definition same_tx :: "'s console_scheme \<Rightarrow> 's console_scheme \<Rightarrow> bool" where
  "same_tx s t \<longleftrightarrow> transmit_buf t = transmit_buf s \<and> transmit_pos t = transmit_pos s \<and> transmit_max t = transmit_max s
     \<and> tx_line t = tx_line s"

text \<open>The erase command up to the loop over the pages or sectors.\<close>

lemma erase_begins:
  assumes i: "boot_inv s"
  obtains t where "boot_inv t" "fmc_log t = fmc_log s" "same_tx s t" "bootloader_erase bc s =
    mbind (case bc_mach bc of
        MACH_STM32F401 \<Rightarrow> erase_sectors (bc_boot_address bc) (app_start bc) (app_start bc + erase_size bc (com_payload s))
      | m \<Rightarrow> erase_pages m (app_start bc + erase_size bc (com_payload s)) (app_start bc))
    (\<lambda>a. bootloader_ack BOOTLOADER_COM_CMD_ERASE (le32_bytes (a - app_start bc))) t"
proof -
  let ?s = "if le32 (com_payload s) 0 > bc_flash_size bc - bc_bootloader_size bc
    then s\<lparr>com_payload := set_le32 0 0 (com_payload s)\<rparr> else s"
  have lp: "4 \<le> length (com_payload s)" using i by (simp add: boot_inv_def com_inv_def com_consts)
  have i1: "boot_inv ?s" using i boot_inv_payload [of s 0 0] by simp
  have f1: "fmc_log ?s = fmc_log s" "le32 (com_payload ?s) 0 = erase_size bc (com_payload s)"
    using lp by (simp_all add: erase_size_def le32_set)
  obtain t where t: "boot_inv t" "fmc_log t = fmc_log s" "com_payload t = com_payload ?s" "same_tx s t"
    "mbind (gets main_sta) (\<lambda>m. mwhen (m = MAIN_STA_JUMP_TO_APP) (
       mseq (modify (\<lambda>s. s\<lparr>main_sta := MAIN_STA_IDLE\<rparr>)) (sched_del_timer Boot_timer))) ?s = (Inr (), t)"
  proof (cases "main_sta ?s = MAIN_STA_JUMP_TO_APP")
    case False
    then show thesis using that [of ?s] i1 f1 by (simp add: run_simps same_tx_def)
  next
    case True
    let ?u = "?s\<lparr>main_sta := MAIN_STA_IDLE\<rparr>"
    have "boot_inv ?u" using i1 by simp
    from del_boot_timer [OF this] obtain t xs where t: "sched_del_timer Boot_timer ?u = (Inr (), t)" "com_inv t" "tchain t xs"
      by metis
    have "sched.more t = sched.more ?u" using t(1) by (rule more_del)
    note mf = more_fields [OF this]
    then have "same_tx s t" by (simp add: same_tx_def)
    then show thesis using that [of t] t True f1(1) mf(1,2) by (auto simp: run_simps boot_inv_def)
  qed
  have "bootloader_erase bc s = mbind (case bc_mach bc of
        MACH_STM32F401 \<Rightarrow> erase_sectors (bc_boot_address bc) (app_start bc) (app_start bc + erase_size bc (com_payload s))
      | m \<Rightarrow> erase_pages m (app_start bc + erase_size bc (com_payload s)) (app_start bc))
    (\<lambda>a. bootloader_ack BOOTLOADER_COM_CMD_ERASE (le32_bytes (a - app_start bc))) t"
    unfolding bootloader_erase_def Let_def using t(3,5) f1(2) by (cases "bc_mach bc") (simp_all add: mseq_def mbind_def)
  then show thesis using that [OF t(1,2,4)] by blast
qed

text \<open>What the erase command does on a build with pages.\<close>

lemma bootloader_erase_run:
  assumes i: "boot_inv s" and bc: "bc = boot_build m large" and m: "m \<noteq> MACH_STM32F401"
  defines "e \<equiv> app_start bc + erase_size bc (com_payload s)"
  defines "n \<equiv> page_count (page_size m) (app_start bc) e"
  obtains t where "boot_inv t" "fmc_log t = fmc_log s" "same_tx s t" "bootloader_erase bc s =
    bootloader_ack BOOTLOADER_COM_CMD_ERASE (le32_bytes (of_nat (n * page_size m)))
      (t\<lparr>fmc_log := fmc_log s @ map (\<lambda>i. Page_erase (app_start bc + of_nat (i * page_size m))) [0..<n]\<rparr>)"
proof -
  obtain t where t: "boot_inv t" "fmc_log t = fmc_log s" "same_tx s t" "bootloader_erase bc s =
    mbind (case bc_mach bc of
        MACH_STM32F401 \<Rightarrow> erase_sectors (bc_boot_address bc) (app_start bc) e
      | m \<Rightarrow> erase_pages m e (app_start bc))
    (\<lambda>a. bootloader_ack BOOTLOADER_COM_CMD_ERASE (le32_bytes (a - app_start bc))) t"
    unfolding e_def by (rule erase_begins [OF i])
  note r = erase_range [OF bc m, where p = "com_payload s", folded e_def]
  have p: "0 < page_size m" "page_size m < 2 ^ 16" by (simp_all add: page_size_def)
  note run = erase_pages_run [OF r(4) p r(3), of "app_start bc" t, folded n_def]
  have "bc_mach bc = m" by (simp add: bc boot_build_def)
  then have "bootloader_erase bc s = bootloader_ack BOOTLOADER_COM_CMD_ERASE (le32_bytes (of_nat (n * page_size m)))
      (t\<lparr>fmc_log := fmc_log s @ map (\<lambda>i. Page_erase (app_start bc + of_nat (i * page_size m))) [0..<n]\<rparr>)"
    unfolding t(4) using m t(2) run by (cases m) (simp_all add: mbind_def)
  then show thesis using that [OF t(1,2,3)] by blast
qed

lemma ends_erase: "ends boot_inv (bootloader_erase (boot_build m large))"
proof (cases "m = MACH_STM32F401")
  case True
  then have "bc_mach (boot_build m large) = MACH_STM32F401" by (simp add: boot_build_def)
  then show ?thesis
    unfolding bootloader_erase_def erase_sectors_def Let_def
    by (auto intro!: ends_intros simp: boot_inv_payload split: prod.splits simp del: erase_each_sector.simps)
next
  case False
  show ?thesis
  proof (rule endsI)
    fix s :: "'s boot_scheme" assume i: "boot_inv s"
    obtain t x a where "boot_inv t" and e: "bootloader_erase (boot_build m large) s =
        bootloader_ack BOOTLOADER_COM_CMD_ERASE a (t\<lparr>fmc_log := x\<rparr>)"
      by (rule bootloader_erase_run [OF i refl False])
    then have "boot_inv (t\<lparr>fmc_log := x\<rparr>)" by simp
    from endsD [OF ends_ack this] show "fst (bootloader_erase (boot_build m large) s) \<noteq> Inl Diverge
      \<and> (\<forall>r t. bootloader_erase (boot_build m large) s = (Inr r, t) \<longrightarrow> boot_inv t)"
      unfolding e by blast
  qed
qed

interpretation boot: com_client "bootloader_com_handle (boot_build m large)" boot_inv for m large
proof
  fix s t :: "'a boot_scheme"
  show "boot_inv s \<Longrightarrow> com_inv s" by (simp add: boot_inv_def)
  show "boot_inv t" if "boot_inv s" "com_inv t" "same_but_parser s t"
  proof -
    have "timers t = timers s" "timer_list t = timer_list s"
      using arg_cong [OF that(3) [unfolded same_but_parser_def], of timers]
        arg_cong [OF that(3) [unfolded same_but_parser_def], of timer_list] by simp_all
    then show ?thesis using that(1,2) tchain_cong [of s] by (auto simp: boot_inv_def)
  qed
next
  fix cmd :: u8 and len :: u16
  show "ends boot_inv (bootloader_com_handle (boot_build m large) cmd len)"
    unfolding bootloader_com_handle_def by (intro ends_intros ends_erase ends_program ends_jump ends_ping)
qed

section \<open>Acknowledgements\<close>

lemma send_data_run:
  assumes ok: "tx_ok s"
  obtains t where "bootloader_send_data msg s = (Inr (), t)" "tx_ok t"
    "tx_out t = tx_out s @ (if transmit_max s - transmit_pos s + length msg \<le> TX_BUFFER_SIZE then msg else [])"
proof -
  let ?n = "length msg" and ?room = "transmit_max s - transmit_pos s + length msg \<le> TX_BUFFER_SIZE"
  obtain u r where u: "console_make_room ?n s = (Inr r, u)" "tx_ok u" "tx_out u = tx_out s"
    "if ?room then r = Some (transmit_max u) \<and> transmit_max u + ?n \<le> TX_BUFFER_SIZE else r = None"
    using make_room_run [OF ok, of ?n] by blast
  show thesis
  proof (cases ?room)
    case False
    then show thesis using that [of u] u by (simp add: bootloader_send_data_def run_simps)
  next
    case True
    let ?m = "transmit_max u"
    let ?b = "take ?m (transmit_buf u) @ msg @ drop (?m + ?n) (transmit_buf u)"
    have r: "r = Some ?m" "?m + ?n \<le> TX_BUFFER_SIZE" using u(4) True by simp_all
    have l: "length (transmit_buf u) = TX_BUFFER_SIZE" using u(2) by (simp add: tx_ok_def)
    let ?v = "u\<lparr>transmit_buf := ?b\<rparr>"
    have v: "tx_ok ?v" "tx_out ?v = tx_out u" using u(2) r l by (simp_all add: tx_ok_def tx_out_def)
    obtain w where w: "tx_window ?v = (Inr (), w)" "tx_moves ?v w" by (rule tx_window_run [OF v(1)])
    then have w2: "tx_ok w" "tx_out w = tx_out u" "transmit_buf w = ?b" "transmit_max w = ?m"
      using v(2) by (simp_all add: tx_moves_def)
    let ?t = "w\<lparr>transmit_max := ?m + ?n, tx_enables := Suc (tx_enables w)\<rparr>"
    have "bootloader_send_data msg s = (Inr (), ?t)"
      using r l by (simp add: bootloader_send_data_def run_simps u(1) write_bytes_def w(1) serial_enable_tx_irq_def)
    moreover have "tx_ok ?t" using w2(1,4) r(2) by (simp add: tx_ok_def)
    moreover have "tx_out ?t = tx_out w @ msg"
      using w2(1,3,4) r(2) l by (simp add: tx_out_def tx_ok_def)
    ultimately show thesis using that [of ?t] True w2(2) u(3) by simp
  qed
qed

text \<open>The package that carries an acknowledgement.\<close>

definition ack_package :: "u8 \<Rightarrow> u8 list \<Rightarrow> u8 list" where
  "ack_package cmd ack = the (bootloader_package_data (BOOTLOADER_COM_MIN_PACKAGE_SIZE + length ack) cmd ack)"

lemma ack_run:
  assumes "tx_ok s"
  obtains t where "bootloader_ack cmd ack s = (Inr (), t)" "tx_ok t" "fmc_log t = fmc_log s"
    "tx_out t = tx_out s @ (if transmit_max s - transmit_pos s + length (ack_package cmd ack) \<le> TX_BUFFER_SIZE
       then ack_package cmd ack else [])"
proof -
  obtain bs where bs: "bootloader_package_data (BOOTLOADER_COM_MIN_PACKAGE_SIZE + length ack) cmd ack = Some bs"
    by (simp add: bootloader_package_data_def Let_def)
  then have a: "ack_package cmd ack = bs" "bootloader_ack cmd ack = bootloader_send_data bs"
    by (simp_all add: ack_package_def bootloader_ack_def)
  obtain t where t: "bootloader_send_data bs s = (Inr (), t)" "tx_ok t"
    "tx_out t = tx_out s @ (if transmit_max s - transmit_pos s + length bs \<le> TX_BUFFER_SIZE then bs else [])"
    by (rule send_data_run [OF assms])
  have "tx_blind (\<lambda>u. fmc_log u = fmc_log s)" by (simp add: tx_blind_def)
  from endsD(2) [OF ends_send_data [OF this] refl t(1)] have "fmc_log t = fmc_log s" .
  from t(1,2) this t(3) show thesis by (rule that [unfolded a])
qed

section \<open>Properties\<close>

lemma round_up:
  fixes p z k :: nat
  assumes "0 < p" "z \<le> k * p"
  shows "z \<le> (z + p - 1) div p * p" "(z + p - 1) div p * p \<le> k * p" "(z = 0 \<longrightarrow> (z + p - 1) div p = 0)"
proof -
  have "(z + p - 1) mod p < p" using assms(1) by simp
  then show "z \<le> (z + p - 1) div p * p" using div_mult_mod_eq [of "z + p - 1" p] assms(1) by linarith
  have "z + p - 1 < p * Suc k" using assms by (simp add: algebra_simps)
  then have "(z + p - 1) div p < Suc k" using assms(1) by (simp add: less_mult_imp_div_less mult.commute)
  then show "(z + p - 1) div p * p \<le> k * p" by simp
qed (use assms(1) in simp)

lemma app_pages:
  assumes "bc = boot_build m large" "m \<noteq> MACH_STM32F401"
  shows "\<exists>k. unat (bc_boot_address bc) + unat (bc_flash_size bc) = unat (app_start bc) + k * page_size m"
  using assms(2)
  by (cases m; cases large)
    (auto simp: assms(1) boot_build_def page_size_def intro: exI [of _ 120] exI [of _ 124] exI [of _ 48] exI [of _ 56])

text \<open>
  C25: packages get through the link whole.  A package for the boot loader of any build, cut into pieces
  in any way, is recognised by a waiting parser: the command handler runs once, on the command, the length
  and the payload that were sent, and the parser waits for the next package.
\<close>

theorem bootloader_package_received:
  assumes "boot_inv s" "com_parse_sta s = STA_A5" "com_handle_set s"
    "bootloader_package_data sz cmd payload = Some (concat cs)" "length payload \<le> BOOTLOADER_COM_MAX_PAYLOAD"
  shows "foldr (\<lambda>c. mseq (com_parse (bootloader_com_handle (boot_build m large)) c)) cs (ret ()) s
    = mseq (bootloader_com_handle (boot_build m large) cmd (of_nat (length payload))) (set_sta STA_A5)
      (s\<lparr>com_parse_cmd := cmd, com_parse_sta := STA_CRC2, com_parse_count := of_nat (length payload),
         com_parse_len := of_nat (length payload), com_payload := payload @ drop (length payload) (com_payload s),
         com_parse_crc := bootloader_crc16_ccitt payload\<rparr>)"
  unfolding boot.com_parse_pieces [OF assms(1)] by (rule boot.com_parse_package [OF assms])

text \<open>
  C26: erasing, on the builds with flash pages.  The command ends; the pages it erases follow each other from
  the start of the application on, cover the requested size and stay inside the flash, so the boot loader is
  never erased; a request for more than there is erases nothing.  The answer names the bytes erased.
\<close>

theorem bootloader_erase_pages:
  assumes "boot_inv s" "tx_ok s" "m \<noteq> MACH_STM32F401" "bc = boot_build m large"
    "sz = (if le32 (com_payload s) 0 > bc_flash_size bc - bc_bootloader_size bc then 0 else unat (le32 (com_payload s) 0))"
  shows "\<exists>t n. bootloader_erase bc s = (Inr (), t)
    \<and> fmc_log t = fmc_log s @ map (\<lambda>i. Page_erase (app_start bc + of_nat (i * page_size m))) [0..<n]
    \<and> sz \<le> n * page_size m \<and> (sz = 0 \<longrightarrow> n = 0)
    \<and> unat (app_start bc) + n * page_size m \<le> unat (bc_boot_address bc) + unat (bc_flash_size bc)
    \<and> tx_out t = tx_out s @ (if transmit_max s - transmit_pos s + 11 \<le> TX_BUFFER_SIZE
        then ack_package BOOTLOADER_COM_CMD_ERASE (le32_bytes (of_nat (n * page_size m))) else [])"
proof -
  let ?p = "page_size m" and ?e = "app_start bc + erase_size bc (com_payload s)"
  let ?n = "page_count ?p (app_start bc) ?e"
  obtain t where t: "boot_inv t" "fmc_log t = fmc_log s" "same_tx s t" "bootloader_erase bc s =
    bootloader_ack BOOTLOADER_COM_CMD_ERASE (le32_bytes (of_nat (?n * ?p)))
      (t\<lparr>fmc_log := fmc_log s @ map (\<lambda>i. Page_erase (app_start bc + of_nat (i * ?p))) [0..<?n]\<rparr>)"
    by (rule bootloader_erase_run [OF assms(1,4,3)])
  let ?t = "t\<lparr>fmc_log := fmc_log s @ map (\<lambda>i. Page_erase (app_start bc + of_nat (i * ?p))) [0..<?n]\<rparr>"
  have tx: "tx_ok ?t" "tx_out ?t = tx_out s" using t(3) assms(2) by (simp_all add: same_tx_def tx_ok_def tx_out_def)
  have l: "length (ack_package BOOTLOADER_COM_CMD_ERASE (le32_bytes w)) = 11" for w
    by (simp add: ack_package_def bootloader_package_data_def le32_bytes_def com_consts Let_def)
  obtain u where u: "bootloader_ack BOOTLOADER_COM_CMD_ERASE (le32_bytes (of_nat (?n * ?p))) ?t = (Inr (), u)" "tx_ok u"
    "fmc_log u = fmc_log ?t" "tx_out u = tx_out ?t @ (if transmit_max ?t - transmit_pos ?t
       + length (ack_package BOOTLOADER_COM_CMD_ERASE (le32_bytes (of_nat (?n * ?p)))) \<le> TX_BUFFER_SIZE
       then ack_package BOOTLOADER_COM_CMD_ERASE (le32_bytes (of_nat (?n * ?p))) else [])"
    by (rule ack_run [OF tx(1)])
  have sz: "sz = unat (erase_size bc (com_payload s))" by (simp add: assms(5) erase_size_def)
  have n: "?n = (sz + ?p - 1) div ?p"
    using erase_range(1) [OF assms(4,3), where p = "com_payload s"] by (simp add: page_count_def sz)
  have "sz \<le> ?n * ?p \<and> (sz = 0 \<longrightarrow> ?n = 0)
      \<and> unat (app_start bc) + ?n * ?p \<le> unat (bc_boot_address bc) + unat (bc_flash_size bc)"
  proof -
    obtain k where k: "unat (bc_boot_address bc) + unat (bc_flash_size bc) = unat (app_start bc) + k * ?p"
      using app_pages [OF assms(4,3)] by blast
    have "unat (app_start bc) + sz \<le> unat (bc_boot_address bc) + unat (bc_flash_size bc)"
      using erase_range(1,2) [OF assms(4,3), where p = "com_payload s"] sz by simp
    then have "sz \<le> k * ?p" using k by simp
    moreover have "0 < ?p" by (simp add: page_size_def)
    ultimately show ?thesis using round_up [of ?p sz k] k unfolding n by simp
  qed
  then show ?thesis using t(3,4) u(1,3,4) tx(2) unfolding l same_tx_def
    by (intro exI [of _ u] exI [of _ ?n]) simp
qed

lemma payload_words_ok:
  "i + 4 * n \<le> length p \<Longrightarrow> payload_words p i n = Some (map (\<lambda>j. le32 p (i + 4 * j)) [0..<n])"
proof (induction n arbitrary: i)
  case (Suc n)
  have "map (\<lambda>j. le32 p (i + 4 * j)) [0..<Suc n] = le32 p i # map (\<lambda>j. le32 p (i + 4 + 4 * j)) [0..<n]"
    unfolding upt_conv_Cons [OF zero_less_Suc] list.map map_Suc_upt [symmetric] by (simp add: comp_def algebra_simps)
  then show ?case using Suc by (simp add: algebra_simps del: upt_Suc)
qed simp

lemma flash_word_program_run:
  "flash_word_program a ws s = (Inr (), s\<lparr>fmc_log := fmc_log s
     @ map (\<lambda>i. Word_program (a + 4 * of_nat i) (ws ! i)) [0..<length ws]\<rparr>)"
proof (induction ws arbitrary: a s)
  case (Cons w ws)
  have "map (\<lambda>i. Word_program (a + 4 * of_nat i) ((w # ws) ! i)) [0..<Suc (length ws)]
      = Word_program a w # map (\<lambda>i. Word_program (a + 4 + 4 * of_nat i) (ws ! i)) [0..<length ws]"
    unfolding upt_conv_Cons [OF zero_less_Suc] list.map map_Suc_upt [symmetric] by (simp add: comp_def algebra_simps)
  then show ?case using Cons by (simp add: run_simps fmc_def del: upt_Suc)
qed simp

text \<open>A program request whose data lies in the payload, up to the answer.\<close>

lemma bootloader_program_run:
  fixes s :: "'s boot_scheme" and bc :: boot_config
  assumes p: "le32 (com_payload s) 0 + le32 (com_payload s) 4 \<le> le32 (com_payload s) 8"
    and n: "12 + unat (le32 (com_payload s) 4) \<le> length (com_payload s)" "unat (le32 (com_payload s) 4) < 2 ^ 16"
  defines "a \<equiv> app_start bc + le32 (com_payload s) 0" and "len \<equiv> le32 (com_payload s) 4"
  defines "ws \<equiv> map (\<lambda>i. Word_program (a + 4 * of_nat i) (le32 (com_payload s) (12 + 4 * i))) [0..<unat len div 4]"
  shows "bootloader_program bc s = mbind (bootloader_program_tail (a + 4 * (len div 4)) (a + len) (12 + 4 * (unat len div 4)))
     (\<lambda>e. bootloader_ack BOOTLOADER_CMD_PROGRAM (le32_bytes (e - app_start bc - le32 (com_payload s) 0)
       @ le32_bytes (e - app_start bc))) (s\<lparr>fmc_log := fmc_log s @ ws\<rparr>)"
proof -
  let ?p = "com_payload s"
  have "unat (len div 4) = unat len div 4" by (simp add: unat_div)
  then have wc: "unat (ucast (len div 4) :: u16) = unat len div 4" "(ucast (ucast (len div 4) :: u16) :: u32) = len div 4"
    using n(2) by (simp_all add: len_def [symmetric] unsigned_ucast_eq take_bit_nat_eq_self word_unat_eq_iff unsigned_take_bit_eq)
  have w: "payload_words ?p 12 (unat len div 4) = Some (map (\<lambda>j. le32 ?p (12 + 4 * j)) [0..<unat len div 4])"
    using n(1) by (intro payload_words_ok) (simp add: len_def [symmetric])
  have run: "bootloader_program_words a (ucast (len div 4)) s = (Inr (), s\<lparr>fmc_log := fmc_log s @ ws\<rparr>)"
  proof (cases "unat len div 4 = 0")
    case True
    then have "(ucast (len div 4) :: u16) = 0" using wc(1) by (simp add: word_unat_eq_iff)
    then show ?thesis using True by (simp add: bootloader_program_words_def ws_def)
  next
    case False
    then have "0 < (ucast (len div 4) :: u16)" using wc(1) by (simp add: word_less_nat_alt)
    then show ?thesis
      by (simp add: bootloader_program_words_def run_simps SIZEOF_program_req_def wc(1) w flash_word_program_run ws_def
          cong: map_cong)
  qed
  have np: "(le32 ?p 8 < le32 ?p 0 + len) = False" using p by (simp add: len_def not_less)
  show ?thesis
    by (simp add: bootloader_program_def run_simps Let_def a_def [symmetric] len_def [symmetric] np wc run
        SIZEOF_program_req_def)
qed

text \<open>
  C27: programming whole words.  When the data of a request is a number of whole words and part of the
  package, exactly these words are programmed, in order, from the offset in the application on, and the
  answer names their length and the offset behind them.
\<close>

theorem bootloader_program_whole_words:
  assumes "boot_inv s" "tx_ok s" "p = com_payload s" "le32 p 0 + le32 p 4 \<le> le32 p 8"
    "4 dvd unat (le32 p 4)" "12 + unat (le32 p 4) \<le> BOOTLOADER_COM_MAX_PAYLOAD"
  shows "\<exists>t. bootloader_program bc s = (Inr (), t)
    \<and> fmc_log t = fmc_log s @ map (\<lambda>i. Word_program (app_start bc + le32 p 0 + 4 * of_nat i) (le32 p (12 + 4 * i)))
        [0..<unat (le32 p 4) div 4]
    \<and> tx_out t = tx_out s @ (if transmit_max s - transmit_pos s + 15 \<le> TX_BUFFER_SIZE
        then ack_package BOOTLOADER_CMD_PROGRAM (le32_bytes (le32 p 4) @ le32_bytes (le32 p 0 + le32 p 4)) else [])"
proof -
  let ?off = "le32 p 0" and ?len = "le32 p 4"
  let ?ws = "map (\<lambda>i. Word_program (app_start bc + ?off + 4 * of_nat i) (le32 p (12 + 4 * i))) [0..<unat ?len div 4]"
  let ?s = "s\<lparr>fmc_log := fmc_log s @ ?ws\<rparr>"
  have l: "length p = BOOTLOADER_COM_MAX_PAYLOAD" using assms(1,3) by (simp add: boot_inv_def com_inv_def)
  have "unat ?len < 2 ^ 16" using assms(6) by (simp add: com_consts)
  note run = bootloader_program_run [of s bc, folded assms(3), OF assms(4) _ this]
  have "?len mod 4 = 0" using assms(5) by (simp add: word_unat_eq_iff unat_mod)
  then have d: "4 * (?len div 4) = ?len" using div_mult_mod_eq [of ?len 4] by (simp add: mult.commute)
  have tl: "bootloader_program_tail (app_start bc + ?off + ?len) (app_start bc + ?off + ?len) k ?s
    = (Inr (app_start bc + ?off + ?len), ?s)" for k by (simp add: bootloader_program_tail_def)
  have e: "bootloader_program bc s = bootloader_ack BOOTLOADER_CMD_PROGRAM (le32_bytes ?len @ le32_bytes (?off + ?len)) ?s"
    using run assms(6) l by (simp add: d mbind_def tl)
  have tx: "tx_ok ?s" "tx_out ?s = tx_out s" using assms(2) by (simp_all add: tx_ok_def tx_out_def)
  have la: "length (ack_package BOOTLOADER_CMD_PROGRAM (le32_bytes x @ le32_bytes y)) = 15" for x y
    by (simp add: ack_package_def bootloader_package_data_def le32_bytes_def com_consts Let_def)
  show ?thesis
    by (rule ack_run [OF tx(1), of BOOTLOADER_CMD_PROGRAM "le32_bytes ?len @ le32_bytes (?off + ?len)"])
      (auto simp: e la tx(2))
qed

lemma tail_word:
  "0xffffffff AND (- 2041 OR x) = (0xfffff807 OR x :: u32)" "ucast (0xfffff807 OR ucast d :: u32) = (d OR 7 :: u8)"
proof -
  have "(0xffffffff :: u32) = - 1" "(- 2041 :: u32) = 0xfffff807" by code_simp+
  then show "0xffffffff AND (- 2041 OR x) = (0xfffff807 OR x :: u32)" by (simp only: and.left_neutral)
  have "ucast (v OR w :: u32) = (ucast v OR ucast w :: u8)" for v w by (rule bit_word_eqI) (simp add: bit_simps)
  moreover have "ucast (0xfffff807 :: u32) = (7 :: u8)" by simp
  moreover have "ucast (ucast d :: u32) = d" by (rule bit_word_eqI) (simp add: bit_simps)
  ultimately show "ucast (0xfffff807 OR ucast d :: u32) = (d OR 7 :: u8)" by (simp only: or.commute)
qed

text \<open>
  C38: the bytes behind the last whole word are corrupted.  Programming a single byte \<open>d\<close> into erased
  flash writes a word whose lowest byte is \<open>d OR 7\<close>: the mask is shifted by \<open>3 - i\<close> where the byte is
  shifted by \<open>8 * i\<close>.
\<close>

theorem bootloader_program_tail_corrupts:
  assumes "boot_inv s" "tx_ok s" "p = com_payload s" "le32 p 0 + 1 \<le> le32 p 8" "le32 p 4 = 1"
    "a = app_start bc + le32 p 0" "a \<noteq> 0xffffffff" "flash_mem s (fmc_log s) a = 0xffffffff"
  shows "\<exists>t w. bootloader_program bc s = (Inr (), t) \<and> fmc_log t = fmc_log s @ [Word_program a w]
    \<and> w = 0xfffff807 OR ucast (p ! 12) \<and> ucast w = p ! 12 OR 7"
proof -
  let ?w = "0xfffff807 OR ucast (p ! 12) :: u32"
  have l: "length p = 4096" using assms(1,3) by (simp add: boot_inv_def com_inv_def com_consts)
  note run = bootloader_program_run [of s bc, folded assms(3), unfolded assms(5)]
  let ?s = "s\<lparr>fmc_log := fmc_log s @ [Word_program a ?w]\<rparr>"
  have "unat a \<noteq> 4294967295" using assms(7) by (simp add: word_unat_eq_iff)
  then have "unat a + 1 < 2 ^ 32" using unat_bounds(3) [of a] by simp
  then have lt: "a < a + 1" by (simp add: word_less_nat_alt unat_word_ariths)
  have "bootloader_program_tail a (a + 1) 12 s = (Inr (a + 4), ?s)"
    using lt assms(3,8) l
    by (simp add: bootloader_program_tail_def flash_read_def run_simps fmc_def tail_word(1))
  then have e: "bootloader_program bc s = bootloader_ack BOOTLOADER_CMD_PROGRAM
      (le32_bytes (a + 4 - app_start bc - le32 p 0) @ le32_bytes (a + 4 - app_start bc)) ?s"
    using run assms(4,6) l by (simp add: mbind_def)
  have tx: "tx_ok ?s" using assms(2) by (simp add: tx_ok_def)
  show ?thesis
    by (rule ack_run [OF tx, of BOOTLOADER_CMD_PROGRAM "le32_bytes (a + 4 - app_start bc - le32 p 0) @ le32_bytes (a + 4 - app_start bc)"])
      (auto simp: e tail_word(2))
qed

text \<open>
  C39: nothing keeps a program request inside the application.  The size in the request is its only bound, so
  a request with the largest size writes where its offset wraps to, here over the first word of the boot
  loader itself.
\<close>

theorem bootloader_program_overwrites_loader:
  assumes "boot_inv s" "tx_ok s" "p = com_payload s" "le32 p 0 = - bc_bootloader_size bc" "le32 p 4 = 4" "le32 p 8 = 0xffffffff"
  shows "\<exists>t. bootloader_program bc s = (Inr (), t) \<and> fmc_log t = fmc_log s @ [Word_program (bc_boot_address bc) (le32 p 12)]"
proof -
  have l: "length p = 4096" using assms(1,3) by (simp add: boot_inv_def com_inv_def com_consts)
  have le: "x \<le> (0xffffffff :: u32)" for x using unat_bounds(3) [of x] by (simp add: word_le_nat_alt)
  let ?s = "s\<lparr>fmc_log := fmc_log s @ [Word_program (bc_boot_address bc) (le32 p 12)]\<rparr>"
  have tl: "bootloader_program_tail (bc_boot_address bc + 4) (bc_boot_address bc + 4) k ?s = (Inr (bc_boot_address bc + 4), ?s)" for k
    by (simp add: bootloader_program_tail_def)
  have d: "4 * (4 div 4) = (4 :: u32)" by simp
  have e: "bootloader_program bc s = bootloader_ack BOOTLOADER_CMD_PROGRAM
      (le32_bytes 4 @ le32_bytes (4 - bc_bootloader_size bc)) ?s"
    using bootloader_program_run [of s bc, folded assms(3), unfolded assms(4-6), OF le] l
    by (simp add: mbind_def tl)
  have tx: "tx_ok ?s" using assms(2) by (simp add: tx_ok_def)
  show ?thesis
    by (rule ack_run [OF tx, of BOOTLOADER_CMD_PROGRAM "le32_bytes 4 @ le32_bytes (4 - bc_bootloader_size bc)"]) (auto simp: e)
qed

text \<open>
  C40: on the build with flash sectors a request for more than there is is cut to nothing, and yet the first
  sector of the application is erased: the sector that contains the end address is always included.
\<close>

theorem bootloader_erase_refused_erases:
  assumes "boot_inv s" "tx_ok s" "bc = boot_build MACH_STM32F401 True"
    "le32 (com_payload s) 0 > bc_flash_size bc - bc_bootloader_size bc"
  shows "\<exists>t. bootloader_erase bc s = (Inr (), t) \<and> fmc_log t = fmc_log s @ [Sector_erase 1]"
proof -
  have z: "erase_size bc (com_payload s) = 0" using assms(4) by (simp add: erase_size_def)
  have c: "bc_mach bc = MACH_STM32F401" "bc_boot_address bc = 0x8000000" "bc_bootloader_size bc = 0x4000"
    by (simp_all add: assms(3) boot_build_def)
  obtain t where t: "boot_inv t" "fmc_log t = fmc_log s" "same_tx s t" "bootloader_erase bc s =
      mbind (erase_sectors 0x8000000 0x8004000 0x8004000)
      (\<lambda>a. bootloader_ack BOOTLOADER_COM_CMD_ERASE (le32_bytes (a - 0x8004000))) t"
    by (rule erase_begins [OF assms(1), of bc]) (auto simp: z c)
  let ?t = "t\<lparr>fmc_log := fmc_log s @ [Sector_erase 1]\<rparr>"
  have f: "find_sectors 0x8004000 0x8004000 [0..<8] 0x8000000 (- 1, - 1) = (1, 1)"
    by (simp add: upt_rec flash_get_sector_size_def Let_def)
  have "erase_sectors 0x8000000 0x8004000 0x8004000 t = (Inr 0x8008000, ?t)"
    using t(2) by (simp add: erase_sectors_def f flash_erase_sector_def fmc_def run_simps flash_get_sector_size_def upto.simps)
  then have e: "bootloader_erase bc s = bootloader_ack BOOTLOADER_COM_CMD_ERASE (le32_bytes 0x4000) ?t"
    using t(4) by (simp add: mbind_def)
  have tx: "tx_ok ?t" using t(3) assms(2) by (simp add: tx_ok_def same_tx_def)
  show ?thesis by (rule ack_run [OF tx, of BOOTLOADER_COM_CMD_ERASE "le32_bytes 0x4000"]) (auto simp: e)
qed

text \<open>
  A stray byte A5 in front of a package costs the package.  The parser falls back to waiting on the
  package's own A5 instead of taking it for the first byte; unless A5 occurs again, the handler does not run.
\<close>

theorem stray_byte_loses_package:
  assumes "boot_inv s" "com_parse_sta s = STA_A5" "bootloader_package_data sz cmd payload = Some (0xa5 # 0x5a # rest)"
    "0xa5 \<notin> set rest"
  shows "com_parse (bootloader_com_handle (boot_build m large)) (0xa5 # 0xa5 # 0x5a # rest) s = (Inr (), s)"
  using assms(1,2,4) by (rule boot.com_parse_loses)

text \<open>The boot loader waiting for a package, with erased flash and a payload that starts with \<open>p\<close>.\<close>

definition boot_static :: boot where
  "boot_static = bootcom.extend bootcom_static
     \<lparr>main_sta = MAIN_STA_IDLE, fmc_log = [], flash_mem = (\<lambda>_ _. 0xffffffff), boot_requests = (\<lambda>_. 0)\<rparr>"

definition example_boot :: "u8 list \<Rightarrow> boot" where
  "example_boot p = boot_static\<lparr>com_handle_set := True, com_payload := p @ replicate (4096 - length p) 0\<rparr>"

lemmas boot_static_simps = bootcom_static_simps boot_static_def bootcom.extend_def

lemma example_boot_ok:
  assumes "length p \<le> 4096"
  shows "boot_inv (example_boot p)" "tx_ok (example_boot p)"
proof -
  have "com_inv (example_boot p)" using assms by (simp add: com_inv_def example_boot_def com_consts boot_static_simps)
  moreover have "tchain (example_boot p) [Periodic_timer, Sentinel_timer]"
    by (simp add: tchain_def example_boot_def boot_static_simps static_timers_def)
  ultimately show "boot_inv (example_boot p)" by (auto simp: boot_inv_def)
  show "tx_ok (example_boot p)" by (simp add: tx_ok_def example_boot_def console_consts boot_static_simps)
qed

lemma example_boot_fields:
  "com_payload (example_boot p) = p @ replicate (4096 - length p) 0" "com_parse_sta (example_boot p) = STA_A5"
  "com_handle_set (example_boot p)" "fmc_log (example_boot p) = []" "flash_mem (example_boot p) xs a = 0xffffffff"
  "tx_out (example_boot p) = []" "transmit_max (example_boot p) = 0" "transmit_pos (example_boot p) = 0"
  by (simp_all add: example_boot_def tx_out_def boot_static_simps)

theorem bootloader_package_received_witness:
  "foldr (\<lambda>c. mseq (com_parse (bootloader_com_handle (boot_build MACH_GD32F303 True)) c))
     [[0xa5, 0x5a, 9], [0, 1, 0x31], [0x2f, 0x8d]] (ret ()) (example_boot [])
   = (Inr (), example_boot []\<lparr>com_parse_cmd := 9, com_parse_sta := STA_A5, com_parse_count := 1, com_parse_len := 1,
       com_payload := 0x31 # replicate 4095 0, com_parse_crc := 0x2f8d\<rparr>)"
proof -
  have c: "bootloader_crc16_ccitt [0x31] = 0x2f8d" by code_simp
  have p: "bootloader_package_data 8 9 [0x31] = Some (concat [[0xa5, 0x5a, 9], [0, 1, 0x31], [0x2f, 0x8d]])"
    by (simp add: bootloader_package_data_def c com_consts)
  have h: "bootloader_com_handle bc 9 len = ret ()" for bc len by (simp add: bootloader_com_handle_def boot_cmds)
  show ?thesis
    using bootloader_package_received [OF example_boot_ok(1) example_boot_fields(2,3) p, of "[]" MACH_GD32F303 True]
    by (simp add: c h run_simps set_sta_def com_consts example_boot_fields)
qed

theorem bootloader_erase_pages_witness:
  "\<exists>t n. bootloader_erase (boot_build MACH_GD32F303 True) (example_boot [0, 0x20]) = (Inr (), t)
    \<and> fmc_log t = map (\<lambda>i. Page_erase (app_start (boot_build MACH_GD32F303 True) + of_nat (i * 2048))) [0..<n]
    \<and> 8192 \<le> n * 2048"
proof -
  let ?bc = "boot_build MACH_GD32F303 True" and ?s = "example_boot [0, 0x20]"
  have z: "le32 (com_payload ?s) 0 = 8192" by (simp add: example_boot_fields le32_def nth_append)
  have "8192 = (if le32 (com_payload ?s) 0 > bc_flash_size ?bc - bc_bootloader_size ?bc then 0 else unat (le32 (com_payload ?s) 0))"
    unfolding z by (simp add: boot_build_def)
  from bootloader_erase_pages [OF example_boot_ok _ refl this] show ?thesis
    by (auto simp: example_boot_fields(4) page_size_def elim!: ex_forward)
qed

theorem bootloader_program_whole_words_witness:
  "\<exists>t. bootloader_program (boot_build MACH_STM32F103 True) (example_boot [0, 4, 0, 0, 4, 0, 0, 0, 4, 4, 0, 0, 1, 2, 3, 4])
      = (Inr (), t)
    \<and> fmc_log t = [Word_program (app_start (boot_build MACH_STM32F103 True) + 1024) 0x04030201]"
proof -
  let ?s = "example_boot [0, 4, 0, 0, 4, 0, 0, 0, 4, 4, 0, 0, 1, 2, 3, 4]"
  have z: "le32 (com_payload ?s) 0 = 1024" "le32 (com_payload ?s) 4 = 4" "le32 (com_payload ?s) 8 = 1028"
    "le32 (com_payload ?s) 12 = 0x04030201"
    by (simp_all add: example_boot_fields le32_def nth_append)
  from bootloader_program_whole_words [OF example_boot_ok refl, of "[0, 4, 0, 0, 4, 0, 0, 0, 4, 4, 0, 0, 1, 2, 3, 4]" "boot_build MACH_STM32F103 True"]
  show ?thesis unfolding z by (auto simp: example_boot_fields(4) com_consts z elim!: ex_forward)
qed

theorem bootloader_program_tail_corrupts_witness:
  "\<exists>t. bootloader_program (boot_build MACH_STM32F103 True) (example_boot [0, 4, 0, 0, 1, 0, 0, 0, 1, 4, 0, 0, 0x40])
      = (Inr (), t)
    \<and> fmc_log t = [Word_program (app_start (boot_build MACH_STM32F103 True) + 1024) 0xfffff847]"
proof -
  let ?p = "[0, 4, 0, 0, 1, 0, 0, 0, 1, 4, 0, 0, 0x40] :: u8 list" and ?bc = "boot_build MACH_STM32F103 True"
  have z: "le32 (com_payload (example_boot ?p)) 0 = 1024" "le32 (com_payload (example_boot ?p)) 4 = 1"
    "le32 (com_payload (example_boot ?p)) 8 = 1025" "com_payload (example_boot ?p) ! 12 = 0x40"
    by (simp_all add: example_boot_fields le32_def nth_append)
  have "app_start ?bc + 1024 \<noteq> 0xffffffff" by (simp add: boot_build_def)
  with bootloader_program_tail_corrupts [OF example_boot_ok refl, of ?p "app_start ?bc + 1024" ?bc]
  show ?thesis unfolding z by (auto simp: example_boot_fields(4,5) elim!: ex_forward)
qed

theorem bootloader_program_overwrites_loader_witness:
  "\<exists>t. bootloader_program (boot_build MACH_STM32F401 True)
      (example_boot [0, 0xc0, 0xff, 0xff, 4, 0, 0, 0, 0xff, 0xff, 0xff, 0xff, 1, 2, 3, 4]) = (Inr (), t)
    \<and> fmc_log t = [Word_program 0x8000000 0x04030201]"
proof -
  let ?p = "[0, 0xc0, 0xff, 0xff, 4, 0, 0, 0, 0xff, 0xff, 0xff, 0xff, 1, 2, 3, 4] :: u8 list"
    and ?bc = "boot_build MACH_STM32F401 True"
  have z: "le32 (com_payload (example_boot ?p)) 0 = - bc_bootloader_size ?bc" "le32 (com_payload (example_boot ?p)) 4 = 4"
    "le32 (com_payload (example_boot ?p)) 8 = 0xffffffff" "le32 (com_payload (example_boot ?p)) 12 = 0x04030201"
    by (simp_all add: example_boot_fields le32_def nth_append boot_build_def)
  have b: "bc_boot_address ?bc = 0x8000000" by (simp add: boot_build_def)
  from bootloader_program_overwrites_loader [OF example_boot_ok refl z(1-3)] show ?thesis
    unfolding z(4) b by (simp add: example_boot_fields(4))
qed

theorem bootloader_erase_refused_erases_witness:
  "\<exists>t. bootloader_erase (boot_build MACH_STM32F401 True) (example_boot [0xff, 0xff, 0xff, 0xff]) = (Inr (), t)
    \<and> fmc_log t = [Sector_erase 1]"
proof -
  let ?p = "[0xff, 0xff, 0xff, 0xff] :: u8 list" and ?bc = "boot_build MACH_STM32F401 True"
  have z: "le32 (com_payload (example_boot ?p)) 0 = 0xffffffff" by (simp add: example_boot_fields le32_def nth_append)
  have "le32 (com_payload (example_boot ?p)) 0 > bc_flash_size ?bc - bc_bootloader_size ?bc"
    unfolding z by (simp add: boot_build_def)
  from bootloader_erase_refused_erases [OF example_boot_ok refl this] show ?thesis by (simp add: example_boot_fields(4))
qed

theorem stray_byte_loses_package_witness:
  "com_parse (bootloader_com_handle (boot_build MACH_GD32F303 True)) [0xa5, 0xa5, 0x5a, 9, 0, 1, 0x31, 0x2f, 0x8d] (example_boot [])
    = (Inr (), example_boot [])"
proof -
  have c: "bootloader_crc16_ccitt [0x31] = 0x2f8d" by code_simp
  have p: "bootloader_package_data 8 9 [0x31] = Some (0xa5 # 0x5a # [9, 0, 1, 0x31, 0x2f, 0x8d])"
    by (simp add: bootloader_package_data_def c com_consts)
  show ?thesis by (rule stray_byte_loses_package [OF example_boot_ok(1) example_boot_fields(2) p]) simp_all
qed

end
