(* ===== verification/Spec2Isabelle.thy ===== *)
theory Spec2Isabelle
  imports Protocol Host_Bulk Bootloader
begin

text \<open>
  \<^bold>\<open>Verification of the micro-controller firmware of the Centauri Carbon 2 printer.\<close>

  \<^bold>\<open>The program.\<close>  The firmware (\<open>src/src\<close>) executes what a host plans.  Bytes arrive in the
  interrupts of a serial port or CAN controller and are collected by a console driver; the console task cuts
  them into message blocks, checks them and dispatches the commands in them; commands configure objects by
  number (steppers, pins, end stops, sensors), queue moves for them and start timers; the timer interrupt runs
  the callbacks of the timers in the order of their 32-bit wake times; tasks report to the host through the
  same console.  Any inconsistency ends in \<open>shutdown\<close>, a \<open>longjmp\<close> to the main loop that brings every
  object to a safe state.  A second program, the boot loader, receives a new firmware over the same serial
  port and writes it to flash.  The host side of the wire format is \<open>src/elegoo/chelper/msgblock.c\<close>.

  \<^bold>\<open>How code is translated.\<close>  A C function that changes state is a command of type
  \<open>'s \<Rightarrow> (abort + 'a) \<times> 's\<close> (theory Prelude): it returns, or leaves by \<open>shutdown\<close>, or does something
  undefined (\<open>Fault\<close>: a null pointer, an access outside an array, a signed overflow), or loops for ever
  (\<open>Diverge\<close>).  Loops that might not end are built with \<open>cwhile\<close> and \<open>cloop\<close>, whose value is
  \<open>Diverge\<close> when they do not end, so no fuel is needed and that a loop ends is a theorem.  Machine integers
  are words of their width.  The state is a record that every component extends by its own variables.  Objects
  are entries of stores keyed by addresses, so aliasing is as in C; object ids go through the table of
  \<open>basecmd.c\<close>.  Function pointers are values of enumeration types (\<open>timer_fn\<close>, \<open>signal_fn\<close>,
  \<open>task_wake\<close>) and what they call is an argument.  Inputs of the hardware (clock, pins, converters, received
  bytes) are streams in the state over which the theorems quantify; outputs are logs.

  \<^bold>\<open>Interrupts.\<close>  Handlers of timers and commands that disable interrupts are single steps.  The
  console drivers share their buffers with handlers outside such sections; there every window in which a
  handler can run is explicit, and a stream says what the handler does in it.  The drivers of the strain gauge
  converters enable interrupts between two bits; what runs there is an argument \<open>window\<close>, restricted by
  what it must leave alone (\<open>window_ok\<close>).

  \<^bold>\<open>Theories.\<close>

  \<^item> Prelude: words, the command monad, the judgements \<open>preserves\<close> (an invariant is kept),
    \<open>sound\<close> (moreover nothing undefined happens) and \<open>ends\<close> (the command does not loop), loops,
    linked lists in a store.

  \<^item> Vlq, Crc, Command, Msgblock, Protocol: \<open>command.c\<close>, \<open>crc16_ccitt.c\<close>, \<open>msgblock.c\<close>.  The
    variable length integers and the responses of the firmware are read back by the host; the checksum is the
    bit-serial CRC and finds single errors and short bursts; the block finder takes exactly the valid blocks and always gets on;
    dispatch never reads outside its block.  The tables that the build generates are arguments; what the
    dispatcher needs of them is \<open>table_ok\<close>.

  \<^item> Board, Sched, Sched_Timers: \<open>armcm_timer.c\<close>, \<open>gpio.c\<close>, \<open>sched.c\<close>.  The timer list is
    a well-formed list in the order of the wake times, relative to a base within half of the clock's range;
    adding, deleting and dispatching keep this and the order of dispatch; \<open>shutdown\<close> is caught and
    resets the list.  The locale \<open>timer_service\<close> is what clients may use; \<open>timers\<close> interprets it.

  \<^item> Basecmd: \<open>basecmd.c\<close>, \<open>alloc.c\<close>.  Move nodes come from a pool of distinct chunks; the queues
    threaded through them are queues (locale \<open>fifo\<close>, interpretation \<open>mq\<close>); object ids find what was
    allocated.

  \<^item> Trsync, Stepper, Endstop: \<open>trsync.c\<close>, \<open>stepper.c\<close>, \<open>endstop.c\<close>.  A stepper
    produces the times of a move exactly, for each of the three step functions; a trigger stops every stepper
    that registered a signal (locale \<open>signal_handler\<close>, interpretation \<open>stepper_signals\<close>); homing
    triggers only on confirmed samples, and then the steppers stand.

  \<^item> Gpiocmds, Pwmcmds, Adccmds, Buttons, Counter, Tmcuart: \<open>gpiocmds.c\<close>, \<open>initial_pins.c\<close>,
    \<open>pwmcmds.c\<close>, \<open>adccmds.c\<close>, \<open>buttons.c\<close>, \<open>pulse_counter.c\<close>, \<open>tmcuart.c\<close>,
    \<open>debugcmds.c\<close>.  A pin is not left on longer than its limit; button reports are delivered in order;
    every edge is counted.

  \<^item> Console, Canserial: \<open>serial_irq.c\<close>, \<open>canserial.c\<close>, \<open>canbus.c\<close>.  With handlers
    running at any window the receive buffers hold the received bytes in order (locale \<open>receiver\<close>,
    interpretations \<open>serial\<close> and \<open>can\<close>), and the line gets what was queued for it.

  \<^item> Sos_Filter, Load_Cell, Spicmds: \<open>sos_filter.c\<close>, \<open>load_cell_endstop.c\<close>, \<open>spicmds.c\<close>,
    \<open>spi_software.c\<close>, \<open>thermocouple.c\<close>.  Fixed point filtering, the load cell trigger, and the SPI
    bus in software.

  \<^item> Por: \<open>por.c\<close>.  When the supply is gone for the configured number of samples the listed pins are set
    and the firmware shuts down, and it does so only then.

  \<^item> Sensor_Bulk, Hx71x, Cs123x: \<open>sensor_bulk.c\<close>, \<open>sensor_hx71x.c\<close>, \<open>sensor_cs123x.c\<close>.  Samples
    are read bit by bit with any handlers between the bits, and arrive at the host complete and in order (locale
    \<open>bulk_sensor\<close>, interpretations \<open>hx71x\<close> and \<open>cs123x\<close>); the registers of the CS1237 are written
    as its protocol asks.

  \<^item> Ringbuffer, Bootcom, Bootloader: \<open>ringbuffer.h\<close>, \<open>bootloader_com.c\<close>, \<open>bootloader.c\<close>,
    \<open>flash.c\<close>.  The ring buffer is a bounded queue; the parser recognises packages however they are
    cut, and ends for every client with the contract \<open>com_client\<close> (interpretation \<open>boot\<close>); erasing stays
    inside the application and programming writes the words sent.

  \<^bold>\<open>Deviations that the development proves.\<close>  Some theorems state that the code does not do what it
  means to: \<open>encodef_buffer_overlong\<close>, \<open>load_cell_watchdog_inert\<close>, \<open>filter_section_overrun\<close>,
  \<open>failed_alloc_hides_objects\<close>, \<open>bootloader_program_tail_corrupts\<close>,
  \<open>bootloader_program_overwrites_loader\<close>, \<open>bootloader_erase_refused_erases\<close>,
  \<open>stray_byte_loses_package\<close>, \<open>bad_pin_ends_setting\<close>, \<open>cs123x_stop_clock_low\<close>.

  \<^bold>\<open>Bounds.\<close>  The theorems have no bound on the number of timers, objects, moves or bytes except those
  of the code: 64 bytes for a block, 192 and 96 bytes for the console buffers, eight button reports, 4096
  bytes of payload.  Time is bounded as in the code: wake times lie within half of the range of the clock.

  \<^bold>\<open>Not modelled.\<close>  Register level drivers of the boards (clock trees, UART, SPI, I2C, ADC and PWM
  peripherals, the waits of the flash controller, USB): they appear as streams and logs.  The commands that access raw memory.
  The accelerometers, angle and eddy current sensors, I2C, SDIO, LED strips and displays: device protocols
  whose content is mostly in their timing.  The host application and the floating point motion planning of
  the host helpers: they compute with doubles and run in threads.
\<close>

end
